(* ===== verification/Prelude.thy ===== *)
theory Prelude
  imports Main
begin

text \<open>
  Shared vocabulary of the development: the exceptions the C++ code throws, the
  exception-and-state actions its functions are translated to, the preservation and
  frame reasoning for such actions, and decimal printing (\<open>std::to_string\<close>).
\<close>

section \<open>Exceptions\<close>

text \<open>
  One constructor per exception class the program throws, catches or lets escape.
  \<open>ProviderException what transient\<close> is the program's own class (Provider.hpp); the
  others are the standard library's and the two client libraries' classes, all of
  them derived from \<open>std::exception\<close>.
\<close>

datatype exn =
    InvalidArgument string
  | OutOfRange string
  | RuntimeError string
  | JsonException string
  | MysqlError string
  | ProviderException string bool

primrec what :: "exn \<Rightarrow> string" where
  "what (InvalidArgument m) = m"
| "what (OutOfRange m) = m"
| "what (RuntimeError m) = m"
| "what (JsonException m) = m"
| "what (MysqlError m) = m"
| "what (ProviderException m t) = m"

section \<open>Actions: state passing with exceptions\<close>

text \<open>
  A function of the program that may throw and that changes state becomes an action: it
  takes the state and returns the outcome (\<open>Inl\<close> an exception, \<open>Inr\<close> a value)
  together with the state reached, also when it throws.
\<close>

type_synonym ('s, 'a) act = "'s \<Rightarrow> (exn + 'a) \<times> 's"

named_theorems act_simps "evaluation of actions"
named_theorems preserves_intros "preservation of invariants by actions"

definition returnA :: "'a \<Rightarrow> ('s, 'a) act" where
  "returnA x = (\<lambda>s. (Inr x, s))"

definition throwA :: "exn \<Rightarrow> ('s, 'a) act" where
  "throwA e = (\<lambda>s. (Inl e, s))"

definition liftE :: "exn + 'a \<Rightarrow> ('s, 'a) act" where
  "liftE r = (\<lambda>s. (r, s))"

definition bindA :: "('s, 'a) act \<Rightarrow> ('a \<Rightarrow> ('s, 'b) act) \<Rightarrow> ('s, 'b) act" where
  "bindA m f = (\<lambda>s. case m s of (Inl e, t) \<Rightarrow> (Inl e, t) | (Inr x, t) \<Rightarrow> f x t)"

definition seqA :: "('s, 'a) act \<Rightarrow> ('s, 'b) act \<Rightarrow> ('s, 'b) act" where
  "seqA m n = bindA m (\<lambda>_. n)"

definition catchA :: "('s, 'a) act \<Rightarrow> (exn \<Rightarrow> ('s, 'a) act) \<Rightarrow> ('s, 'a) act" where
  "catchA m h = (\<lambda>s. case m s of (Inl e, t) \<Rightarrow> h e t | (Inr x, t) \<Rightarrow> (Inr x, t))"

text \<open>The pure counterpart, for functions that may throw but keep no state.\<close>

definition bindE :: "exn + 'a \<Rightarrow> ('a \<Rightarrow> exn + 'b) \<Rightarrow> exn + 'b" where
  "bindE r f = (case r of Inl e \<Rightarrow> Inl e | Inr x \<Rightarrow> f x)"

text \<open>
  \<open>zoomA get put m\<close> runs an action of a component on that component's part of a larger
  state.
\<close>

definition zoomA :: "('s \<Rightarrow> 't) \<Rightarrow> ('t \<Rightarrow> 's \<Rightarrow> 's) \<Rightarrow> ('t, 'a) act \<Rightarrow> ('s, 'a) act" where
  "zoomA get put m = (\<lambda>s. case m (get s) of (r, t) \<Rightarrow> (r, put t s))"

lemma returnA_apply [act_simps, simp]: "returnA x s = (Inr x, s)"
  by (simp add: returnA_def)

lemma throwA_apply [act_simps, simp]: "throwA e s = (Inl e, s)"
  by (simp add: throwA_def)

lemma liftE_apply [act_simps, simp]: "liftE r s = (r, s)"
  by (simp add: liftE_def)

lemma bindE_simps [simp]: "bindE (Inl e) f = Inl e" "bindE (Inr x) f = f x"
  by (simp_all add: bindE_def)

lemma bindE_eq_Inr: "bindE r f = Inr y \<longleftrightarrow> (\<exists>x. r = Inr x \<and> f x = Inr y)"
  by (cases r) simp_all

lemma bindE_eq_Inl: "bindE r f = Inl e \<longleftrightarrow> r = Inl e \<or> (\<exists>x. r = Inr x \<and> f x = Inl e)"
  by (cases r) auto

lemma bindA_Inr [act_simps]: "m s = (Inr x, t) \<Longrightarrow> bindA m f s = f x t"
  by (simp add: bindA_def)

lemma bindA_Inl [act_simps]: "m s = (Inl e, t) \<Longrightarrow> bindA m f s = (Inl e, t)"
  by (simp add: bindA_def)

lemma seqA_Inr [act_simps]: "m s = (Inr x, t) \<Longrightarrow> seqA m n s = n t"
  by (simp add: seqA_def bindA_def)

lemma seqA_Inl [act_simps]: "m s = (Inl e, t) \<Longrightarrow> seqA m n s = (Inl e, t)"
  by (simp add: seqA_def bindA_def)

lemma catchA_Inr [act_simps]: "m s = (Inr x, t) \<Longrightarrow> catchA m h s = (Inr x, t)"
  by (simp add: catchA_def)

lemma catchA_Inl [act_simps]: "m s = (Inl e, t) \<Longrightarrow> catchA m h s = h e t"
  by (simp add: catchA_def)

lemma bindA_Inr_conv:
  "bindA m f s = (Inr y, u) \<longleftrightarrow> (\<exists>x t. m s = (Inr x, t) \<and> f x t = (Inr y, u))"
  by (auto simp: bindA_def split: prod.splits sum.splits)

lemma seqA_Inr_conv:
  "seqA m n s = (Inr y, u) \<longleftrightarrow> (\<exists>x t. m s = (Inr x, t) \<and> n t = (Inr y, u))"
  by (simp add: seqA_def bindA_Inr_conv)

lemma zoomA_eq [act_simps]: "m (get s) = (r, t) \<Longrightarrow> zoomA get put m s = (r, put t s)"
  by (simp add: zoomA_def)

subsection \<open>Preservation\<close>

text \<open>
  \<open>preserves P m\<close>: the action keeps the state predicate \<open>P\<close>, whether it returns or
  throws. The rules below follow the structure of an action, so an invariant of a
  composed operation reduces to its primitive steps.
\<close>

definition preserves :: "('s \<Rightarrow> bool) \<Rightarrow> ('s, 'a) act \<Rightarrow> bool" where
  "preserves P m \<longleftrightarrow> (\<forall>s. P s \<longrightarrow> P (snd (m s)))"

lemma preservesI: "(\<And>s r t. P s \<Longrightarrow> m s = (r, t) \<Longrightarrow> P t) \<Longrightarrow> preserves P m"
  unfolding preserves_def by (metis surjective_pairing)

lemma preservesD: "preserves P m \<Longrightarrow> P s \<Longrightarrow> m s = (r, t) \<Longrightarrow> P t"
  unfolding preserves_def by (metis snd_conv)

lemma preserves_snd: "preserves P m \<Longrightarrow> P s \<Longrightarrow> P (snd (m s))"
  by (simp add: preserves_def)

lemma preserves_returnA [preserves_intros]: "preserves P (returnA x)"
  by (simp add: preserves_def)

lemma preserves_throwA [preserves_intros]: "preserves P (throwA e)"
  by (simp add: preserves_def)

lemma preserves_liftE [preserves_intros]: "preserves P (liftE r)"
  by (simp add: preserves_def)

lemma preserves_bindA [preserves_intros]:
  "preserves P m \<Longrightarrow> (\<And>x. preserves P (f x)) \<Longrightarrow> preserves P (bindA m f)"
  by (fastforce simp: preserves_def bindA_def split: prod.splits sum.splits dest: spec)

lemma preserves_seqA [preserves_intros]:
  "preserves P m \<Longrightarrow> preserves P n \<Longrightarrow> preserves P (seqA m n)"
  by (simp add: seqA_def preserves_bindA)

lemma preserves_catchA [preserves_intros]:
  "preserves P m \<Longrightarrow> (\<And>e. preserves P (h e)) \<Longrightarrow> preserves P (catchA m h)"
  by (fastforce simp: preserves_def catchA_def split: prod.splits sum.splits dest: spec)

lemma preserves_If [preserves_intros]:
  "(b \<Longrightarrow> preserves P m) \<Longrightarrow> (\<not> b \<Longrightarrow> preserves P n) \<Longrightarrow> preserves P (if b then m else n)"
  by simp

lemma preserves_case_option [preserves_intros]:
  "(v = None \<Longrightarrow> preserves P m) \<Longrightarrow> (\<And>x. v = Some x \<Longrightarrow> preserves P (f x)) \<Longrightarrow>
   preserves P (case v of None \<Rightarrow> m | Some x \<Rightarrow> f x)"
  by (cases v) simp_all

lemma preserves_zoomA:
  assumes "preserves Q m" and "\<And>s. P s \<Longrightarrow> Q (get s)"
    and "\<And>s t. P s \<Longrightarrow> Q t \<Longrightarrow> P (put t s)"
  shows "preserves P (zoomA get put m)"
  using assms by (auto simp: preserves_def zoomA_def split: prod.splits) (metis snd_conv)

section \<open>Decimal printing\<close>

text \<open>\<open>std::to_string\<close> of an integer: a minus sign where needed, then decimal digits.\<close>

definition digit_char :: "nat \<Rightarrow> char" where
  "digit_char d = char_of (48 + d)"

fun decimal :: "nat \<Rightarrow> string" where
  "decimal n = (if n < 10 then [digit_char n] else decimal (n div 10) @ [digit_char (n mod 10)])"

declare decimal.simps [simp del]

definition to_string :: "int \<Rightarrow> string" where
  "to_string i = (if i < 0 then CHR ''-'' # decimal (nat (- i)) else decimal (nat i))"

definition decimal_value :: "string \<Rightarrow> nat" where
  "decimal_value s = foldl (\<lambda>a c. 10 * a + (of_char c - 48)) 0 s"

lemma of_char_digit: "d < 10 \<Longrightarrow> (of_char (digit_char d) :: nat) = 48 + d"
  by (simp add: digit_char_def)

lemma decimal_value_decimal [simp]: "decimal_value (decimal n) = n"
proof (induction n rule: decimal.induct)
  case (1 n)
  show ?case
  proof (cases "n < 10")
    case True
    then show ?thesis by (simp add: decimal.simps [of n] decimal_value_def of_char_digit)
  next
    case False
    with "1.IH" show ?thesis
      by (simp add: decimal.simps [of n] decimal_value_def of_char_digit)
  qed
qed

lemma decimal_inj: "decimal m = decimal n \<Longrightarrow> m = n"
  by (metis decimal_value_decimal)

lemma decimal_digits: "c \<in> set (decimal n) \<Longrightarrow> 48 \<le> (of_char c :: nat) \<and> (of_char c :: nat) < 58"
proof (induction n rule: decimal.induct)
  case (1 n)
  then show ?case
    by (cases "n < 10") (auto simp: decimal.simps [of n] of_char_digit)
qed

lemma minus_notin_decimal: "CHR ''-'' \<notin> set (decimal n)"
  using decimal_digits [of "CHR ''-''" n] by auto

lemma decimal_nonempty: "decimal n \<noteq> []"
  by (simp add: decimal.simps [of n])

lemma to_string_inj: "to_string i = to_string j \<Longrightarrow> i = j"
proof -
  assume eq: "to_string i = to_string j"
  have hd_minus: "decimal n \<noteq> CHR ''-'' # s" for n s
    using minus_notin_decimal [of n] by (metis list.set_intros(1))
  show ?thesis
    using eq hd_minus hd_minus [symmetric]
    by (auto simp: to_string_def split: if_splits dest!: decimal_inj)
qed

lemma to_string_eq_iff [simp]: "to_string i = to_string j \<longleftrightarrow> i = j"
  using to_string_inj by blast

section \<open>Lists\<close>

lemma distinct_map_filter: "distinct (map f xs) \<Longrightarrow> distinct (map f (filter P xs))"
  by (induction xs) auto

lemma list_all2_left: "list_all2 P xs ys \<Longrightarrow> x \<in> set xs \<Longrightarrow> \<exists>y\<in>set ys. P x y"
  by (induction rule: list_all2_induct) auto

lemma list_all2_right: "list_all2 P xs ys \<Longrightarrow> y \<in> set ys \<Longrightarrow> \<exists>x\<in>set xs. P x y"
  by (induction rule: list_all2_induct) auto

lemma find_None_conv: "List.find P xs = None \<longleftrightarrow> (\<forall>x\<in>set xs. \<not> P x)"
  by (auto simp: find_None_iff)

lemma find_SomeD: "List.find P xs = Some x \<Longrightarrow> x \<in> set xs \<and> P x"
  by (auto simp: find_Some_iff)

lemma find_append_None:
  "List.find P (xs @ ys) = (case List.find P xs of None \<Rightarrow> List.find P ys | Some x \<Rightarrow> Some x)"
  by (induction xs) simp_all

section \<open>Sums over functions updated at one place\<close>

lemma sum_upd:
  fixes g :: "'a \<Rightarrow> 'b \<Rightarrow> nat"
  assumes "finite A" "k \<in> A"
  shows "(\<Sum>x\<in>A. g x ((f(k := v)) x)) + g k (f k) = (\<Sum>x\<in>A. g x (f x)) + g k v"
proof -
  have "(\<Sum>x\<in>A - {k}. g x ((f(k := v)) x)) = (\<Sum>x\<in>A - {k}. g x (f x))" by (rule sum.cong) auto
  then show ?thesis using sum.remove [OF assms, of "\<lambda>x. g x ((f(k := v)) x)"] sum.remove [OF assms, of "\<lambda>x. g x (f x)"]
    by simp
qed

lemma finite_support_upd: "finite {i. f i \<noteq> d} \<Longrightarrow> finite {i. (f(k := v)) i \<noteq> d}"
  by (rule finite_subset [of _ "insert k {i. f i \<noteq> d}"]) auto

lemma sum_support_upd:
  fixes g :: "'b \<Rightarrow> nat"
  assumes "finite {i. f i \<noteq> d}" "g d = 0"
  shows "(\<Sum>i | (f(k := v)) i \<noteq> d. g ((f(k := v)) i)) + g (f k) = (\<Sum>i | f i \<noteq> d. g (f i)) + g v"
proof -
  let ?A = "insert k {i. f i \<noteq> d}"
  have "(\<Sum>i | h i \<noteq> d. g (h i)) = (\<Sum>i\<in>?A. g (h i))" if "{i. h i \<noteq> d} \<subseteq> ?A" for h
    by (rule sum.mono_neutral_left) (use assms that in auto)
  moreover have "{i. f i \<noteq> d} \<subseteq> ?A" "{i. (f(k := v)) i \<noteq> d} \<subseteq> ?A" by auto
  ultimately show ?thesis using sum_upd [of ?A k "\<lambda>_. g" f v] assms(1) by (simp del: fun_upd_apply)
qed

end
