(* ===== verification/Enums.thy ===== *)
theory Enums
  imports Prelude "HOL-Library.Word"
begin

text \<open>
  include/notification/Enums.hpp: the four enumerations, their textual form in the
  database, in messages and in the HTTP API, and the RabbitMQ priority of a notification.
  A C++ \<open>switch\<close> over all enumerators becomes a total function; the \<open>throw\<close> after
  it is reachable only for a value outside the enumeration, which the datatype excludes.
\<close>

section \<open>Enumerations\<close>

datatype Channel = Email | Sms | Push

datatype Priority = Low | Normal | High

datatype NotificationStatus = Pending | Processing | Sent | Failed | DeadLettered | Cancelled

datatype AttemptStatus = Success | TransientFailure | PermanentFailure

section \<open>Textual form\<close>

fun toString_Channel :: "Channel \<Rightarrow> string" where
  "toString_Channel Email = ''EMAIL''"
| "toString_Channel Sms = ''SMS''"
| "toString_Channel Push = ''PUSH''"

definition channelFromString :: "string \<Rightarrow> exn + Channel" where
  "channelFromString s =
     (if s = ''EMAIL'' then Inr Email
      else if s = ''SMS'' then Inr Sms
      else if s = ''PUSH'' then Inr Push
      else Inl (InvalidArgument (''unknown channel: '' @ s)))"

fun toString_Priority :: "Priority \<Rightarrow> string" where
  "toString_Priority Low = ''LOW''"
| "toString_Priority Normal = ''NORMAL''"
| "toString_Priority High = ''HIGH''"

definition priorityFromString :: "string \<Rightarrow> Priority" where
  "priorityFromString s = (if s = ''LOW'' then Low else if s = ''HIGH'' then High else Normal)"

fun toString_NotificationStatus :: "NotificationStatus \<Rightarrow> string" where
  "toString_NotificationStatus Pending = ''PENDING''"
| "toString_NotificationStatus Processing = ''PROCESSING''"
| "toString_NotificationStatus Sent = ''SENT''"
| "toString_NotificationStatus Failed = ''FAILED''"
| "toString_NotificationStatus DeadLettered = ''DEAD_LETTERED''"
| "toString_NotificationStatus Cancelled = ''CANCELLED''"

fun toString_AttemptStatus :: "AttemptStatus \<Rightarrow> string" where
  "toString_AttemptStatus Success = ''SUCCESS''"
| "toString_AttemptStatus TransientFailure = ''TRANSIENT_FAILURE''"
| "toString_AttemptStatus PermanentFailure = ''PERMANENT_FAILURE''"

text \<open>\<open>static_cast<int>(Channel)\<close>: the enumerators count from 0 in declaration order.\<close>

fun int_of_Channel :: "Channel \<Rightarrow> int" where
  "int_of_Channel Email = 0"
| "int_of_Channel Sms = 1"
| "int_of_Channel Push = 2"

text \<open>The three channels in the order every loop of the program visits them.\<close>

definition all_channels :: "Channel list" where
  "all_channels = [Email, Sms, Push]"

section \<open>Priorities\<close>

text \<open>\<open>uint8_t\<close>: the AMQP priority of a message.\<close>

fun priorityWeight :: "Priority \<Rightarrow> 8 word" where
  "priorityWeight Low = 1"
| "priorityWeight Normal = 3"
| "priorityWeight High = 5"

text \<open>The enumerators of \<open>Priority\<close> are ordered as they are declared.\<close>

fun priority_rank :: "Priority \<Rightarrow> nat" where
  "priority_rank Low = 0"
| "priority_rank Normal = 1"
| "priority_rank High = 2"

lemma priority_rank_inj: "priority_rank p = priority_rank q \<Longrightarrow> p = q"
  by (cases p; cases q) simp_all

instantiation Priority :: linorder
begin

definition less_eq_Priority :: "Priority \<Rightarrow> Priority \<Rightarrow> bool" where
  "less_eq_Priority p q \<longleftrightarrow> priority_rank p \<le> priority_rank q"

definition less_Priority :: "Priority \<Rightarrow> Priority \<Rightarrow> bool" where
  "less_Priority p q \<longleftrightarrow> priority_rank p < priority_rank q"

instance
  by standard (auto simp: less_eq_Priority_def less_Priority_def dest: priority_rank_inj)

end

section \<open>Facts\<close>

lemma set_all_channels [simp]: "set all_channels = UNIV"
  by (auto simp: all_channels_def) (metis Channel.exhaust)

lemma channelFromString_toString [simp]: "channelFromString (toString_Channel c) = Inr c"
  by (cases c) (simp_all add: channelFromString_def)

lemma channelFromString_Inr: "channelFromString s = Inr c \<Longrightarrow> s = toString_Channel c"
  by (auto simp: channelFromString_def split: if_splits)

lemma channelFromString_InrE [elim]:
  "channelFromString s = Inr c \<Longrightarrow> (s = toString_Channel c \<Longrightarrow> P) \<Longrightarrow> P"
  using channelFromString_Inr by blast

lemma priorityFromString_toString [simp]: "priorityFromString (toString_Priority p) = p"
  by (cases p) (simp_all add: priorityFromString_def)

lemma toString_Channel_inj [simp]: "toString_Channel c = toString_Channel d \<longleftrightarrow> c = d"
  by (cases c; cases d) simp_all

lemma toString_NotificationStatus_inj [simp]:
  "toString_NotificationStatus s = toString_NotificationStatus t \<longleftrightarrow> s = t"
  by (cases s; cases t) simp_all

lemma toString_AttemptStatus_inj [simp]:
  "toString_AttemptStatus s = toString_AttemptStatus t \<longleftrightarrow> s = t"
  by (cases s; cases t) simp_all

lemma int_of_Channel_inj [simp]: "int_of_Channel c = int_of_Channel d \<longleftrightarrow> c = d"
  by (cases c; cases d) simp_all

section \<open>Properties\<close>

text \<open>A channel name is accepted exactly when it is the printed form of a channel, and
  then it denotes that channel; every other string is rejected with
  \<open>std::invalid_argument\<close> quoting the string.\<close>

theorem channelFromString_exact:
  "(channelFromString s = Inr c \<longleftrightarrow> s = toString_Channel c) \<and>
   (channelFromString s = Inl e \<longleftrightarrow>
      s \<notin> range toString_Channel \<and> e = InvalidArgument (''unknown channel: '' @ s))"
proof (cases "s \<in> range toString_Channel")
  case True
  then obtain d where "s = toString_Channel d" by blast
  then show ?thesis by auto
next
  case False
  then have "s \<noteq> toString_Channel d" for d by blast
  from this [of Email] this [of Sms] this [of Push] False show ?thesis
    by (auto simp: channelFromString_def)
qed

text \<open>The AMQP priority respects the order of the priorities, stays within the
  \<open>x-max-priority\<close> of 5 the main queues are declared with, and a priority printed for
  the database or the HTTP API is read back unchanged.\<close>

theorem priorityWeight_ordered:
  "(unat (priorityWeight p) < unat (priorityWeight q) \<longleftrightarrow> p < q) \<and>
   1 \<le> unat (priorityWeight p) \<and> unat (priorityWeight p) \<le> 5 \<and>
   priorityFromString (toString_Priority p) = p"
  by (cases p; cases q) (simp_all add: less_Priority_def priorityFromString_def)

end
