(* ===== verification/Models.thy ===== *)
theory Models
  imports Enums
begin

text \<open>
  include/notification/Models.hpp: the two structs that travel between the layers, with
  their default member initialisers. Field names keep the source's names behind a prefix
  (\<open>n_\<close> for \<open>Notification\<close>, \<open>a_\<close> for \<open>DeliveryAttempt\<close>). A \<open>TimePoint\<close> is a
  count of clock ticks; an \<open>int\<close> member is an integer whose range the writers of the
  field establish.
\<close>

type_synonym TimePoint = int

record Notification =
  n_id :: string
  n_idempotencyKey :: string
  n_channel :: Channel
  n_priority :: Priority
  n_recipient :: string
  n_subject :: string
  n_body :: string
  n_status :: NotificationStatus
  n_attemptCount :: int
  n_createdAt :: TimePoint
  n_updatedAt :: TimePoint

text \<open>A value-initialised \<open>Channel\<close> is the first enumerator.\<close>

definition Notification_default :: Notification where
  "Notification_default =
     \<lparr>n_id = '''', n_idempotencyKey = '''', n_channel = Email, n_priority = Normal,
      n_recipient = '''', n_subject = '''', n_body = '''', n_status = Pending,
      n_attemptCount = 0, n_createdAt = 0, n_updatedAt = 0\<rparr>"

record DeliveryAttempt =
  a_id :: int
  a_notificationId :: string
  a_attemptNumber :: int
  a_channel :: Channel
  a_status :: AttemptStatus
  a_providerRef :: "string option"
  a_errorMessage :: "string option"
  a_attemptedAt :: TimePoint

definition DeliveryAttempt_default :: DeliveryAttempt where
  "DeliveryAttempt_default =
     \<lparr>a_id = 0, a_notificationId = '''', a_attemptNumber = 0, a_channel = Email,
      a_status = Success, a_providerRef = None, a_errorMessage = None, a_attemptedAt = 0\<rparr>"

end
