(* ===== verification/CircuitBreaker.thy ===== *)
theory CircuitBreaker
  imports Models
begin

text \<open>
  include/notification/CircuitBreaker.hpp: the three-state breaker. The mutex makes each
  operation atomic, so the breaker is a state machine whose runs are sequences of
  operations in the order the lock serialises them. \<open>steady_clock::now()\<close> is an argument,
  in nanoseconds; \<open>openDuration_\<close> is in milliseconds and is scaled for the comparison, as
  \<open>std::chrono\<close> does.
\<close>

section \<open>State and operations\<close>

datatype BreakerState = Closed | Open | HalfOpen

record CircuitBreaker =
  cb_state :: BreakerState
  cb_failureThreshold :: int
  cb_openDuration :: int
  cb_failureCount :: int
  cb_probeInFlight :: bool
  cb_openedAt :: int

definition newBreaker :: "int \<Rightarrow> int \<Rightarrow> CircuitBreaker" where
  "newBreaker failureThreshold openDuration =
     \<lparr>cb_state = Closed, cb_failureThreshold = failureThreshold,
      cb_openDuration = openDuration, cb_failureCount = 0,
      cb_probeInFlight = False, cb_openedAt = 0\<rparr>"

abbreviation ns_per_ms :: int where
  "ns_per_ms \<equiv> 1000000"

definition cooled_down :: "int \<Rightarrow> CircuitBreaker \<Rightarrow> bool" where
  "cooled_down now b \<longleftrightarrow> now - cb_openedAt b \<ge> cb_openDuration b * ns_per_ms"

definition allowRequest :: "int \<Rightarrow> CircuitBreaker \<Rightarrow> bool \<times> CircuitBreaker" where
  "allowRequest now b =
     (if cb_state b = Closed then (True, b)
      else if cb_state b = Open then
        (if cooled_down now b then (True, b\<lparr>cb_state := HalfOpen\<rparr>) else (False, b))
      else if cb_probeInFlight b then (False, b)
      else (True, b\<lparr>cb_probeInFlight := True\<rparr>))"

definition onSuccess :: "CircuitBreaker \<Rightarrow> CircuitBreaker" where
  "onSuccess b = b\<lparr>cb_failureCount := 0, cb_probeInFlight := False, cb_state := Closed\<rparr>"

definition trip :: "int \<Rightarrow> CircuitBreaker \<Rightarrow> CircuitBreaker" where
  "trip now b = b\<lparr>cb_state := Open, cb_openedAt := now, cb_failureCount := 0\<rparr>"

definition onFailure :: "int \<Rightarrow> CircuitBreaker \<Rightarrow> CircuitBreaker" where
  "onFailure now b =
     (let b = b\<lparr>cb_probeInFlight := False\<rparr>
      in if cb_state b = HalfOpen then trip now b
         else let b = b\<lparr>cb_failureCount := cb_failureCount b + 1\<rparr>
              in if cb_failureCount b \<ge> cb_failureThreshold b then trip now b else b)"

definition isOpen :: "CircuitBreaker \<Rightarrow> bool" where
  "isOpen b \<longleftrightarrow> cb_state b = Open"

lemmas breaker_defs = allowRequest_def onSuccess_def trip_def onFailure_def Let_def

section \<open>Invariant\<close>

text \<open>
  A probe is marked only in the half-open state, and the failure counter stays below the
  threshold between operations, so the \<open>++failureCount_\<close> of the source never exceeds the
  (32-bit) threshold and cannot overflow.
\<close>

definition breaker_inv :: "CircuitBreaker \<Rightarrow> bool" where
  "breaker_inv b \<longleftrightarrow>
     (cb_probeInFlight b \<longrightarrow> cb_state b = HalfOpen) \<and>
     0 \<le> cb_failureCount b \<and> cb_failureCount b \<le> max 0 (cb_failureThreshold b - 1)"

lemma breaker_inv_new: "breaker_inv (newBreaker th dur)"
  by (simp add: breaker_inv_def newBreaker_def)

lemma breaker_inv_allowRequest: "breaker_inv b \<Longrightarrow> breaker_inv (snd (allowRequest now b))"
  by (cases "cb_state b") (auto simp: breaker_inv_def allowRequest_def)

lemma breaker_inv_onSuccess: "breaker_inv b \<Longrightarrow> breaker_inv (onSuccess b)"
  by (simp add: breaker_inv_def onSuccess_def)

lemma breaker_inv_onFailure: "breaker_inv b \<Longrightarrow> breaker_inv (onFailure now b)"
  by (auto simp: breaker_inv_def onFailure_def trip_def Let_def)

section \<open>Runs\<close>

datatype breaker_event = AllowRequest int | OnSuccess | OnFailure int

fun breaker_step :: "CircuitBreaker \<Rightarrow> breaker_event \<Rightarrow> CircuitBreaker" where
  "breaker_step b (AllowRequest now) = snd (allowRequest now b)"
| "breaker_step b OnSuccess = onSuccess b"
| "breaker_step b (OnFailure now) = onFailure now b"

definition breaker_run :: "CircuitBreaker \<Rightarrow> breaker_event list \<Rightarrow> CircuitBreaker" where
  "breaker_run b es = foldl breaker_step b es"

lemma breaker_run_simps [simp]:
  "breaker_run b [] = b"
  "breaker_run b (e # es) = breaker_run (breaker_step b e) es"
  "breaker_run b (es @ [e]) = breaker_step (breaker_run b es) e"
  by (simp_all add: breaker_run_def)

lemma breaker_inv_step: "breaker_inv b \<Longrightarrow> breaker_inv (breaker_step b e)"
  by (cases e)
    (simp_all add: breaker_inv_allowRequest breaker_inv_onSuccess breaker_inv_onFailure)

lemma breaker_inv_run: "breaker_inv b \<Longrightarrow> breaker_inv (breaker_run b es)"
  by (induction es arbitrary: b) (simp_all add: breaker_inv_step)

lemma breaker_step_threshold [simp]:
  "cb_failureThreshold (breaker_step b e) = cb_failureThreshold b"
  by (cases e) (simp_all add: breaker_defs)

lemma breaker_run_threshold [simp]:
  "cb_failureThreshold (breaker_run b es) = cb_failureThreshold b"
  by (induction es arbitrary: b) simp_all

section \<open>Specification over the history of outcomes\<close>

text \<open>
  What the breaker is meant to compute, stated without its state: the number of failures
  reported since the last reported success.
\<close>

fun is_completion :: "breaker_event \<Rightarrow> bool" where
  "is_completion (AllowRequest now) = False"
| "is_completion _ = True"

fun is_failure :: "breaker_event \<Rightarrow> bool" where
  "is_failure (OnFailure now) = True"
| "is_failure _ = False"

definition trailing_failures :: "breaker_event list \<Rightarrow> nat" where
  "trailing_failures es = length (takeWhile is_failure (filter is_completion (rev es)))"

lemma trailing_failures_simps [simp]:
  "trailing_failures [] = 0"
  "trailing_failures (es @ [AllowRequest now]) = trailing_failures es"
  "trailing_failures (es @ [OnSuccess]) = 0"
  "trailing_failures (es @ [OnFailure now]) = Suc (trailing_failures es)"
  by (simp_all add: trailing_failures_def)

definition history_closed :: "int \<Rightarrow> breaker_event list \<Rightarrow> bool" where
  "history_closed th es \<longleftrightarrow> trailing_failures es = 0 \<or> int (trailing_failures es) < th"

text \<open>The simulation relation between a history and the breaker it leads to.\<close>

definition history_rel :: "int \<Rightarrow> breaker_event list \<Rightarrow> CircuitBreaker \<Rightarrow> bool" where
  "history_rel th es b \<longleftrightarrow>
     cb_failureThreshold b = th \<and>
     (cb_state b = Closed \<longleftrightarrow> history_closed th es) \<and>
     (cb_state b = Closed \<longrightarrow> cb_failureCount b = int (trailing_failures es))"

lemma history_rel_step:
  assumes "history_rel th es b"
  shows "history_rel th (es @ [e]) (breaker_step b e)"
proof (cases e)
  case (AllowRequest now)
  with assms show ?thesis
    by (cases "cb_state b") (auto simp: history_rel_def history_closed_def allowRequest_def)
next
  case OnSuccess
  with assms show ?thesis
    by (simp add: history_rel_def history_closed_def onSuccess_def)
next
  case (OnFailure now)
  with assms show ?thesis
    by (cases "cb_state b")
      (auto simp: history_rel_def history_closed_def onFailure_def trip_def Let_def)
qed

lemma history_rel_run: "history_rel th es (breaker_run (newBreaker th dur) es)"
proof (induction es rule: rev_induct)
  case Nil
  show ?case by (simp add: history_rel_def history_closed_def newBreaker_def)
next
  case (snoc e es)
  then show ?case by (simp add: history_rel_step)
qed

section \<open>Admission of requests\<close>

text \<open>How many of the requests made at the given times the breaker admits.\<close>

fun granted :: "CircuitBreaker \<Rightarrow> int list \<Rightarrow> nat" where
  "granted b [] = 0"
| "granted b (now # ts) =
     (let (ok, b') = allowRequest now b in (if ok then 1 else 0) + granted b' ts)"

definition wedged :: "CircuitBreaker \<Rightarrow> bool" where
  "wedged b \<longleftrightarrow> cb_state b = HalfOpen \<and> cb_probeInFlight b"

lemma allowRequest_closed: "cb_state b = Closed \<Longrightarrow> allowRequest now b = (True, b)"
  by (simp add: allowRequest_def)

lemma allowRequest_wedged: "wedged b \<Longrightarrow> allowRequest now b = (False, b)"
  by (simp add: wedged_def allowRequest_def)

lemma allowRequest_probe:
  "cb_state b = HalfOpen \<Longrightarrow> \<not> cb_probeInFlight b \<Longrightarrow>
   allowRequest now b = (True, b\<lparr>cb_probeInFlight := True\<rparr>)"
  by (simp add: allowRequest_def)

lemma allowRequest_cooled:
  "cb_state b = Open \<Longrightarrow> cooled_down now b \<Longrightarrow>
   allowRequest now b = (True, b\<lparr>cb_state := HalfOpen\<rparr>)"
  by (simp add: allowRequest_def)

lemma allowRequest_hot:
  "cb_state b = Open \<Longrightarrow> \<not> cooled_down now b \<Longrightarrow> allowRequest now b = (False, b)"
  by (simp add: allowRequest_def)

lemma granted_wedged: "wedged b \<Longrightarrow> granted b ts = 0"
  by (induction ts arbitrary: b) (simp_all add: allowRequest_wedged)

lemma granted_half_open:
  assumes "cb_state b = HalfOpen" and "\<not> cb_probeInFlight b"
  shows "granted b ts = min 1 (length ts)"
proof (cases ts)
  case Nil
  then show ?thesis by simp
next
  case (Cons now ts')
  have "wedged (b\<lparr>cb_probeInFlight := True\<rparr>)"
    using assms by (simp add: wedged_def)
  with Cons assms show ?thesis
    by (simp add: allowRequest_probe granted_wedged)
qed

section \<open>The interface the router relies on\<close>

text \<open>
  What a client that guards calls with a breaker may assume: an invariant all operations
  keep, a closed state that admits every request unchanged and that every reported success
  restores, and a blocked state that rejects every request and that asking does not leave.
\<close>

locale breaker =
  fixes allow :: "'t \<Rightarrow> 'b \<Rightarrow> bool \<times> 'b"
    and succeed :: "'b \<Rightarrow> 'b"
    and fail :: "'t \<Rightarrow> 'b \<Rightarrow> 'b"
    and binv :: "'b \<Rightarrow> bool"
    and closed :: "'b \<Rightarrow> bool"
    and blocked :: "'b \<Rightarrow> bool"
  assumes inv_allow: "binv b \<Longrightarrow> binv (snd (allow t b))"
    and inv_succeed: "binv b \<Longrightarrow> binv (succeed b)"
    and inv_fail: "binv b \<Longrightarrow> binv (fail t b)"
    and closed_allow: "closed b \<Longrightarrow> allow t b = (True, b)"
    and closed_succeed: "closed (succeed b)"
    and blocked_allow: "blocked b \<Longrightarrow> allow t b = (False, b)"
begin

lemma closed_not_blocked: "closed b \<Longrightarrow> \<not> blocked b"
  using closed_allow blocked_allow by fastforce

end

interpretation cb: breaker allowRequest onSuccess onFailure breaker_inv
  "\<lambda>b. cb_state b = Closed" wedged
  by unfold_locales
    (simp_all add: breaker_inv_allowRequest breaker_inv_onSuccess breaker_inv_onFailure
      allowRequest_closed allowRequest_wedged, simp add: onSuccess_def)

section \<open>Properties\<close>

text \<open>C23: after any sequence of operations on a fresh breaker, the breaker is closed exactly
  when fewer than \<open>failureThreshold\<close> failures (or none at all) were reported since the last
  reported success, whatever requests were asked for in between and at whatever times; it is
  then closed with \<open>failureCount_\<close> equal to that number of failures.\<close>

theorem breaker_implements_history:
  "if trailing_failures es = 0 \<or> int (trailing_failures es) < th
   then cb_state (breaker_run (newBreaker th dur) es) = Closed \<and>
        cb_failureCount (breaker_run (newBreaker th dur) es) = int (trailing_failures es)
   else cb_state (breaker_run (newBreaker th dur) es) \<noteq> Closed"
  using history_rel_run [of th es dur] by (auto simp: history_rel_def history_closed_def)

text \<open>In every state a breaker can reach, a probe is in flight only in the half-open
  state and \<open>0 \<le> failureCount_ \<le> max(0, failureThreshold - 1)\<close>: the pre-increment in
  \<open>onFailure\<close> stays within the range of the threshold's type.\<close>

theorem breaker_reachable_inv:
  "breaker_inv (breaker_run (newBreaker th dur) es)"
  by (rule breaker_inv_run [OF breaker_inv_new])

text \<open>An open breaker fails fast: until \<open>openDuration\<close> has elapsed since it tripped,
  every request is refused, and refusing changes nothing.\<close>

theorem breaker_fails_fast:
  assumes "\<forall>now\<in>set ts. now - openedAt < cb_openDuration b * ns_per_ms"
  shows "granted (trip openedAt b) ts = 0 \<and>
         breaker_run (trip openedAt b) (map AllowRequest ts) = trip openedAt b"
  using assms
  by (induction ts) (auto simp: trip_def allowRequest_def cooled_down_def)

theorem breaker_fails_fast_witness:
  "granted (trip 5 (newBreaker 3 10)) [6, 9000000] = 0"
  using breaker_fails_fast [of "[6, 9000000]" 5 "newBreaker 3 10"]
  by (simp add: newBreaker_def)

text \<open>C25: once an open breaker has cooled down and no outcome is reported, it admits exactly
  two requests, not one: the transition from open to half-open does not mark its own request
  as the probe in flight, so the next request is admitted as a second probe.\<close>

theorem breaker_admits_two_probes:
  assumes "breaker_inv b" and "cb_state b = Open" and "\<forall>now\<in>set ts. cooled_down now b"
  shows "granted b ts = min 2 (length ts)"
proof (cases ts)
  case Nil
  then show ?thesis by simp
next
  case (Cons now ts')
  have "\<not> cb_probeInFlight b"
    using assms(1,2) by (auto simp: breaker_inv_def)
  with Cons assms show ?thesis
    by (simp add: allowRequest_cooled granted_half_open)
qed

theorem breaker_admits_two_probes_witness:
  "granted (trip 0 (newBreaker 1 1)) [1000000, 1000001, 1000002] = 2"
  using breaker_admits_two_probes [of "trip 0 (newBreaker 1 1)" "[1000000, 1000001, 1000002]"]
  by (simp add: breaker_inv_def newBreaker_def trip_def cooled_down_def)

end
