(* ===== verification/IdGenerator.thy ===== *)
theory IdGenerator
  imports Models
begin

text \<open>
  include/notification/IdGenerator.hpp: UUIDv4 text. The random distributions are the
  standard library's; the values they deliver during one call are the argument of the
  model: \<open>hexDraw i\<close> is the i-th value of \<open>dist(rng)\<close>, \<open>variantDraw\<close> the value of
  \<open>distVariant(rng)\<close>, and \<open>valid_draws\<close> states the ranges the distributions are declared
  with.
\<close>

record uuid_draws =
  hexDraw :: "nat \<Rightarrow> int"
  variantDraw :: int

definition valid_draws :: "uuid_draws \<Rightarrow> bool" where
  "valid_draws u \<longleftrightarrow>
     (\<forall>i<30. 0 \<le> hexDraw u i \<and> hexDraw u i \<le> 15) \<and> 8 \<le> variantDraw u \<and> variantDraw u \<le> 11"

definition hex_digits :: string where
  "hex_digits = ''0123456789abcdef''"

definition hex_char :: "int \<Rightarrow> char" where
  "hex_char n = hex_digits ! nat n"

text \<open>One counted loop of \<open>appendHex(dist(rng))\<close>, consuming the draws \<open>from..<to\<close>.\<close>

definition appendHexes :: "uuid_draws \<Rightarrow> nat \<Rightarrow> nat \<Rightarrow> string \<Rightarrow> string" where
  "appendHexes u from to out = out @ map (\<lambda>i. hex_char (hexDraw u i)) [from..<to]"

definition push_back :: "char \<Rightarrow> string \<Rightarrow> string" where
  "push_back c out = out @ [c]"

definition uuid4 :: "uuid_draws \<Rightarrow> string" where
  "uuid4 u =
     (let out = appendHexes u 0 8 '''';
          out = push_back (CHR ''-'') out;
          out = appendHexes u 8 12 out;
          out = push_back (CHR ''-'') out;
          out = push_back (CHR ''4'') out;
          out = appendHexes u 12 15 out;
          out = push_back (CHR ''-'') out;
          out = push_back (hex_char (variantDraw u)) out;
          out = appendHexes u 15 18 out;
          out = push_back (CHR ''-'') out
      in appendHexes u 18 30 out)"

text \<open>The shape of a version 4, variant 1 UUID (RFC 4122), position by position.\<close>

definition is_uuid4 :: "string \<Rightarrow> bool" where
  "is_uuid4 s \<longleftrightarrow>
     length s = 36 \<and>
     list_all2 (\<lambda>i c.
       if i \<in> {8, 13, 18, 23} then c = CHR ''-''
       else if i = 14 then c = CHR ''4''
       else if i = 19 then c \<in> set ''89ab''
       else c \<in> set hex_digits) [0..<36] s"

lemma uuid4_eq:
  "uuid4 u =
     map (\<lambda>i. hex_char (hexDraw u i)) [0..<8] @ ''-'' @
     map (\<lambda>i. hex_char (hexDraw u i)) [8..<12] @ ''-4'' @
     map (\<lambda>i. hex_char (hexDraw u i)) [12..<15] @ ''-'' @
     hex_char (variantDraw u) # map (\<lambda>i. hex_char (hexDraw u i)) [15..<18] @ ''-'' @
     map (\<lambda>i. hex_char (hexDraw u i)) [18..<30]"
  by (simp add: uuid4_def appendHexes_def push_back_def)

lemma length_uuid4 [simp]: "length (uuid4 u) = 36"
  by (simp add: uuid4_eq)

lemma hex_digits_distinct: "distinct hex_digits" "length hex_digits = 16"
  by (simp_all add: hex_digits_def)

lemma hex_char_in_digits: "0 \<le> n \<Longrightarrow> n \<le> 15 \<Longrightarrow> hex_char n \<in> set hex_digits"
  unfolding hex_char_def by (rule nth_mem) (simp add: hex_digits_distinct nat_less_iff)

lemma hex_char_inj:
  "0 \<le> m \<Longrightarrow> m \<le> 15 \<Longrightarrow> 0 \<le> n \<Longrightarrow> n \<le> 15 \<Longrightarrow> hex_char m = hex_char n \<Longrightarrow> m = n"
  unfolding hex_char_def
  by (subst (asm) nth_eq_iff_index_eq [OF hex_digits_distinct(1)])
    (simp_all add: hex_digits_distinct nat_less_iff)

lemma hex_char_variant:
  assumes "8 \<le> n" "n \<le> 11" shows "hex_char n \<in> set ''89ab''"
proof -
  from assms have "n = 8 \<or> n = 9 \<or> n = 10 \<or> n = 11" by arith
  then show ?thesis by (auto simp: hex_char_def hex_digits_def)
qed

lemma valid_drawsD:
  assumes "valid_draws u"
  shows "i < 30 \<Longrightarrow> 0 \<le> hexDraw u i" "i < 30 \<Longrightarrow> hexDraw u i \<le> 15"
    "8 \<le> variantDraw u" "variantDraw u \<le> 11"
  using assms by (simp_all add: valid_draws_def)

lemma upt_30_split:
  "[0..<30] = [0..<8] @ [8..<12] @ [12..<15] @ [15..<18] @ [18..<30::nat]"
  by (simp add: upt_conv_Cons)

lemma uuid4_draws_eq:
  assumes "uuid4 u = uuid4 v"
  shows "hex_char (variantDraw u) = hex_char (variantDraw v)"
    and "map (\<lambda>i. hex_char (hexDraw u i)) [0..<30] = map (\<lambda>i. hex_char (hexDraw v i)) [0..<30]"
  using assms unfolding uuid4_eq upt_30_split by simp_all

section \<open>Properties\<close>

text \<open>C40: whatever the random draws, the generated identifier is a well-formed version 4
  UUID: 36 characters, dashes at 8, 13, 18 and 23, the version digit 4, a variant digit in
  8..b and lowercase hexadecimal digits elsewhere.\<close>

theorem uuid4_well_formed:
  assumes "valid_draws u"
  shows "is_uuid4 (uuid4 u)"
proof -
  have *: "hex_char (hexDraw u i) \<in> set hex_digits" if "i < 30" for i
    using valid_drawsD [OF assms] that by (simp add: hex_char_in_digits)
  have v: "hex_char (variantDraw u) \<in> set ''89ab''"
    using valid_drawsD [OF assms] by (rule_tac hex_char_variant)
  show ?thesis
    unfolding is_uuid4_def uuid4_eq using v by (simp add: upt_conv_Cons *)
qed

theorem uuid4_well_formed_witness:
  "is_uuid4 (uuid4 \<lparr>hexDraw = (\<lambda>i. int i mod 16), variantDraw = 9\<rparr>)"
proof (rule uuid4_well_formed)
  have "(i::int) mod 16 \<le> 15" for i by presburger
  then show "valid_draws \<lparr>hexDraw = (\<lambda>i. int i mod 16), variantDraw = 9\<rparr>"
    by (simp add: valid_draws_def)
qed

text \<open>No random bit is lost: two calls produce the same identifier exactly when all 30
  hexadecimal draws and the variant draw coincide, so identifiers collide only when the 122
  random bits do.\<close>

theorem uuid4_collision_free:
  assumes "valid_draws u" and "valid_draws v"
  shows "uuid4 u = uuid4 v \<longleftrightarrow>
    map (hexDraw u) [0..<30] = map (hexDraw v) [0..<30] \<and> variantDraw u = variantDraw v"
proof
  assume eq: "uuid4 u = uuid4 v"
  have var: "variantDraw u = variantDraw v"
    using uuid4_draws_eq(1) [OF eq] valid_drawsD(3,4) [OF assms(1)] valid_drawsD(3,4) [OF assms(2)]
    by (intro hex_char_inj) auto
  moreover have "hexDraw u i = hexDraw v i" if "i < 30" for i
    using uuid4_draws_eq(2) [OF eq] that
      valid_drawsD(1,2) [OF assms(1)] valid_drawsD(1,2) [OF assms(2)]
    by (intro hex_char_inj) auto
  ultimately show "map (hexDraw u) [0..<30] = map (hexDraw v) [0..<30] \<and>
      variantDraw u = variantDraw v"
    by simp
next
  assume "map (hexDraw u) [0..<30] = map (hexDraw v) [0..<30] \<and> variantDraw u = variantDraw v"
  then show "uuid4 u = uuid4 v" by (simp add: uuid4_eq)
qed

theorem uuid4_collision_free_witness:
  "uuid4 \<lparr>hexDraw = (\<lambda>i. 0), variantDraw = 8\<rparr> \<noteq> uuid4 \<lparr>hexDraw = (\<lambda>i. 0), variantDraw = 9\<rparr>"
  using uuid4_collision_free
    [of "\<lparr>hexDraw = (\<lambda>i. 0), variantDraw = 8\<rparr>" "\<lparr>hexDraw = (\<lambda>i. 0), variantDraw = 9\<rparr>"]
  by (simp add: valid_draws_def)

end
