(* ===== verification/Providers.thy ===== *)
theory Providers
  imports IdGenerator Complex_Main
begin

text \<open>
  include/notification/Provider.hpp and MockProviders (header and source): the provider
  interface and the three simulated providers. A provider call either returns the
  provider's message reference or throws; \<open>ProviderException\<close> carries whether a retry can
  help. The latency sleep has no effect on the outcome and is not modelled; the value of
  \<open>chance(rng)\<close> is the argument \<open>roll\<close>.
\<close>

record ProviderResult =
  providerRef :: string

fun isTransient :: "exn \<Rightarrow> bool" where
  "isTransient (ProviderException m t) = t"
| "isTransient _ = False"

fun is_ProviderException :: "exn \<Rightarrow> bool" where
  "is_ProviderException (ProviderException m t) = True"
| "is_ProviderException _ = False"

text \<open>The random inputs of one provider call.\<close>

record provider_draws =
  roll :: real
  refDraws :: uuid_draws

text \<open>
  The two thresholds are \<open>double\<close> literals; their exact binary values are
  \<open>5764607523034235 / 2^58\<close> (0.02) and \<open>8646911284551352 / 2^56\<close> (0.12).
\<close>

definition permanent_bound :: real where
  "permanent_bound = 5764607523034235 / 2 ^ 58"

definition transient_bound :: real where
  "transient_bound = 8646911284551352 / 2 ^ 56"

definition simulate :: "provider_draws \<Rightarrow> Notification \<Rightarrow> string \<Rightarrow> exn + ProviderResult" where
  "simulate d n prefix =
     (if roll d < permanent_bound then
        Inl (ProviderException (prefix @ '' provider rejected recipient '' @ n_recipient n) False)
      else if roll d < transient_bound then
        Inl (ProviderException (prefix @ '' provider timed out'') True)
      else Inr \<lparr>providerRef = prefix @ ''-'' @ uuid4 (refDraws d)\<rparr>)"

text \<open>The implementations of \<open>NotificationProvider\<close>; the virtual calls dispatch on them.\<close>

datatype MockProvider = MockEmailProvider | MockSmsProvider | MockPushProvider

fun provider_channel :: "MockProvider \<Rightarrow> Channel" where
  "provider_channel MockEmailProvider = Email"
| "provider_channel MockSmsProvider = Sms"
| "provider_channel MockPushProvider = Push"

fun mock_send :: "provider_draws \<Rightarrow> MockProvider \<Rightarrow> Notification \<Rightarrow> exn + ProviderResult" where
  "mock_send d MockEmailProvider n = simulate d n ''email''"
| "mock_send d MockSmsProvider n = simulate d n ''sms''"
| "mock_send d MockPushProvider n = simulate d n ''push''"

lemma permanent_below_transient: "permanent_bound < transient_bound"
  by (simp add: permanent_bound_def transient_bound_def)

lemma simulate_cases:
  "roll d < permanent_bound \<Longrightarrow>
     simulate d n p = Inl (ProviderException (p @ '' provider rejected recipient '' @ n_recipient n) False)"
  "permanent_bound \<le> roll d \<Longrightarrow> roll d < transient_bound \<Longrightarrow>
     simulate d n p = Inl (ProviderException (p @ '' provider timed out'') True)"
  "transient_bound \<le> roll d \<Longrightarrow>
     simulate d n p = Inr \<lparr>providerRef = p @ ''-'' @ uuid4 (refDraws d)\<rparr>"
  using permanent_below_transient by (simp_all add: simulate_def)

lemma mock_send_simulate: "\<exists>p. mock_send d m n = simulate d n p"
  by (cases m) auto

section \<open>Properties\<close>

text \<open>A mock provider only ever throws a \<open>ProviderException\<close>: a permanent one exactly
  for rolls below the 2 percent bound, a transient one exactly for rolls from there up to the
  12 percent bound, and otherwise it returns a reference.\<close>

theorem mock_send_classifies:
  "(\<exists>m. mock_send d p n = Inl (ProviderException m False)) = (roll d < permanent_bound) \<and>
   (\<exists>m. mock_send d p n = Inl (ProviderException m True)) =
     (permanent_bound \<le> roll d \<and> roll d < transient_bound) \<and>
   (\<exists>r. mock_send d p n = Inr r) = (transient_bound \<le> roll d)"
  using permanent_below_transient by (cases p) (auto simp: simulate_def)

end
