(* ===== verification/ProviderRouter.thy ===== *)
theory ProviderRouter
  imports CircuitBreaker Providers
begin

text \<open>
  include/notification/ProviderRouter.hpp and src/ProviderRouter.cpp: one provider and one
  breaker per channel. The router is generic in the provider objects: \<open>prov p n\<close> is what
  the virtual call \<open>p->send(n)\<close> does in this invocation, so that the lemmas hold for any
  implementation of \<open>NotificationProvider\<close>; the constructor installs the mocks. The field
  \<open>provider_calls\<close> is a ghost: the notifications for which a provider was really invoked.
\<close>

section \<open>State and operations\<close>

record 'p Entry =
  e_provider :: 'p
  e_breaker :: CircuitBreaker

record 'p ProviderRouter =
  entries :: "int \<Rightarrow> 'p Entry option"
  provider_calls :: "Notification list"

definition newRouter :: "int \<Rightarrow> int \<Rightarrow> MockProvider ProviderRouter" where
  "newRouter cbFailureThreshold cbOpenDurationMs =
     (let makeBreaker = newBreaker cbFailureThreshold cbOpenDurationMs
      in \<lparr>entries =
            [int_of_Channel Email \<mapsto> \<lparr>e_provider = MockEmailProvider, e_breaker = makeBreaker\<rparr>,
             int_of_Channel Sms \<mapsto> \<lparr>e_provider = MockSmsProvider, e_breaker = makeBreaker\<rparr>,
             int_of_Channel Push \<mapsto> \<lparr>e_provider = MockPushProvider, e_breaker = makeBreaker\<rparr>],
          provider_calls = []\<rparr>)"

text \<open>
  The body of \<open>send\<close> on one entry, over any breaker: the request is refused with a
  transient exception, or the provider is called and its outcome reported. The third
  component tells whether the provider was called. \<open>t1\<close> and \<open>t2\<close> are the clock readings
  of \<open>allowRequest\<close> and of a trip.
\<close>

definition report ::
  "('b \<Rightarrow> 'b) \<Rightarrow> ('t \<Rightarrow> 'b \<Rightarrow> 'b) \<Rightarrow> 't \<Rightarrow> exn + ProviderResult \<Rightarrow> 'b \<Rightarrow> 'b" where
  "report succeed fail t2 outcome b =
     (case outcome of
        Inr result \<Rightarrow> succeed b
      | Inl ex \<Rightarrow> (if is_ProviderException ex \<and> isTransient ex then fail t2 b else b))"

definition guarded_send ::
  "('t \<Rightarrow> 'b \<Rightarrow> bool \<times> 'b) \<Rightarrow> ('b \<Rightarrow> 'b) \<Rightarrow> ('t \<Rightarrow> 'b \<Rightarrow> 'b) \<Rightarrow> 't \<Rightarrow> 't \<Rightarrow> Channel \<Rightarrow>
   exn + ProviderResult \<Rightarrow> 'b \<Rightarrow> (exn + ProviderResult) \<times> 'b \<times> bool" where
  "guarded_send allow succeed fail t1 t2 c outcome b =
     (let (ok, b') = allow t1 b
      in if \<not> ok then
           (Inl (ProviderException (''circuit breaker open for channel '' @ toString_Channel c) True),
            b', False)
         else (outcome, report succeed fail t2 outcome b', True))"

definition router_send ::
  "('p \<Rightarrow> Notification \<Rightarrow> exn + ProviderResult) \<Rightarrow> int \<Rightarrow> int \<Rightarrow> Notification \<Rightarrow>
   ('p ProviderRouter, ProviderResult) act" where
  "router_send prov t1 t2 n = (\<lambda>r.
     case entries r (int_of_Channel (n_channel n)) of
       None \<Rightarrow> (Inl (OutOfRange ''unordered_map::at''), r)
     | Some entry \<Rightarrow>
         let (res, b', called) =
           guarded_send allowRequest onSuccess onFailure t1 t2 (n_channel n)
             (prov (e_provider entry) n) (e_breaker entry)
         in (res, r\<lparr>entries := (entries r)(int_of_Channel (n_channel n) \<mapsto> entry\<lparr>e_breaker := b'\<rparr>),
                    provider_calls := provider_calls r @ (if called then [n] else [])\<rparr>))"

text \<open>
  The same call cut where other threads run: looking up the entry and asking its breaker; some
  time later, the provider's answer; later again, the report to the breaker. The map of entries
  is never changed after construction, so the later parts find the entry again.
\<close>

definition router_admit :: "int \<Rightarrow> Notification \<Rightarrow> ('p ProviderRouter, unit) act" where
  "router_admit t1 n = (\<lambda>r.
     case entries r (int_of_Channel (n_channel n)) of
       None \<Rightarrow> (Inl (OutOfRange ''unordered_map::at''), r)
     | Some entry \<Rightarrow>
         let (ok, b') = allowRequest t1 (e_breaker entry)
         in (if ok then Inr ()
             else Inl (ProviderException (''circuit breaker open for channel '' @ toString_Channel (n_channel n)) True),
             r\<lparr>entries := (entries r)(int_of_Channel (n_channel n) \<mapsto> entry\<lparr>e_breaker := b'\<rparr>)\<rparr>))"

definition router_call ::
  "('p \<Rightarrow> Notification \<Rightarrow> exn + ProviderResult) \<Rightarrow> Notification \<Rightarrow> ('p ProviderRouter, ProviderResult) act" where
  "router_call prov n = (\<lambda>r.
     case entries r (int_of_Channel (n_channel n)) of
       None \<Rightarrow> (Inl (OutOfRange ''unordered_map::at''), r)
     | Some entry \<Rightarrow> (prov (e_provider entry) n, r\<lparr>provider_calls := provider_calls r @ [n]\<rparr>))"

definition router_report ::
  "int \<Rightarrow> Notification \<Rightarrow> exn + ProviderResult \<Rightarrow> ('p ProviderRouter, ProviderResult) act" where
  "router_report t2 n outcome = (\<lambda>r.
     case entries r (int_of_Channel (n_channel n)) of
       None \<Rightarrow> (outcome, r)
     | Some entry \<Rightarrow>
         let b' = report onSuccess onFailure t2 outcome (e_breaker entry)
         in (outcome, r\<lparr>entries := (entries r)(int_of_Channel (n_channel n) \<mapsto> entry\<lparr>e_breaker := b'\<rparr>)\<rparr>))"

definition breaker_of :: "'p ProviderRouter \<Rightarrow> Channel \<Rightarrow> CircuitBreaker" where
  "breaker_of r c = e_breaker (the (entries r (int_of_Channel c)))"

definition router_inv :: "'p ProviderRouter \<Rightarrow> bool" where
  "router_inv r \<longleftrightarrow> (\<forall>c. \<exists>e. entries r (int_of_Channel c) = Some e \<and> breaker_inv (e_breaker e))"

section \<open>Client lemmas over the breaker interface\<close>

context breaker begin

abbreviation send_with :: "'t \<Rightarrow> 't \<Rightarrow> Channel \<Rightarrow> exn + ProviderResult \<Rightarrow> 'b \<Rightarrow> (exn + ProviderResult) \<times> 'b \<times> bool" where
  "send_with \<equiv> guarded_send allow succeed fail"

lemma report_inv: "binv b \<Longrightarrow> binv (report succeed fail t2 outcome b)"
  by (auto simp: report_def inv_succeed inv_fail split: sum.splits)

lemma send_with_inv: "binv b \<Longrightarrow> binv (fst (snd (send_with t1 t2 c outcome b)))"
  using inv_allow [of b t1]
  by (auto simp: guarded_send_def report_inv split: prod.splits)

lemma send_with_blocked:
  "blocked b \<Longrightarrow>
   send_with t1 t2 c outcome b =
     (Inl (ProviderException (''circuit breaker open for channel '' @ toString_Channel c) True),
      b, False)"
  by (simp add: guarded_send_def blocked_allow)

lemma send_with_closed:
  "closed b \<Longrightarrow>
   send_with t1 t2 c outcome b = (outcome, report succeed fail t2 outcome b, True)"
  by (simp add: guarded_send_def closed_allow)

lemma send_with_result:
  "fst (send_with t1 t2 c outcome b) = Inr x \<Longrightarrow>
     outcome = Inr x \<and> closed (fst (snd (send_with t1 t2 c outcome b)))"
  by (auto simp: guarded_send_def report_def closed_succeed split: prod.splits if_splits)

end

section \<open>Facts about the router\<close>

lemma newRouter_entries:
  "entries (newRouter th dur) (int_of_Channel c) =
     Some \<lparr>e_provider = (case c of Email \<Rightarrow> MockEmailProvider | Sms \<Rightarrow> MockSmsProvider
                                  | Push \<Rightarrow> MockPushProvider),
           e_breaker = newBreaker th dur\<rparr>"
  by (cases c) (simp_all add: newRouter_def Let_def)

lemma router_inv_new: "router_inv (newRouter th dur)"
  by (simp add: router_inv_def newRouter_entries breaker_inv_new)

lemma router_send_known:
  assumes "entries r (int_of_Channel (n_channel n)) = Some e"
    and "guarded_send allowRequest onSuccess onFailure t1 t2 (n_channel n)
           (prov (e_provider e) n) (e_breaker e) = (res, b', called)"
  shows "router_send prov t1 t2 n r =
    (res, r\<lparr>entries := (entries r)(int_of_Channel (n_channel n) \<mapsto> e\<lparr>e_breaker := b'\<rparr>),
            provider_calls := provider_calls r @ (if called then [n] else [])\<rparr>)"
  using assms by (simp add: router_send_def)

text \<open>The three parts one after the other are the call.\<close>

lemma router_send_split:
  "router_send prov t1 t2 n =
     seqA (router_admit t1 n) (\<lambda>r. case router_call prov n r of (outcome, r') \<Rightarrow> router_report t2 n outcome r')"
  by (auto simp: fun_eq_iff router_send_def router_admit_def router_call_def router_report_def
      guarded_send_def seqA_def bindA_def Let_def split: option.splits prod.splits)

lemma router_report_outcome [simp]: "fst (router_report t2 n outcome r) = outcome"
  by (simp add: router_report_def Let_def split: option.split)

lemma router_call_known:
  "entries r (int_of_Channel (n_channel n)) = Some e \<Longrightarrow>
   router_call prov n r = (prov (e_provider e) n, r\<lparr>provider_calls := provider_calls r @ [n]\<rparr>)"
  by (simp add: router_call_def)

lemma router_admit_closed:
  assumes "entries r (int_of_Channel (n_channel n)) = Some e" "cb_state (e_breaker e) = Closed"
  shows "router_admit t1 n r = (Inr (), r)"
proof -
  have "(entries r)(int_of_Channel (n_channel n) \<mapsto> e) = entries r" using assms(1) by (simp add: fun_upd_idem)
  with assms show ?thesis by (simp add: router_admit_def allowRequest_closed)
qed

lemma router_inv_send: "router_inv r \<Longrightarrow> router_inv (snd (router_send prov t1 t2 n r))"
proof -
  assume inv: "router_inv r"
  then obtain e where e: "entries r (int_of_Channel (n_channel n)) = Some e"
    and be: "breaker_inv (e_breaker e)"
    by (auto simp: router_inv_def)
  obtain res b' called where g: "guarded_send allowRequest onSuccess onFailure t1 t2 (n_channel n)
      (prov (e_provider e) n) (e_breaker e) = (res, b', called)"
    by (metis prod_cases3)
  have "breaker_inv b'"
    using cb.send_with_inv [OF be, of t1 t2 "n_channel n" "prov (e_provider e) n"] g by simp
  then show ?thesis
    using inv by (auto simp: router_send_known [where prov = prov, OF e g] router_inv_def)
qed

lemma preserves_router_send [preserves_intros]: "preserves router_inv (router_send prov t1 t2 n)"
  by (simp add: preserves_def router_inv_send)

text \<open>Sends of other channels do not touch a channel's breaker.\<close>

lemma breaker_of_send_other:
  "n_channel n \<noteq> c \<Longrightarrow> breaker_of (snd (router_send prov t1 t2 n r)) c = breaker_of r c"
  by (auto simp: router_send_def breaker_of_def split: option.splits prod.splits)

lemma breaker_of_send:
  assumes "entries r (int_of_Channel (n_channel n)) = Some e"
    and "allowRequest t1 (e_breaker e) = (True, b)"
  shows "fst (router_send prov t1 t2 n r) = prov (e_provider e) n"
    and "breaker_of (snd (router_send prov t1 t2 n r)) (n_channel n) =
           report onSuccess onFailure t2 (prov (e_provider e) n) b"
  using assms by (simp_all add: router_send_def guarded_send_def breaker_of_def)

definition circuit_open :: "Channel \<Rightarrow> exn" where
  "circuit_open c =
     ProviderException (''circuit breaker open for channel '' @ toString_Channel c) True"

lemma router_send_blocked:
  assumes "entries r (int_of_Channel (n_channel n)) = Some e"
    and "allowRequest t1 (e_breaker e) = (False, e_breaker e)"
  shows "router_send prov t1 t2 n r = (Inl (circuit_open (n_channel n)), r)"
proof -
  have "(entries r)(int_of_Channel (n_channel n) \<mapsto> e) = entries r"
    using assms(1) by (simp add: fun_upd_idem)
  with assms show ?thesis
    by (simp add: router_send_def guarded_send_def circuit_open_def)
qed

text \<open>A run of sends for one channel: the clock readings and the outcome each call would have.\<close>

fun router_sends ::
  "Notification \<Rightarrow> (int \<times> int \<times> ('p \<Rightarrow> Notification \<Rightarrow> exn + ProviderResult)) list \<Rightarrow>
   'p ProviderRouter \<Rightarrow> (exn + ProviderResult) list \<times> 'p ProviderRouter" where
  "router_sends n [] r = ([], r)"
| "router_sends n ((t1, t2, prov) # cs) r =
     (let (res, r') = router_send prov t1 t2 n r; (rs, r'') = router_sends n cs r'
      in (res # rs, r''))"

lemma router_sends_wedged:
  assumes "entries r (int_of_Channel (n_channel n)) = Some e" and "wedged (e_breaker e)"
  shows "router_sends n cs r = (map (\<lambda>_. Inl (circuit_open (n_channel n))) cs, r)"
proof (induction cs)
  case Nil
  show ?case by simp
next
  case (Cons c cs)
  obtain t1 t2 prov where "c = (t1, t2, prov)" by (cases c) auto
  with Cons assms show ?case
    by (simp add: router_send_blocked allowRequest_wedged)
qed

section \<open>Properties\<close>

text \<open>A refused call is indistinguishable from a transient provider failure and leaves
  everything as it was: while the channel's breaker is open and not cooled down, \<open>send\<close>
  throws a transient \<open>ProviderException\<close>, calls no provider and changes no breaker.\<close>

theorem router_send_circuit_open:
  assumes "entries r (int_of_Channel (n_channel n)) = Some e"
    and "isOpen (e_breaker e)" and "\<not> cooled_down t1 (e_breaker e)"
  shows "router_send prov t1 t2 n r =
    (Inl (ProviderException
       (''circuit breaker open for channel '' @ toString_Channel (n_channel n)) True), r)"
  using router_send_blocked [OF assms(1)] assms(2,3)
  by (simp add: isOpen_def allowRequest_hot circuit_open_def)

theorem router_send_circuit_open_witness:
  "let e = \<lparr>e_provider = MockEmailProvider, e_breaker = trip 0 (newBreaker 5 30000)\<rparr>;
       r = \<lparr>entries = [0 \<mapsto> e], provider_calls = []\<rparr>
   in router_send (\<lambda>_ _. Inr \<lparr>providerRef = ''x''\<rparr>) 7 8 Notification_default r =
        (Inl (ProviderException ''circuit breaker open for channel EMAIL'' True), r)"
  using router_send_circuit_open
    [of "\<lparr>entries = [0 \<mapsto> \<lparr>e_provider = MockEmailProvider, e_breaker = trip 0 (newBreaker 5 30000)\<rparr>],
          provider_calls = []\<rparr>" Notification_default
        "\<lparr>e_provider = MockEmailProvider, e_breaker = trip 0 (newBreaker 5 30000)\<rparr>" 7
        "\<lambda>_ _. Inr \<lparr>providerRef = ''x''\<rparr>" 8]
  by (simp add: Notification_default_def isOpen_def trip_def newBreaker_def cooled_down_def Let_def)

text \<open>C24: two permanently failing probes wedge a channel for good. Once the breaker is open
  and cooled down, two sends whose provider call ends in a permanent failure leave the breaker
  half-open with a probe marked in flight that nobody will ever report; from then on every
  send on the channel, at any time and whatever the provider would answer, is refused as a
  transient failure and never reaches the provider.\<close>

theorem permanent_probes_wedge_channel:
  assumes "router_inv r"
    and "isOpen (breaker_of r (n_channel n))" and "cooled_down t1 (breaker_of r (n_channel n))"
    and "\<And>p. prov p n = Inl (ProviderException m False)"
    and "n_channel n' = n_channel n"
    and "router_send prov t1 t2 n r = (r1, s1)" and "router_send prov t3 t4 n s1 = (r2, s2)"
  shows "router_sends n' cs s2 =
    (map (\<lambda>_. Inl (ProviderException
       (''circuit breaker open for channel '' @ toString_Channel (n_channel n)) True)) cs, s2)"
proof -
  let ?k = "int_of_Channel (n_channel n)"
  obtain e where e: "entries r ?k = Some e" and inv: "breaker_inv (e_breaker e)"
    using assms(1) by (auto simp: router_inv_def)
  have b: "cb_state (e_breaker e) = Open" "cooled_down t1 (e_breaker e)"
    "\<not> cb_probeInFlight (e_breaker e)"
    using assms(2,3) inv by (auto simp: e breaker_of_def isOpen_def breaker_inv_def)
  then have s1: "entries s1 ?k = Some (e\<lparr>e_breaker := (e_breaker e)\<lparr>cb_state := HalfOpen\<rparr>\<rparr>)"
    using assms(4,6) e by (auto simp: router_send_def guarded_send_def report_def allowRequest_cooled)
  with b have "entries s2 ?k = Some (e\<lparr>e_breaker :=
      (e_breaker e)\<lparr>cb_state := HalfOpen, cb_probeInFlight := True\<rparr>\<rparr>)"
    using assms(4,7) by (auto simp: router_send_def guarded_send_def report_def allowRequest_probe)
  then show ?thesis
    using router_sends_wedged [of s2 n' _ cs] assms(5) by (simp add: wedged_def circuit_open_def)
qed

theorem permanent_probes_wedge_channel_witness:
  "let r = \<lparr>entries = (\<lambda>k. Some \<lparr>e_provider = (), e_breaker = trip 0 (newBreaker 5 0)\<rparr>),
            provider_calls = []\<rparr>;
       bad = (\<lambda>_ _. Inl (ProviderException ''rejected'' False));
       n = Notification_default;
       s2 = snd (router_send bad 2 2 n (snd (router_send bad 1 1 n r)))
   in fst (router_sends n [(10, 10, \<lambda>_ _. Inr \<lparr>providerRef = ''ok''\<rparr>)] s2) =
        [Inl (ProviderException ''circuit breaker open for channel EMAIL'' True)]"
proof -
  let ?r = "\<lparr>entries = (\<lambda>k. Some \<lparr>e_provider = (), e_breaker = trip 0 (newBreaker 5 0)\<rparr>),
             provider_calls = []\<rparr>"
  let ?bad = "\<lambda>_ _. Inl (ProviderException ''rejected'' False)"
  let ?n = "Notification_default"
  have "router_inv ?r"
    by (simp add: router_inv_def breaker_inv_def trip_def newBreaker_def)
  then show ?thesis
    using permanent_probes_wedge_channel [of ?r ?n 1 ?bad "''rejected''" ?n 1
        "fst (router_send ?bad 1 1 ?n ?r)" "snd (router_send ?bad 1 1 ?n ?r)" 2 2
        "fst (router_send ?bad 2 2 ?n (snd (router_send ?bad 1 1 ?n ?r)))"
        "snd (router_send ?bad 2 2 ?n (snd (router_send ?bad 1 1 ?n ?r)))"
        "[(10, 10, \<lambda>_ _. Inr \<lparr>providerRef = ''ok''\<rparr>)]"]
    by (simp add: breaker_of_def isOpen_def cooled_down_def trip_def newBreaker_def Let_def
        Notification_default_def)
qed

text \<open>A success reported through the router closes the channel's breaker, and the
  invariant of every breaker survives every send, whatever its outcome.\<close>

theorem router_send_success_closes:
  assumes "router_inv r" and "router_send prov t1 t2 n r = (Inr result, r')"
  shows "cb_state (breaker_of r' (n_channel n)) = Closed \<and> router_inv r' \<and>
         provider_calls r' = provider_calls r @ [n]"
proof -
  obtain e where e: "entries r (int_of_Channel (n_channel n)) = Some e"
    using assms(1) by (auto simp: router_inv_def)
  obtain res b' called where g: "guarded_send allowRequest onSuccess onFailure t1 t2 (n_channel n)
      (prov (e_provider e) n) (e_breaker e) = (res, b', called)"
    by (metis prod_cases3)
  have "res = Inr result" using assms(2) by (simp add: router_send_known [where prov = prov, OF e g])
  then have "cb_state b' = Closed" "called"
    using cb.send_with_result [of t1 t2 "n_channel n" "prov (e_provider e) n" "e_breaker e" result] g
    by (auto simp: guarded_send_def split: prod.splits if_splits)
  moreover have "router_inv r'"
    using router_inv_send [OF assms(1), of prov t1 t2 n] assms(2) by simp
  ultimately show ?thesis
    using assms(2) by (auto simp: router_send_known [where prov = prov, OF e g] breaker_of_def)
qed

theorem router_send_success_closes_witness:
  "let res = router_send (\<lambda>_ _. Inr \<lparr>providerRef = ''ref''\<rparr>) 1 2 Notification_default (newRouter 5 30000)
   in cb_state (breaker_of (snd res) Email) = Closed"
  using router_send_success_closes [OF router_inv_new [of 5 30000],
      of "\<lambda>_ _. Inr \<lparr>providerRef = ''ref''\<rparr>" 1 2 Notification_default
         "\<lparr>providerRef = ''ref''\<rparr>"]
  by (simp add: router_send_def guarded_send_def report_def newRouter_def newBreaker_def
      allowRequest_def Let_def Notification_default_def)

end
