(* ===== verification/Tables.thy ===== *)
theory Tables
  imports Models
begin

text \<open>
  The MySQL tables of sql/schema.sql and the SQL statements the repositories execute on
  them. A row keeps its columns as MySQL returns them (ENUM columns as text). The statements
  are translated clause by clause; what depends on the server is a parameter: \<open>collation\<close>
  maps a string to its weight under the column's collation (two strings are equal for the
  server when their weights are), \<open>scan_order\<close> is the order in which rows of equal sort key
  are delivered, and \<open>db_faults\<close> says which statements fail for reasons outside the
  statement itself (lost connection, lock timeout, full disk). A failing statement throws
  and, statements being atomic, leaves the tables unchanged. Values a column cannot hold and
  violated keys are errors too, as in the server's default strict mode.
\<close>

section \<open>Rows and tables\<close>

record notification_row =
  r_id :: string
  r_idempotency_key :: string
  r_channel :: string
  r_priority :: string
  r_recipient :: string
  r_subject :: "string option"
  r_body :: string
  r_status :: string
  r_attempt_count :: nat
  r_created_at :: int

record attempt_row =
  t_id :: nat
  t_notification_id :: string
  t_attempt_number :: nat
  t_channel :: string
  t_status :: string
  t_provider_ref :: "string option"
  t_error_message :: "string option"

record outbox_row =
  o_id :: nat
  o_notification_id :: string
  o_event_type :: string
  o_payload :: string
  o_status :: string

record database =
  notifications :: "notification_row list"
  delivery_attempts :: "attempt_row list"
  outbox_events :: "outbox_row list"
  next_attempt_id :: nat
  next_outbox_id :: nat
  db_now :: int
  db_faults :: "string option list"

record db_env =
  collation :: "string \<Rightarrow> string"
  scan_order :: "notification_row list \<Rightarrow> notification_row list"

definition db_empty :: database where
  "db_empty = \<lparr>notifications = [], delivery_attempts = [], outbox_events = [],
     next_attempt_id = 1, next_outbox_id = 1, db_now = 0, db_faults = []\<rparr>"

section \<open>Executing a statement\<close>

text \<open>
  \<open>execute()\<close>: consumes one entry of the fault schedule. A failing statement, for whatever
  reason, changes nothing else.
\<close>

definition pop_fault :: "database \<Rightarrow> database" where
  "pop_fault d = d\<lparr>db_faults := tl (db_faults d)\<rparr>"

definition execute :: "(database \<Rightarrow> exn + ('a \<times> database)) \<Rightarrow> (database, 'a) act" where
  "execute stmt = (\<lambda>d.
     case db_faults d of
       Some m # _ \<Rightarrow> (Inl (MysqlError m), pop_fault d)
     | _ \<Rightarrow> (case stmt (pop_fault d) of Inl e \<Rightarrow> (Inl e, pop_fault d) | Inr (x, d') \<Rightarrow> (Inr x, d')))"

text \<open>A query reads the tables and cannot fail by itself.\<close>

definition query :: "(database \<Rightarrow> 'a) \<Rightarrow> (database, 'a) act" where
  "query q = execute (\<lambda>d. Inr (q d, d))"

definition no_fault :: "database \<Rightarrow> bool" where
  "no_fault d \<longleftrightarrow> (case db_faults d of Some m # _ \<Rightarrow> False | _ \<Rightarrow> True)"

text \<open>The part of the database that outlives a fault.\<close>

definition same_tables :: "database \<Rightarrow> database \<Rightarrow> bool" where
  "same_tables d e \<longleftrightarrow> notifications d = notifications e \<and>
     delivery_attempts d = delivery_attempts e \<and> outbox_events d = outbox_events e"

text \<open>Lengths of VARCHAR columns count characters: bytes that do not continue a UTF-8 sequence.\<close>

definition utf8_length :: "string \<Rightarrow> nat" where
  "utf8_length s = length (filter (\<lambda>c. \<not> (128 \<le> (of_char c :: nat) \<and> (of_char c :: nat) < 192)) s)"

definition varchar :: "nat \<Rightarrow> string \<Rightarrow> bool" where
  "varchar n s \<longleftrightarrow> utf8_length s \<le> n"

definition varchar_null :: "nat \<Rightarrow> string option \<Rightarrow> bool" where
  "varchar_null n v = (case v of None \<Rightarrow> True | Some s \<Rightarrow> varchar n s)"

definition uint32_max :: nat where
  "uint32_max = 4294967295"

section \<open>Statements on \<open>notifications\<close>\<close>

definition same_key :: "db_env \<Rightarrow> string \<Rightarrow> string \<Rightarrow> bool" where
  "same_key E a b \<longleftrightarrow> collation E a = collation E b"

text \<open>\<open>INSERT INTO notifications (...) VALUES (?, ?, ?, ?, ?, ?, ?, 'PENDING', 0)\<close>\<close>

definition notification_fits :: "notification_row \<Rightarrow> bool" where
  "notification_fits r \<longleftrightarrow> varchar 36 (r_id r) \<and> varchar 128 (r_idempotency_key r) \<and>
     varchar 255 (r_recipient r) \<and> varchar_null 255 (r_subject r) \<and> length (r_body r) \<le> 65535"

definition duplicates :: "db_env \<Rightarrow> notification_row \<Rightarrow> notification_row list \<Rightarrow> bool" where
  "duplicates E r rs \<longleftrightarrow>
     (\<exists>q\<in>set rs. same_key E (r_id q) (r_id r) \<or>
                 same_key E (r_idempotency_key q) (r_idempotency_key r))"

definition insert_notification ::
  "db_env \<Rightarrow> notification_row \<Rightarrow> database \<Rightarrow> exn + (unit \<times> database)" where
  "insert_notification E r d =
     (if \<not> notification_fits r then Inl (MysqlError ''Data too long for column'')
      else if duplicates E r (notifications d) then Inl (MysqlError ''Duplicate entry'')
      else Inr ((), d\<lparr>notifications := notifications d @ [r\<lparr>r_created_at := db_now d\<rparr>]\<rparr>))"

text \<open>\<open>SELECT ... FROM notifications WHERE id = ?\<close> and \<open>WHERE idempotency_key = ?\<close>, first row\<close>

definition select_by_id :: "db_env \<Rightarrow> string \<Rightarrow> database \<Rightarrow> notification_row option" where
  "select_by_id E i d = List.find (\<lambda>r. same_key E (r_id r) i) (notifications d)"

definition select_by_key :: "db_env \<Rightarrow> string \<Rightarrow> database \<Rightarrow> notification_row option" where
  "select_by_key E k d = List.find (\<lambda>r. same_key E (r_idempotency_key r) k) (notifications d)"

text \<open>\<open>SELECT ... WHERE 1=1 [AND status = ?] [AND channel = ?] ORDER BY created_at DESC LIMIT ? OFFSET ?\<close>\<close>

definition select_list ::
  "db_env \<Rightarrow> string option \<Rightarrow> string option \<Rightarrow> nat \<Rightarrow> nat \<Rightarrow> database \<Rightarrow> notification_row list" where
  "select_list E st ch limit offset d =
     take limit (drop offset (sort_key (\<lambda>r. - r_created_at r)
       (filter (\<lambda>r. (case st of None \<Rightarrow> True | Some s \<Rightarrow> r_status r = s) \<and>
                    (case ch of None \<Rightarrow> True | Some c \<Rightarrow> r_channel r = c))
         (scan_order E (notifications d)))))"

text \<open>\<open>UPDATE notifications SET status=... WHERE id=?\<close>\<close>

definition update_status ::
  "db_env \<Rightarrow> NotificationStatus \<Rightarrow> string \<Rightarrow> database \<Rightarrow> exn + (unit \<times> database)" where
  "update_status E st i d =
     Inr ((), d\<lparr>notifications :=
       map (\<lambda>r. if same_key E (r_id r) i then r\<lparr>r_status := toString_NotificationStatus st\<rparr> else r)
         (notifications d)\<rparr>)"

text \<open>\<open>UPDATE notifications SET attempt_count = attempt_count + 1 WHERE id=?\<close> (INT UNSIGNED)\<close>

definition update_attempt_count ::
  "db_env \<Rightarrow> string \<Rightarrow> database \<Rightarrow> exn + (unit \<times> database)" where
  "update_attempt_count E i d =
     (if \<exists>r\<in>set (notifications d). same_key E (r_id r) i \<and> r_attempt_count r \<ge> uint32_max
      then Inl (MysqlError ''Out of range value for column'')
      else Inr ((), d\<lparr>notifications :=
        map (\<lambda>r. if same_key E (r_id r) i then r\<lparr>r_attempt_count := r_attempt_count r + 1\<rparr> else r)
          (notifications d)\<rparr>))"

section \<open>Statements on \<open>outbox_events\<close> and \<open>delivery_attempts\<close>\<close>

text \<open>\<open>INSERT INTO outbox_events (notification_id, event_type, payload, status) VALUES (?, 'NOTIFICATION_CREATED', ?, 'PENDING')\<close>\<close>

definition insert_outbox ::
  "db_env \<Rightarrow> string \<Rightarrow> string \<Rightarrow> database \<Rightarrow> exn + (unit \<times> database)" where
  "insert_outbox E nid payload d =
     (if \<not> (\<exists>r\<in>set (notifications d). same_key E (r_id r) nid)
      then Inl (MysqlError ''Cannot add or update a child row: a foreign key constraint fails'')
      else if length payload > 65535 then Inl (MysqlError ''Data too long for column'')
      else Inr ((), d\<lparr>outbox_events := outbox_events d @
             [\<lparr>o_id = next_outbox_id d, o_notification_id = nid,
               o_event_type = ''NOTIFICATION_CREATED'', o_payload = payload, o_status = ''PENDING''\<rparr>],
           next_outbox_id := next_outbox_id d + 1\<rparr>))"

text \<open>
  \<open>INSERT INTO delivery_attempts (...) VALUES (...) ON DUPLICATE KEY UPDATE status, provider_ref,
  error_message\<close>: the row of the same (notification_id, attempt_number) is overwritten in
  these three columns, otherwise a row is added. InnoDB advances AUTO_INCREMENT in both cases.
\<close>

definition same_attempt :: "db_env \<Rightarrow> attempt_row \<Rightarrow> attempt_row \<Rightarrow> bool" where
  "same_attempt E a b \<longleftrightarrow> same_key E (t_notification_id a) (t_notification_id b) \<and>
     t_attempt_number a = t_attempt_number b"

definition upsert_attempt ::
  "db_env \<Rightarrow> int \<Rightarrow> attempt_row \<Rightarrow> database \<Rightarrow> exn + (unit \<times> database)" where
  "upsert_attempt E number a d =
     (if number < 0 \<or> number > int uint32_max then Inl (MysqlError ''Out of range value for column'')
      else if \<not> (varchar_null 255 (t_provider_ref a) \<and> varchar_null 1024 (t_error_message a))
      then Inl (MysqlError ''Data too long for column'')
      else if \<not> (\<exists>r\<in>set (notifications d). same_key E (r_id r) (t_notification_id a))
      then Inl (MysqlError ''Cannot add or update a child row: a foreign key constraint fails'')
      else
        let row = a\<lparr>t_id := next_attempt_id d, t_attempt_number := nat number\<rparr>;
            d' = d\<lparr>next_attempt_id := next_attempt_id d + 1\<rparr>
        in if \<exists>b\<in>set (delivery_attempts d). same_attempt E b row
           then Inr ((), d'\<lparr>delivery_attempts :=
                  map (\<lambda>b. if same_attempt E b row
                           then b\<lparr>t_status := t_status a, t_provider_ref := t_provider_ref a,
                                  t_error_message := t_error_message a\<rparr> else b)
                    (delivery_attempts d)\<rparr>)
           else Inr ((), d'\<lparr>delivery_attempts := delivery_attempts d @ [row]\<rparr>))"

text \<open>\<open>SELECT ... FROM delivery_attempts WHERE notification_id = ? ORDER BY attempt_number ASC\<close>\<close>

definition select_attempts :: "db_env \<Rightarrow> string \<Rightarrow> database \<Rightarrow> attempt_row list" where
  "select_attempts E nid d =
     sort_key t_attempt_number
       (filter (\<lambda>a. same_key E (t_notification_id a) nid) (delivery_attempts d))"

section \<open>Schema invariant\<close>

text \<open>
  The keys of the schema (primary key, the two unique keys, the two foreign keys), the ENUM
  columns, and the fact behind the transactional outbox: the outbox holds exactly one
  creation event per notification, in the same order, its payload the notification's id.
\<close>

definition enum_row :: "notification_row \<Rightarrow> bool" where
  "enum_row r \<longleftrightarrow> r_channel r \<in> range toString_Channel \<and> r_priority r \<in> range toString_Priority \<and>
     r_status r \<in> range toString_NotificationStatus"

definition enum_attempt :: "attempt_row \<Rightarrow> bool" where
  "enum_attempt a \<longleftrightarrow>
     t_channel a \<in> range toString_Channel \<and> t_status a \<in> range toString_AttemptStatus"

definition outbox_of :: "notification_row \<Rightarrow> string \<times> string \<times> string \<times> string" where
  "outbox_of r = (r_id r, ''NOTIFICATION_CREATED'', r_id r, ''PENDING'')"

definition outbox_key :: "outbox_row \<Rightarrow> string \<times> string \<times> string \<times> string" where
  "outbox_key e = (o_notification_id e, o_event_type e, o_payload e, o_status e)"

definition attempt_key :: "db_env \<Rightarrow> attempt_row \<Rightarrow> string \<times> nat" where
  "attempt_key E a = (collation E (t_notification_id a), t_attempt_number a)"

definition key_inv :: "db_env \<Rightarrow> database \<Rightarrow> bool" where
  "key_inv E d \<longleftrightarrow>
     distinct (map (collation E \<circ> r_id) (notifications d)) \<and>
     distinct (map (collation E \<circ> r_idempotency_key) (notifications d)) \<and>
     list_all enum_row (notifications d) \<and>
     distinct (map (attempt_key E) (delivery_attempts d)) \<and>
     list_all enum_attempt (delivery_attempts d) \<and>
     (\<forall>a\<in>set (delivery_attempts d).
        collation E (t_notification_id a) \<in> set (map (collation E \<circ> r_id) (notifications d)))"

definition outbox_inv :: "database \<Rightarrow> bool" where
  "outbox_inv d \<longleftrightarrow> map outbox_key (outbox_events d) = map outbox_of (notifications d)"

definition schema_inv :: "db_env \<Rightarrow> database \<Rightarrow> bool" where
  "schema_inv E d \<longleftrightarrow> key_inv E d \<and> outbox_inv d"

section \<open>Facts about execution\<close>

lemma pop_fault_tables [simp]:
  "notifications (pop_fault d) = notifications d"
  "delivery_attempts (pop_fault d) = delivery_attempts d"
  "outbox_events (pop_fault d) = outbox_events d"
  "db_now (pop_fault d) = db_now d"
  "db_faults (pop_fault d) = tl (db_faults d)"
  "next_attempt_id (pop_fault d) = next_attempt_id d"
  "next_outbox_id (pop_fault d) = next_outbox_id d"
  by (simp_all add: pop_fault_def)

lemma same_tables_refl [simp]: "same_tables d d" "same_tables (pop_fault d) d"
  by (simp_all add: same_tables_def)

lemma same_tables_trans: "same_tables d e \<Longrightarrow> same_tables e f \<Longrightarrow> same_tables d f"
  by (simp add: same_tables_def)

lemma execute_no_fault:
  "no_fault d \<Longrightarrow> execute stmt d =
     (case stmt (pop_fault d) of Inl e \<Rightarrow> (Inl e, pop_fault d) | Inr (x, d'') \<Rightarrow> (Inr x, d''))"
  by (auto simp: execute_def no_fault_def split: list.splits option.splits)

lemma execute_fault: "db_faults d = Some m # fs \<Longrightarrow> execute stmt d = (Inl (MysqlError m), pop_fault d)"
  by (simp add: execute_def)

lemma execute_cases:
  obtains (fault) m where "execute stmt d = (Inl (MysqlError m), pop_fault d)" "\<not> no_fault d"
  | (error) e where "execute stmt d = (Inl e, pop_fault d)" "stmt (pop_fault d) = Inl e" "no_fault d"
  | (ok) x d' where "execute stmt d = (Inr x, d')" "stmt (pop_fault d) = Inr (x, d')" "no_fault d"
proof (cases "no_fault d")
  case True
  with execute_no_fault [OF True, of stmt] show ?thesis
    by (cases "stmt (pop_fault d)") (auto intro: error ok)
next
  case False
  then obtain m fs where "db_faults d = Some m # fs"
    by (auto simp: no_fault_def split: list.splits option.splits)
  with False execute_fault [of d m fs stmt] show ?thesis by (auto intro: fault)
qed

lemma execute_error_tables: "execute stmt d = (Inl e, d') \<Longrightarrow> d' = pop_fault d"
  by (cases rule: execute_cases [of stmt d]) auto

lemma query_cases:
  obtains (fault) m where "query q d = (Inl (MysqlError m), pop_fault d)" "\<not> no_fault d"
  | (ok) "query q d = (Inr (q (pop_fault d)), pop_fault d)" "no_fault d"
  unfolding query_def by (cases rule: execute_cases [of "\<lambda>d. Inr (q d, d)" d]) auto

lemma query_no_fault: "no_fault d \<Longrightarrow> query q d = (Inr (q (pop_fault d)), pop_fault d)"
  by (simp add: query_def execute_no_fault)

lemma preserves_execute:
  assumes "\<And>d. P d \<Longrightarrow> P (pop_fault d)"
    and "\<And>d x d'. P d \<Longrightarrow> stmt d = Inr (x, d') \<Longrightarrow> P d'"
  shows "preserves P (execute stmt)"
proof (rule preservesI)
  fix d r t assume "P d" "execute stmt d = (r, t)"
  then show "P t"
    by (cases rule: execute_cases [of stmt d]) (auto intro: assms)
qed

lemma preserves_query: "(\<And>d. P d \<Longrightarrow> P (pop_fault d)) \<Longrightarrow> preserves P (query q)"
  unfolding query_def by (rule preserves_execute) auto

lemma no_fault_nil [simp]: "db_faults d = [] \<Longrightarrow> no_fault d"
  by (simp add: no_fault_def)

section \<open>The invariant and the statements\<close>

lemma key_inv_pop [simp]: "key_inv E (pop_fault d) \<longleftrightarrow> key_inv E d"
  by (simp add: key_inv_def)

lemma outbox_inv_pop [simp]: "outbox_inv (pop_fault d) \<longleftrightarrow> outbox_inv d"
  by (simp add: outbox_inv_def)

lemma schema_inv_pop [simp]: "schema_inv E (pop_fault d) \<longleftrightarrow> schema_inv E d"
  by (simp add: schema_inv_def)

lemma schema_inv_same_tables: "same_tables d e \<Longrightarrow> schema_inv E d \<longleftrightarrow> schema_inv E e"
  by (simp add: schema_inv_def key_inv_def outbox_inv_def same_tables_def)

lemma schema_inv_empty: "schema_inv E db_empty"
  by (simp add: schema_inv_def key_inv_def outbox_inv_def db_empty_def)

lemma key_inv_insert_notification:
  assumes "key_inv E d" "insert_notification E r d = Inr (u, d')" "enum_row r"
  shows "key_inv E d'"
proof -
  have d': "d' = d\<lparr>notifications := notifications d @ [r\<lparr>r_created_at := db_now d\<rparr>]\<rparr>"
    and "\<not> duplicates E r (notifications d)"
    using assms(2) by (auto simp: insert_notification_def split: if_splits)
  then have "collation E (r_id r) \<notin> set (map (collation E \<circ> r_id) (notifications d))"
    "collation E (r_idempotency_key r) \<notin> set (map (collation E \<circ> r_idempotency_key) (notifications d))"
    by (auto simp: duplicates_def same_key_def)
  moreover have "enum_row (r\<lparr>r_created_at := t\<rparr>)" for t
    using assms(3) by (simp add: enum_row_def)
  ultimately show ?thesis
    using assms(1) unfolding key_inv_def d' by simp
qed

lemma key_inv_upsert_attempt:
  assumes "key_inv E d" "upsert_attempt E k a d = Inr (u, d')"
    and "t_channel a \<in> range toString_Channel" "t_status a \<in> range toString_AttemptStatus"
  shows "key_inv E d'"
proof -
  let ?row = "a\<lparr>t_id := next_attempt_id d, t_attempt_number := nat k\<rparr>"
  let ?upd = "\<lambda>b. if same_attempt E b ?row
     then b\<lparr>t_status := t_status a, t_provider_ref := t_provider_ref a,
            t_error_message := t_error_message a\<rparr> else b"
  have keys: "map (attempt_key E) (map ?upd bs) = map (attempt_key E) bs" for bs
    by (simp add: attempt_key_def)
  have nid: "t_notification_id (?upd b) = t_notification_id b" for b by simp
  have enum: "list_all enum_attempt bs \<Longrightarrow> list_all enum_attempt (map ?upd bs)" for bs
    using assms(4) by (auto simp: list_all_iff enum_attempt_def)
  have fresh: "\<not> (\<exists>b\<in>set bs. same_attempt E b ?row) \<Longrightarrow>
      attempt_key E ?row \<notin> set (map (attempt_key E) bs)" for bs
    by (auto simp: same_attempt_def same_key_def attempt_key_def)
  consider (upd) "d' = d\<lparr>next_attempt_id := next_attempt_id d + 1,
        delivery_attempts := map ?upd (delivery_attempts d)\<rparr>"
    | (add) "d' = d\<lparr>next_attempt_id := next_attempt_id d + 1,
        delivery_attempts := delivery_attempts d @ [?row]\<rparr>"
      "\<not> (\<exists>b\<in>set (delivery_attempts d). same_attempt E b ?row)"
      "\<exists>r\<in>set (notifications d). same_key E (r_id r) (t_notification_id a)"
    using assms(2) by (auto simp: upsert_attempt_def Let_def split: if_splits)
  then show ?thesis
  proof cases
    case upd
    show ?thesis
      using assms(1) enum [of "delivery_attempts d"]
      unfolding key_inv_def upd by (auto simp: keys simp del: map_map)
  next
    case add
    have "collation E (t_notification_id a) \<in> set (map (collation E \<circ> r_id) (notifications d))"
      using add(3) by (force simp: same_key_def)
    moreover have "enum_attempt ?row" using assms(3,4) by (simp add: enum_attempt_def)
    ultimately show ?thesis
      using assms(1) fresh [OF add(2)] unfolding key_inv_def add(1) by simp
  qed
qed

lemma upsert_attempt_frame:
  "upsert_attempt E k a d = Inr (u, d') \<Longrightarrow>
   notifications d' = notifications d \<and> outbox_events d' = outbox_events d \<and>
   db_faults d' = db_faults d"
  by (auto simp: upsert_attempt_def Let_def split: if_splits)

section \<open>Looking rows up\<close>

lemma find_key_unique:
  assumes "distinct (map (collation E \<circ> f) rs)" "r \<in> set rs" "same_key E (f r) k"
  shows "List.find (\<lambda>r. same_key E (f r) k) rs = Some r"
  using assms
proof (induction rs)
  case Nil
  then show ?case by simp
next
  case (Cons q rs)
  show ?case
  proof (cases "same_key E (f q) k")
    case True
    with Cons.prems have "q = r" by (force simp: same_key_def)
    with True show ?thesis by simp
  next
    case False
    with Cons show ?thesis by auto
  qed
qed

lemma select_by_id_unique:
  "key_inv E d \<Longrightarrow> r \<in> set (notifications d) \<Longrightarrow> same_key E (r_id r) i \<Longrightarrow>
   select_by_id E i d = Some r"
  unfolding select_by_id_def by (rule find_key_unique) (auto simp: key_inv_def)

lemma select_by_id_SomeD:
  "select_by_id E i d = Some r \<Longrightarrow> r \<in> set (notifications d) \<and> same_key E (r_id r) i"
  by (auto simp: select_by_id_def dest: find_SomeD)

lemma select_by_key_SomeD:
  "select_by_key E k d = Some r \<Longrightarrow> r \<in> set (notifications d) \<and> same_key E (r_idempotency_key r) k"
  by (auto simp: select_by_key_def dest: find_SomeD)

lemma select_pop [simp]:
  "select_by_id E i (pop_fault d) = select_by_id E i d"
  "select_by_key E k (pop_fault d) = select_by_key E k d"
  "select_attempts E nid (pop_fault d) = select_attempts E nid d"
  "select_list E st ch l off (pop_fault d) = select_list E st ch l off d"
  by (simp_all add: select_by_id_def select_by_key_def select_attempts_def select_list_def)

lemma same_key_refl [simp]: "same_key E a a"
  by (simp add: same_key_def)

lemma same_key_sym: "same_key E a b \<Longrightarrow> same_key E b a"
  by (simp add: same_key_def)

end
