(* ===== verification/NotificationRepository.thy ===== *)
theory NotificationRepository
  imports Tables IdGenerator "HOL-Library.Multiset"
begin

text \<open>
  include/notification/NotificationRepository.hpp and src/NotificationRepository.cpp. Each
  member function is an action on the database; acquiring and returning the pooled session
  around it is the subject of the pool's theory. Identifiers come from \<open>IdGenerator\<close>, whose
  random draws are an argument.
\<close>

section \<open>Reading rows\<close>

text \<open>The conversion of a 64-bit column value by \<open>static_cast<int>\<close>.\<close>

definition to_int32 :: "int \<Rightarrow> int" where
  "to_int32 i = sint (word_of_int i :: 32 word)"

definition statusFromString :: "string \<Rightarrow> NotificationStatus" where
  "statusFromString s =
     (if s = ''PENDING'' then Pending
      else if s = ''PROCESSING'' then Processing
      else if s = ''SENT'' then Sent
      else if s = ''FAILED'' then Failed
      else if s = ''DEAD_LETTERED'' then DeadLettered
      else Cancelled)"

definition rowToNotification :: "notification_row \<Rightarrow> exn + Notification" where
  "rowToNotification row =
     bindE (channelFromString (r_channel row)) (\<lambda>ch.
     Inr (Notification_default\<lparr>
       n_id := r_id row,
       n_idempotencyKey := r_idempotency_key row,
       n_channel := ch,
       n_priority := priorityFromString (r_priority row),
       n_recipient := r_recipient row,
       n_subject := (case r_subject row of None \<Rightarrow> '''' | Some s \<Rightarrow> s),
       n_body := r_body row,
       n_status := statusFromString (r_status row),
       n_attemptCount := to_int32 (int (r_attempt_count row))\<rparr>))"

text \<open>\<open>if (!row) return nullopt; return rowToNotification(row)\<close>, shared by the two finders.\<close>

definition optional_row :: "notification_row option \<Rightarrow> (database, Notification option) act" where
  "optional_row r =
     (case r of None \<Rightarrow> returnA None
      | Some row \<Rightarrow> bindA (liftE (rowToNotification row)) (\<lambda>n. returnA (Some n)))"

definition findById :: "db_env \<Rightarrow> string \<Rightarrow> (database, Notification option) act" where
  "findById E i = bindA (query (select_by_id E i)) optional_row"

definition findByIdempotencyKey :: "db_env \<Rightarrow> string \<Rightarrow> (database, Notification option) act" where
  "findByIdempotencyKey E key = bindA (query (select_by_key E key)) optional_row"

section \<open>Inserting\<close>

text \<open>The values bound to the INSERT; \<open>created_at\<close> is filled in by the server.\<close>

definition newRow :: "Notification \<Rightarrow> notification_row" where
  "newRow n =
     \<lparr>r_id = n_id n, r_idempotency_key = n_idempotencyKey n,
      r_channel = toString_Channel (n_channel n), r_priority = toString_Priority (n_priority n),
      r_recipient = n_recipient n, r_subject = Some (n_subject n), r_body = n_body n,
      r_status = ''PENDING'', r_attempt_count = 0, r_created_at = 0\<rparr>"

text \<open>
  Transactions: \<open>startTransaction\<close> returns the tables to which \<open>rollback\<close> goes back. A
  rollback whose statement fails (lost connection) still ends the transaction on the server.
\<close>

definition startTransaction :: "(database, database) act" where
  "startTransaction = query id"

definition commit :: "(database, unit) act" where
  "commit = query (\<lambda>_. ())"

definition restore :: "database \<Rightarrow> database \<Rightarrow> database" where
  "restore snap d = d\<lparr>notifications := notifications snap,
     delivery_attempts := delivery_attempts snap, outbox_events := outbox_events snap\<rparr>"

definition rollback :: "database \<Rightarrow> (database, unit) act" where
  "rollback snap = (\<lambda>d. query (\<lambda>_. ()) (restore snap d))"

text \<open>The part of \<open>insertWithOutbox\<close> after the idempotency check.\<close>

definition insertTransaction :: "db_env \<Rightarrow> uuid_draws \<Rightarrow> Notification \<Rightarrow> (database, Notification) act" where
  "insertTransaction E u inn =
     (let n = inn\<lparr>n_id := uuid4 u, n_status := Pending\<rparr>
      in bindA startTransaction (\<lambda>snap.
         seqA
           (catchA
             (seqA (execute (insert_notification E (newRow n)))
             (seqA (execute (insert_outbox E (n_id n) (n_id n)))
                   commit))
             (\<lambda>ex. seqA (rollback snap) (throwA ex)))
           (returnA n)))"

definition insertWithOutbox :: "db_env \<Rightarrow> uuid_draws \<Rightarrow> Notification \<Rightarrow> (database, Notification) act" where
  "insertWithOutbox E u inn =
     bindA (findByIdempotencyKey E (n_idempotencyKey inn)) (\<lambda>existing.
       case existing of Some n \<Rightarrow> returnA n | None \<Rightarrow> insertTransaction E u inn)"

section \<open>Listing and updating\<close>

fun rowsToNotifications :: "notification_row list \<Rightarrow> exn + Notification list" where
  "rowsToNotifications [] = Inr []"
| "rowsToNotifications (row # rows) =
     bindE (rowToNotification row) (\<lambda>n. bindE (rowsToNotifications rows) (\<lambda>ns. Inr (n # ns)))"

definition list_notifications ::
  "db_env \<Rightarrow> NotificationStatus option \<Rightarrow> Channel option \<Rightarrow> nat \<Rightarrow> nat \<Rightarrow>
   (database, Notification list) act" where
  "list_notifications E statusFilter channelFilter limit offset =
     bindA (query (select_list E (map_option toString_NotificationStatus statusFilter)
                    (map_option toString_Channel channelFilter) limit offset))
       (\<lambda>rows. liftE (rowsToNotifications rows))"

definition markProcessing :: "db_env \<Rightarrow> string \<Rightarrow> (database, unit) act" where
  "markProcessing E i = execute (update_status E Processing i)"

definition markSent :: "db_env \<Rightarrow> string \<Rightarrow> (database, unit) act" where
  "markSent E i = execute (update_status E Sent i)"

definition markFailed :: "db_env \<Rightarrow> string \<Rightarrow> (database, unit) act" where
  "markFailed E i = execute (update_status E Failed i)"

definition markDeadLettered :: "db_env \<Rightarrow> string \<Rightarrow> (database, unit) act" where
  "markDeadLettered E i = execute (update_status E DeadLettered i)"

definition incrementAttemptCount :: "db_env \<Rightarrow> string \<Rightarrow> (database, unit) act" where
  "incrementAttemptCount E i = execute (update_attempt_count E i)"

section \<open>The contract of the five updates\<close>

text \<open>
  An update either throws and leaves the tables alone, or returns and rewrites exactly the
  rows with the given id, by a function that keeps the identifying columns and the ENUMs.
\<close>

definition rewrite_rows ::
  "db_env \<Rightarrow> (notification_row \<Rightarrow> notification_row) \<Rightarrow> string \<Rightarrow> database \<Rightarrow> database" where
  "rewrite_rows E f i d =
     d\<lparr>notifications := map (\<lambda>r. if same_key E (r_id r) i then f r else r) (notifications d)\<rparr>"

locale row_update =
  fixes E :: db_env
    and upd :: "string \<Rightarrow> (database, unit) act"
    and f :: "notification_row \<Rightarrow> notification_row"
  assumes upd_outcome:
      "(\<exists>e. upd i d = (Inl e, pop_fault d)) \<or> upd i d = (Inr (), rewrite_rows E f i (pop_fault d))"
    and f_keys: "r_id (f r) = r_id r" "r_idempotency_key (f r) = r_idempotency_key r"
    and f_enums: "enum_row r \<Longrightarrow> enum_row (f r)"
begin

lemma upd_Inr: "upd i d = (Inr u, d') \<Longrightarrow> d' = rewrite_rows E f i (pop_fault d)"
  using upd_outcome [of i d] by auto

lemma upd_Inl: "upd i d = (Inl e, d') \<Longrightarrow> d' = pop_fault d"
  using upd_outcome [of i d] by auto

lemma rewrite_keys:
  "map (collation E \<circ> r_id) (notifications (rewrite_rows E f i d)) =
     map (collation E \<circ> r_id) (notifications d)"
  "map (collation E \<circ> r_idempotency_key) (notifications (rewrite_rows E f i d)) =
     map (collation E \<circ> r_idempotency_key) (notifications d)"
  "map outbox_of (notifications (rewrite_rows E f i d)) = map outbox_of (notifications d)"
  by (simp_all add: rewrite_rows_def f_keys outbox_of_def)

lemma rewrite_enums:
  "list_all enum_row (notifications d) \<Longrightarrow> list_all enum_row (notifications (rewrite_rows E f i d))"
  by (auto simp: rewrite_rows_def list_all_iff f_enums)

lemma rewrite_frame [simp]:
  "delivery_attempts (rewrite_rows E f i d) = delivery_attempts d"
  "outbox_events (rewrite_rows E f i d) = outbox_events d"
  "db_faults (rewrite_rows E f i d) = db_faults d"
  "db_now (rewrite_rows E f i d) = db_now d"
  by (simp_all add: rewrite_rows_def)

lemma schema_inv_rewrite: "schema_inv E d \<Longrightarrow> schema_inv E (rewrite_rows E f i d)"
  unfolding schema_inv_def key_inv_def outbox_inv_def
  by (auto simp only: rewrite_keys rewrite_frame rewrite_enums)

lemma preserves_schema_inv: "preserves (schema_inv E) (upd i)"
proof (rule preservesI)
  fix d r t assume "schema_inv E d" "upd i d = (r, t)"
  then show "schema_inv E t"
    using upd_outcome [of i d] by (auto simp: schema_inv_rewrite)
qed

lemma preserves_outbox: "preserves (\<lambda>d. outbox_events d = ob) (upd i)"
proof (rule preservesI)
  fix d r t assume "outbox_events d = ob" "upd i d = (r, t)"
  then show "outbox_events t = ob" using upd_outcome [of i d] by auto
qed

lemma preserves_attempts: "preserves (\<lambda>d. delivery_attempts d = as) (upd i)"
proof (rule preservesI)
  fix d r t assume "delivery_attempts d = as" "upd i d = (r, t)"
  then show "delivery_attempts t = as" using upd_outcome [of i d] by auto
qed

lemma select_rewrite:
  "select_by_id E j (rewrite_rows E f i d) =
     map_option (\<lambda>r. if same_key E (r_id r) i then f r else r) (select_by_id E j d)"
proof -
  have "List.find (\<lambda>r. same_key E (r_id r) j) (map (\<lambda>r. if same_key E (r_id r) i then f r else r) rs) =
      map_option (\<lambda>r. if same_key E (r_id r) i then f r else r)
        (List.find (\<lambda>r. same_key E (r_id r) j) rs)" for rs
    by (induction rs) (simp_all add: f_keys)
  then show ?thesis by (simp add: select_by_id_def rewrite_rows_def)
qed

lemma select_rewrite_same: "select_by_id E i (rewrite_rows E f i d) = map_option f (select_by_id E i d)"
  unfolding select_rewrite
  by (cases "select_by_id E i d") (auto dest: select_by_id_SomeD)

lemma select_rewrite_other:
  "\<not> same_key E i j \<Longrightarrow> select_by_id E j (rewrite_rows E f i d) = select_by_id E j d"
  unfolding select_rewrite
  by (cases "select_by_id E j d") (auto dest!: select_by_id_SomeD simp: same_key_def)

end

definition set_status :: "NotificationStatus \<Rightarrow> notification_row \<Rightarrow> notification_row" where
  "set_status st r = r\<lparr>r_status := toString_NotificationStatus st\<rparr>"

definition bump_count :: "notification_row \<Rightarrow> notification_row" where
  "bump_count r = r\<lparr>r_attempt_count := r_attempt_count r + 1\<rparr>"

lemma status_update_row_update:
  "row_update E (\<lambda>i. execute (update_status E st i)) (set_status st)"
proof unfold_locales
  fix i d
  show "(\<exists>e. execute (update_status E st i) d = (Inl e, pop_fault d)) \<or>
      execute (update_status E st i) d = (Inr (), rewrite_rows E (set_status st) i (pop_fault d))"
    by (cases rule: execute_cases [of "update_status E st i" d])
      (auto simp: update_status_def rewrite_rows_def set_status_def [abs_def])
qed (simp_all add: set_status_def enum_row_def)

interpretation mp: row_update E "markProcessing E" "set_status Processing" for E
  unfolding markProcessing_def by (rule status_update_row_update)

interpretation ms: row_update E "markSent E" "set_status Sent" for E
  unfolding markSent_def by (rule status_update_row_update)

interpretation mf: row_update E "markFailed E" "set_status Failed" for E
  unfolding markFailed_def by (rule status_update_row_update)

interpretation md: row_update E "markDeadLettered E" "set_status DeadLettered" for E
  unfolding markDeadLettered_def by (rule status_update_row_update)

interpretation ic: row_update E "incrementAttemptCount E" bump_count for E
proof unfold_locales
  fix i d
  show "(\<exists>e. incrementAttemptCount E i d = (Inl e, pop_fault d)) \<or>
      incrementAttemptCount E i d = (Inr (), rewrite_rows E bump_count i (pop_fault d))"
    unfolding incrementAttemptCount_def
    by (cases rule: execute_cases [of "update_attempt_count E i" d])
      (auto simp: update_attempt_count_def rewrite_rows_def bump_count_def [abs_def] split: if_splits)
qed (simp_all add: bump_count_def enum_row_def)

lemmas updates_preserve_schema [preserves_intros] =
  mp.preserves_schema_inv ms.preserves_schema_inv mf.preserves_schema_inv
  md.preserves_schema_inv ic.preserves_schema_inv

text \<open>Without a fault the status updates return.\<close>

lemma mark_no_fault:
  assumes "no_fault d"
  shows "markProcessing E i d = (Inr (), rewrite_rows E (set_status Processing) i (pop_fault d))"
    and "markSent E i d = (Inr (), rewrite_rows E (set_status Sent) i (pop_fault d))"
    and "markDeadLettered E i d = (Inr (), rewrite_rows E (set_status DeadLettered) i (pop_fault d))"
  using assms
  by (simp_all add: markProcessing_def markSent_def markDeadLettered_def execute_no_fault
      update_status_def rewrite_rows_def set_status_def [abs_def] cong: if_cong)

lemma increment_no_fault:
  assumes "no_fault d"
    and "\<And>r. r \<in> set (notifications d) \<Longrightarrow> same_key E (r_id r) i \<Longrightarrow> r_attempt_count r < uint32_max"
  shows "incrementAttemptCount E i d = (Inr (), rewrite_rows E bump_count i (pop_fault d))"
proof -
  have "\<not> (\<exists>r\<in>set (notifications d). same_key E (r_id r) i \<and> r_attempt_count r \<ge> uint32_max)"
    using assms(2) by (meson leD)
  then show ?thesis
    using assms(1)
    by (simp add: incrementAttemptCount_def execute_no_fault update_attempt_count_def
        rewrite_rows_def bump_count_def [abs_def] cong: if_cong)
qed

section \<open>Facts about reading\<close>

lemma to_int32_id: "- (2 ^ 31) \<le> i \<Longrightarrow> i < 2 ^ 31 \<Longrightarrow> to_int32 i = i"
  by (simp add: to_int32_def int_word_sint)

lemma statusFromString_toString [simp]: "statusFromString (toString_NotificationStatus st) = st"
  by (cases st) (simp_all add: statusFromString_def)

lemma rowToNotification_channel:
  "r_channel row = toString_Channel c \<Longrightarrow> \<exists>n. rowToNotification row = Inr n"
  by (simp add: rowToNotification_def)

lemma rowToNotification_total: "enum_row row \<Longrightarrow> \<exists>n. rowToNotification row = Inr n"
  by (auto simp: enum_row_def rowToNotification_def)

lemma rowToNotification_fields:
  assumes "rowToNotification row = Inr n"
  shows "n_id n = r_id row" "n_idempotencyKey n = r_idempotency_key row"
    "toString_Channel (n_channel n) = r_channel row" "n_status n = statusFromString (r_status row)"
    "n_recipient n = r_recipient row"
  using assms by (auto simp: rowToNotification_def bindE_eq_Inr)

lemma rowToNotification_newRow:
  "rowToNotification (newRow n\<lparr>r_created_at := t\<rparr>) =
     Inr (n\<lparr>n_status := Pending, n_attemptCount := 0, n_createdAt := 0, n_updatedAt := 0\<rparr>)"
  by (simp add: rowToNotification_def newRow_def Notification_default_def statusFromString_def
      to_int32_def)

lemma enum_newRow [simp]: "enum_row (newRow n)"
proof -
  have "''PENDING'' \<in> range toString_NotificationStatus"
    by (rule range_eqI [of _ _ Pending]) simp
  then show ?thesis by (simp add: enum_row_def newRow_def)
qed

lemma optional_row_simps [simp]:
  "optional_row None d = (Inr None, d)"
  "rowToNotification row = Inr n \<Longrightarrow> optional_row (Some row) d = (Inr (Some n), d)"
  "rowToNotification row = Inl e \<Longrightarrow> optional_row (Some row) d = (Inl e, d)"
  by (simp_all add: optional_row_def bindA_def)

lemma optional_row_state: "snd (optional_row r d) = d"
  by (cases r) (auto simp: optional_row_def bindA_def split: sum.splits)

text \<open>Finding by id or key only consumes a fault.\<close>

lemma finder_state:
  "snd (bindA (query q) optional_row d) = pop_fault d"
  by (cases rule: query_cases [of q d]) (simp_all add: bindA_def optional_row_state)

lemma findById_state [simp]: "snd (findById E i d) = pop_fault d"
  by (simp add: findById_def finder_state)

lemma findByIdempotencyKey_state [simp]: "snd (findByIdempotencyKey E k d) = pop_fault d"
  by (simp add: findByIdempotencyKey_def finder_state)

lemma preserves_finder:
  "(\<And>d. P d \<Longrightarrow> P (pop_fault d)) \<Longrightarrow> preserves P (findById E i)"
  "(\<And>d. P d \<Longrightarrow> P (pop_fault d)) \<Longrightarrow> preserves P (findByIdempotencyKey E k)"
  by (simp_all add: preserves_def)

lemma finders_preserve_schema [preserves_intros]:
  "preserves (schema_inv E) (findById E i)"
  "preserves (schema_inv E) (findByIdempotencyKey E k)"
  by (rule preserves_finder; simp)+

lemma findById_none:
  "no_fault d \<Longrightarrow> select_by_id E i d = None \<Longrightarrow> findById E i d = (Inr None, pop_fault d)"
  by (simp add: findById_def query_no_fault bindA_def)

lemma findById_some:
  "no_fault d \<Longrightarrow> select_by_id E i d = Some row \<Longrightarrow> rowToNotification row = Inr n \<Longrightarrow>
   findById E i d = (Inr (Some n), pop_fault d)"
  by (simp add: findById_def query_no_fault bindA_def)

lemma findById_Some:
  assumes "findById E i d = (Inr (Some n), d')"
  shows "d' = pop_fault d \<and> no_fault d \<and>
    (\<exists>row. select_by_id E i d = Some row \<and> rowToNotification row = Inr n)"
proof -
  have s: "d' = pop_fault d" using findById_state [of E i d] assms by simp
  show ?thesis
  proof (cases rule: query_cases [of "select_by_id E i" d])
    case (fault m)
    with assms show ?thesis by (simp add: findById_def bindA_def)
  next
    case ok
    with assms s show ?thesis
      by (cases "select_by_id E i d"; cases "rowToNotification (the (select_by_id E i d))")
        (auto simp: findById_def bindA_def)
  qed
qed

lemma findById_None: "findById E i d = (Inr None, d') \<Longrightarrow> select_by_id E i d = None"
  by (cases rule: query_cases [of "select_by_id E i" d]; cases "select_by_id E i d";
      cases "rowToNotification (the (select_by_id E i d))")
    (auto simp: findById_def bindA_def)

lemma findByIdempotencyKey_none:
  "no_fault d \<Longrightarrow> select_by_key E i d = None \<Longrightarrow>
   findByIdempotencyKey E i d = (Inr None, pop_fault d)"
  by (simp add: findByIdempotencyKey_def query_no_fault bindA_def)

lemma findByIdempotencyKey_some:
  "no_fault d \<Longrightarrow> select_by_key E i d = Some row \<Longrightarrow> rowToNotification row = Inr n \<Longrightarrow>
   findByIdempotencyKey E i d = (Inr (Some n), pop_fault d)"
  by (simp add: findByIdempotencyKey_def query_no_fault bindA_def)

lemma findByIdempotencyKey_NoneD:
  assumes "findByIdempotencyKey E k d = (Inr None, d')"
  shows "d' = pop_fault d \<and> select_by_key E k d = None"
proof -
  have s: "d' = pop_fault d" using findByIdempotencyKey_state [of E k d] assms by simp
  show ?thesis
  proof (cases rule: query_cases [of "select_by_key E k" d])
    case (fault m)
    with assms show ?thesis by (simp add: findByIdempotencyKey_def bindA_def)
  next
    case ok
    with assms s show ?thesis
      by (cases "select_by_key E k d"; cases "rowToNotification (the (select_by_key E k d))")
        (auto simp: findByIdempotencyKey_def bindA_def)
  qed
qed

section \<open>Facts about the transaction\<close>

lemma rollback_state: "snd (rollback snap d) = pop_fault (restore snap d)"
  by (cases rule: query_cases [of "\<lambda>_. ()" "restore snap d"]) (simp_all add: rollback_def)

lemma restore_same_tables: "same_tables snap d \<Longrightarrow> same_tables (pop_fault (restore snap e)) d"
  by (simp add: same_tables_def restore_def)

lemma rollback_throws:
  "\<exists>e'. seqA (rollback snap) (throwA ex) d = (Inl e', pop_fault (restore snap d))"
proof -
  obtain r t where "rollback snap d = (r, t)" by (cases "rollback snap d")
  then show ?thesis using rollback_state [of snap d]
    by (cases r) (auto simp: seqA_def bindA_def)
qed

text \<open>What the guarded part of the transaction does when it returns.\<close>

definition inserted_row :: "Notification \<Rightarrow> int \<Rightarrow> notification_row" where
  "inserted_row n now = newRow n\<lparr>r_created_at := now\<rparr>"

definition inserted_event :: "Notification \<Rightarrow> nat \<Rightarrow> outbox_row" where
  "inserted_event n i = \<lparr>o_id = i, o_notification_id = n_id n, o_event_type = ''NOTIFICATION_CREATED'',
     o_payload = n_id n, o_status = ''PENDING''\<rparr>"

definition with_inserted :: "Notification \<Rightarrow> database \<Rightarrow> database \<Rightarrow> bool" where
  "with_inserted n d d' \<longleftrightarrow>
     notifications d' = notifications d @ [inserted_row n (db_now d)] \<and>
     outbox_events d' = outbox_events d @ [inserted_event n (next_outbox_id d)] \<and>
     delivery_attempts d' = delivery_attempts d"

lemma transaction_body:
  assumes "seqA (execute (insert_notification E (newRow n)))
      (seqA (execute (insert_outbox E (n_id n) (n_id n))) commit) d = (Inr u, d')"
  shows "with_inserted n d d' \<and> notification_fits (newRow n) \<and>
    \<not> duplicates E (newRow n) (notifications d)"
proof -
  obtain u1 d1 where 1: "execute (insert_notification E (newRow n)) d = (Inr u1, d1)"
    and r: "seqA (execute (insert_outbox E (n_id n) (n_id n))) commit d1 = (Inr u, d')"
    using assms by (auto simp: seqA_Inr_conv)
  obtain u2 d2 where 2: "execute (insert_outbox E (n_id n) (n_id n)) d1 = (Inr u2, d2)"
    and c: "commit d2 = (Inr u, d')"
    using r by (auto simp: seqA_Inr_conv)
  have i1: "insert_notification E (newRow n) (pop_fault d) = Inr (u1, d1)"
    using 1 by (cases rule: execute_cases [of "insert_notification E (newRow n)" d]) auto
  then have d1: "d1 = (pop_fault d)\<lparr>notifications := notifications d @ [inserted_row n (db_now d)]\<rparr>"
    "notification_fits (newRow n)" "\<not> duplicates E (newRow n) (notifications d)"
    by (auto simp: insert_notification_def inserted_row_def split: if_splits)
  have "insert_outbox E (n_id n) (n_id n) (pop_fault d1) = Inr (u2, d2)"
    using 2 by (cases rule: execute_cases [of "insert_outbox E (n_id n) (n_id n)" d1]) auto
  then have d2: "notifications d2 = notifications d1" "delivery_attempts d2 = delivery_attempts d1"
    "outbox_events d2 = outbox_events d1 @ [inserted_event n (next_outbox_id d1)]"
    by (auto simp: insert_outbox_def inserted_event_def split: if_splits)
  have "d' = pop_fault d2"
    using c by (cases rule: query_cases [of "\<lambda>_. ()" d2]) (auto simp: commit_def)
  with d1 d2 show ?thesis by (simp add: with_inserted_def)
qed

lemma insertTransaction_outcome:
  assumes "insertTransaction E u inn d = (r, d')"
  shows "(\<exists>e. r = Inl e \<and> same_tables d' d) \<or>
    (let n = inn\<lparr>n_id := uuid4 u, n_status := Pending\<rparr>
     in r = Inr n \<and> with_inserted n (pop_fault d) d' \<and> notification_fits (newRow n) \<and>
        \<not> duplicates E (newRow n) (notifications d))"
proof (cases rule: query_cases [of id d])
  case (fault m)
  with assms show ?thesis
    by (auto simp: insertTransaction_def startTransaction_def Let_def bindA_def)
next
  case ok
  let ?n = "inn\<lparr>n_id := uuid4 u, n_status := Pending\<rparr>"
  let ?body = "seqA (execute (insert_notification E (newRow ?n)))
      (seqA (execute (insert_outbox E (n_id ?n) (n_id ?n))) commit)"
  let ?h = "\<lambda>ex. seqA (rollback (pop_fault d)) (throwA ex) :: (database, unit) act"
  have tx: "insertTransaction E u inn d = seqA (catchA ?body ?h) (returnA ?n) (pop_fault d)"
    using ok by (simp add: insertTransaction_def startTransaction_def Let_def bindA_def)
  obtain b t where b: "?body (pop_fault d) = (b, t)" by (cases "?body (pop_fault d)")
  show ?thesis
  proof (cases b)
    case (Inl e)
    obtain e' where "?h e t = (Inl e', pop_fault (restore (pop_fault d) t))"
      using rollback_throws by blast
    with b Inl have "catchA ?body ?h (pop_fault d) = (Inl e', pop_fault (restore (pop_fault d) t))"
      by (simp add: catchA_Inl)
    then show ?thesis
      using assms tx restore_same_tables [of "pop_fault d" d t] by (auto simp: seqA_Inl)
  next
    case (Inr x)
    then have "catchA ?body ?h (pop_fault d) = (Inr x, t)"
      using b by (simp add: catchA_Inr)
    then have "r = Inr ?n" "d' = t"
      using assms tx by (auto simp: seqA_Inr)
    with transaction_body [of E ?n "pop_fault d" x t] b Inr show ?thesis by (simp add: Let_def)
  qed
qed

lemma schema_inv_with_inserted:
  assumes "schema_inv E d" "with_inserted n d d'" "\<not> duplicates E (newRow n) (notifications d)"
  shows "schema_inv E d'"
proof -
  have "collation E (n_id n) \<notin> set (map (collation E \<circ> r_id) (notifications d))"
    "collation E (n_idempotencyKey n) \<notin> set (map (collation E \<circ> r_idempotency_key) (notifications d))"
    using assms(3) by (auto simp: duplicates_def same_key_def newRow_def)
  moreover have "enum_row (inserted_row n t)" for t
    using enum_newRow [of n] by (simp add: inserted_row_def enum_row_def)
  moreover have "outbox_key (inserted_event n i) = outbox_of (inserted_row n t)" for i t
    by (simp add: outbox_key_def outbox_of_def inserted_event_def inserted_row_def newRow_def)
  ultimately show ?thesis
    using assms(1,2)
    by (simp add: schema_inv_def key_inv_def outbox_inv_def with_inserted_def)
      (simp add: inserted_row_def newRow_def)
qed

lemma insertTransaction_preserves: "preserves (schema_inv E) (insertTransaction E u inn)"
proof (rule preservesI)
  fix d r t assume inv: "schema_inv E d" and "insertTransaction E u inn d = (r, t)"
  then consider "same_tables t d"
    | n where "with_inserted n (pop_fault d) t" "\<not> duplicates E (newRow n) (notifications d)"
    using insertTransaction_outcome [of E u inn d r t] by (auto simp: Let_def)
  then show "schema_inv E t"
  proof cases
    case 1
    with inv show ?thesis using schema_inv_same_tables by blast
  next
    case 2
    then show ?thesis
      using schema_inv_with_inserted [of E "pop_fault d" n t] inv by simp
  qed
qed

lemma insertWithOutbox_preserves [preserves_intros]:
  "preserves (schema_inv E) (insertWithOutbox E u inn)"
  unfolding insertWithOutbox_def
  by (intro preserves_intros insertTransaction_preserves)

lemma with_inserted_pop [simp]: "with_inserted n (pop_fault d) d' \<longleftrightarrow> with_inserted n d d'"
  by (simp add: with_inserted_def)

lemma findByIdempotencyKey_SomeD:
  assumes "findByIdempotencyKey E k d = (Inr (Some n), d')"
  shows "d' = pop_fault d \<and> (\<exists>row. select_by_key E k d = Some row \<and> rowToNotification row = Inr n)"
proof -
  have s: "d' = pop_fault d" using findByIdempotencyKey_state [of E k d] assms by simp
  show ?thesis
  proof (cases rule: query_cases [of "select_by_key E k" d])
    case (fault m)
    with assms show ?thesis by (simp add: findByIdempotencyKey_def bindA_def)
  next
    case ok
    with assms s show ?thesis
      by (cases "select_by_key E k d"; cases "rowToNotification (the (select_by_key E k d))")
        (auto simp: findByIdempotencyKey_def bindA_def)
  qed
qed

lemma insertWithOutbox_cases:
  assumes "insertWithOutbox E u inn d = (r, d')"
  obtains (error) e where "r = Inl e" "same_tables d' d"
  | (existing) row m where "r = Inr m" "same_tables d' d"
      "select_by_key E (n_idempotencyKey inn) d = Some row" "rowToNotification row = Inr m"
  | (fresh) m where "r = Inr m" "m = inn\<lparr>n_id := uuid4 u, n_status := Pending\<rparr>"
      "with_inserted m d d'" "select_by_key E (n_idempotencyKey inn) d = None"
      "\<not> duplicates E (newRow m) (notifications d)"
proof -
  obtain o1 d1 where f: "findByIdempotencyKey E (n_idempotencyKey inn) d = (o1, d1)"
    by (cases "findByIdempotencyKey E (n_idempotencyKey inn) d")
  have d1: "d1 = pop_fault d"
    using findByIdempotencyKey_state [of E "n_idempotencyKey inn" d] f by simp
  show ?thesis
  proof (cases o1)
    case (Inl e)
    with f assms d1 show ?thesis by (auto simp: insertWithOutbox_def bindA_def intro: error)
  next
    case (Inr v)
    show ?thesis
    proof (cases v)
      case (Some m)
      with f Inr have "findByIdempotencyKey E (n_idempotencyKey inn) d = (Inr (Some m), d1)" by simp
      from findByIdempotencyKey_SomeD [OF this] Some Inr f assms d1 show ?thesis
        by (auto simp: insertWithOutbox_def bindA_def intro: existing)
    next
      case None
      with f Inr have n: "select_by_key E (n_idempotencyKey inn) d = None"
        using findByIdempotencyKey_NoneD by blast
      have "insertTransaction E u inn (pop_fault d) = (r, d')"
        using f Inr None assms d1 by (simp add: insertWithOutbox_def bindA_def)
      from insertTransaction_outcome [OF this] n show ?thesis
        by (auto simp: Let_def same_tables_def intro: error fresh)
    qed
  qed
qed

lemma find_append_new:
  "List.find P xs = None \<Longrightarrow> P x \<Longrightarrow> List.find P (xs @ [x]) = Some x"
  by (induction xs) (auto split: if_splits)

section \<open>Facts about listing\<close>

definition row_matches :: "NotificationStatus option \<Rightarrow> Channel option \<Rightarrow> notification_row \<Rightarrow> bool" where
  "row_matches st ch r \<longleftrightarrow>
     (case st of None \<Rightarrow> True | Some s \<Rightarrow> r_status r = toString_NotificationStatus s) \<and>
     (case ch of None \<Rightarrow> True | Some c \<Rightarrow> r_channel r = toString_Channel c)"

definition stable_scan :: "db_env \<Rightarrow> bool" where
  "stable_scan E \<longleftrightarrow> (\<forall>rs. mset (scan_order E rs) = mset rs)"

lemma select_list_eq:
  "select_list E (map_option toString_NotificationStatus st) (map_option toString_Channel ch) limit offset d =
     take limit (drop offset (sort_key (\<lambda>r. - r_created_at r)
       (filter (row_matches st ch) (scan_order E (notifications d)))))"
proof -
  have "(\<lambda>r. (case map_option toString_NotificationStatus st of None \<Rightarrow> True | Some s \<Rightarrow> r_status r = s) \<and>
             (case map_option toString_Channel ch of None \<Rightarrow> True | Some c \<Rightarrow> r_channel r = c)) =
        row_matches st ch"
    by (auto simp: row_matches_def fun_eq_iff split: option.splits)
  then show ?thesis by (simp add: select_list_def)
qed

lemma rowsToNotifications_total:
  "list_all enum_row rs \<Longrightarrow> \<exists>ns. rowsToNotifications rs = Inr ns \<and> length ns = length rs"
  by (induction rs) (auto dest!: rowToNotification_total)

lemma sorted_split_le:
  "sorted (map f (xs @ ys)) \<Longrightarrow> x \<in> set xs \<Longrightarrow> y \<in> set ys \<Longrightarrow> f x \<le> f y"
  by (auto simp: sorted_append)

lemma preserves_list [preserves_intros]:
  "preserves (schema_inv E) (list_notifications E' st ch l off)"
  unfolding list_notifications_def by (intro preserves_intros preserves_query) simp

section \<open>Concrete instances for witnesses\<close>

definition plain_env :: db_env where
  "plain_env = \<lparr>collation = (\<lambda>s. s), scan_order = (\<lambda>rs. rs)\<rparr>"

definition zero_draws :: uuid_draws where
  "zero_draws = \<lparr>hexDraw = (\<lambda>_. 0), variantDraw = 8\<rparr>"

definition sample_notification :: Notification where
  "sample_notification = Notification_default\<lparr>n_idempotencyKey := ''k1'', n_channel := Sms,
     n_priority := High, n_recipient := ''r'', n_body := ''b''\<rparr>"

definition sample_saved :: Notification where
  "sample_saved = sample_notification\<lparr>n_id := ''00000000-0000-4000-8000-000000000000''\<rparr>"

definition sample_db :: database where
  "sample_db = db_empty\<lparr>notifications := [inserted_row sample_saved 0],
     outbox_events := [inserted_event sample_saved 1], next_outbox_id := 2\<rparr>"

lemma uuid4_zero: "uuid4 zero_draws = ''00000000-0000-4000-8000-000000000000''"
  by (simp add: uuid4_eq zero_draws_def hex_char_def hex_digits_def upt_conv_Cons)

lemma sample_fits: "notification_fits (newRow sample_saved)"
  by (simp add: notification_fits_def newRow_def varchar_null_def varchar_def utf8_length_def
      sample_saved_def sample_notification_def Notification_default_def)

lemma newRow_id: "r_id (newRow n) = n_id n"
  by (simp add: newRow_def)

lemma sample_insert:
  "insertWithOutbox plain_env zero_draws sample_notification db_empty = (Inr sample_saved, sample_db)"
proof -
  have n: "sample_notification\<lparr>n_id := uuid4 zero_draws, n_status := Pending\<rparr> = sample_saved"
    by (simp add: uuid4_zero sample_saved_def sample_notification_def Notification_default_def)
  have "findByIdempotencyKey plain_env (n_idempotencyKey sample_notification) db_empty =
      (Inr None, db_empty)"
    by (subst findByIdempotencyKey_none) (simp_all add: db_empty_def select_by_key_def pop_fault_def)
  moreover have "startTransaction db_empty = (Inr db_empty, db_empty)"
    by (simp add: startTransaction_def query_no_fault db_empty_def pop_fault_def)
  ultimately show ?thesis
    unfolding insertWithOutbox_def insertTransaction_def Let_def n
    by (simp add: bindA_def seqA_def catchA_def execute_no_fault no_fault_def db_empty_def
        insert_notification_def sample_fits duplicates_def insert_outbox_def commit_def query_def
        pop_fault_def newRow_id inserted_row_def inserted_event_def sample_db_def)
      (simp add: sample_saved_def)
qed

lemma schema_inv_sample: "schema_inv E sample_db"
  using enum_newRow [of sample_saved]
  by (simp add: schema_inv_def key_inv_def outbox_inv_def sample_db_def db_empty_def outbox_key_def
      outbox_of_def inserted_event_def inserted_row_def enum_row_def) (simp add: newRow_def)

section \<open>Properties\<close>

text \<open>C18: all or nothing, under every schedule of database failures: if
  \<open>insertWithOutbox\<close> throws, no table has changed; if it returns, either the idempotency key
  was taken, nothing has changed and the stored notification is returned, or exactly one
  notification row (status PENDING) and exactly one PENDING outbox event carrying its id have
  been added.\<close>

theorem insertWithOutbox_atomic:
  assumes "insertWithOutbox E u inn d = (r, d')"
  shows "case r of
      Inl e \<Rightarrow> same_tables d' d
    | Inr m \<Rightarrow>
        (same_tables d' d \<and> (\<exists>row. select_by_key E (n_idempotencyKey inn) d = Some row \<and>
                                  rowToNotification row = Inr m)) \<or>
        (select_by_key E (n_idempotencyKey inn) d = None \<and> n_id m = uuid4 u \<and>
         with_inserted m d d' \<and> rowToNotification (inserted_row m (db_now d)) =
           Inr (m\<lparr>n_attemptCount := 0, n_createdAt := 0, n_updatedAt := 0\<rparr>))"
  using assms
proof (cases rule: insertWithOutbox_cases)
  case (fresh m)
  then show ?thesis
    by (simp add: inserted_row_def rowToNotification_newRow)
qed simp_all

theorem insertWithOutbox_atomic_witness:
  "with_inserted sample_saved db_empty sample_db"
  using insertWithOutbox_atomic [OF sample_insert]
  by (simp add: select_by_key_def sample_db_def db_empty_def same_tables_def)

text \<open>C19: idempotent submission: after a successful submission, submitting any request
  with the same idempotency key (under the column's collation) changes no table and returns
  the notification stored first, its identifier included, whatever the second request
  contains.\<close>

theorem insertWithOutbox_idempotent:
  assumes "insertWithOutbox E u inn d = (Inr m, d')"
    and "same_key E (n_idempotencyKey again) (n_idempotencyKey inn)"
    and "n_attemptCount inn = 0" and "n_createdAt inn = 0" and "n_updatedAt inn = 0"
    and "no_fault d'"
  shows "insertWithOutbox E u' again d' = (Inr m, pop_fault d')"
proof -
  have keys: "select_by_key E (n_idempotencyKey again) e = select_by_key E (n_idempotencyKey inn) e"
    for e using assms(2) by (simp add: select_by_key_def same_key_def)
  have "\<exists>row. select_by_key E (n_idempotencyKey inn) d' = Some row \<and> rowToNotification row = Inr m"
    using assms(1)
  proof (cases rule: insertWithOutbox_cases)
    case (existing row m')
    then show ?thesis by (auto simp: select_by_key_def same_tables_def)
  next
    case (fresh m')
    then have "List.find (\<lambda>r. same_key E (r_idempotency_key r) (n_idempotencyKey inn))
        (notifications d @ [inserted_row m (db_now d)]) = Some (inserted_row m (db_now d))"
      by (intro find_append_new) (simp_all add: select_by_key_def inserted_row_def newRow_def)
    moreover have "rowToNotification (inserted_row m (db_now d)) = Inr m"
      using fresh assms(3-5) by (simp add: inserted_row_def rowToNotification_newRow)
    ultimately show ?thesis
      using fresh by (simp add: select_by_key_def with_inserted_def)
  qed simp
  then have "findByIdempotencyKey E (n_idempotencyKey again) d' = (Inr (Some m), pop_fault d')"
    using findByIdempotencyKey_some [OF assms(6)] keys by auto
  then show ?thesis by (simp add: insertWithOutbox_def bindA_def)
qed

theorem insertWithOutbox_idempotent_witness:
  "insertWithOutbox plain_env zero_draws (sample_notification\<lparr>n_body := ''other''\<rparr>) sample_db =
     (Inr sample_saved, sample_db)"
  using insertWithOutbox_idempotent
    [OF sample_insert, of "sample_notification\<lparr>n_body := ''other''\<rparr>" zero_draws]
  by (simp add: sample_notification_def Notification_default_def sample_db_def db_empty_def
      pop_fault_def no_fault_def)

text \<open>C35: a concurrent duplicate is stopped by the unique keys: if another thread inserted
  the same idempotency key (or the same id) after this thread's check, the transaction throws
  and leaves every table unchanged.\<close>

theorem insertTransaction_race:
  assumes "row \<in> set (notifications d)"
    and "same_key E (r_idempotency_key row) (n_idempotencyKey inn) \<or> same_key E (r_id row) (uuid4 u)"
  shows "\<exists>e d'. insertTransaction E u inn d = (Inl e, d') \<and> same_tables d' d"
proof -
  have dup: "duplicates E (newRow (inn\<lparr>n_id := uuid4 u, n_status := Pending\<rparr>)) (notifications d)"
    using assms by (auto simp: duplicates_def newRow_def)
  obtain r d' where r: "insertTransaction E u inn d = (r, d')"
    by (cases "insertTransaction E u inn d")
  with insertTransaction_outcome [OF r] dup show ?thesis by (auto simp: Let_def)
qed

theorem insertTransaction_race_witness:
  "\<exists>e d'. insertTransaction plain_env zero_draws sample_notification sample_db = (Inl e, d') \<and>
     same_tables d' sample_db"
  using insertTransaction_race [of "inserted_row sample_saved 0" sample_db plain_env
      sample_notification zero_draws]
  by (simp add: sample_db_def inserted_row_def newRow_def sample_saved_def)

text \<open>A page is the newest matching notifications: without an offset, \<open>list\<close> returns as
  many rows as match, up to the limit, each matching the filters, in descending order of
  creation, and no matching row it leaves out is newer than one it returns.\<close>

theorem list_notifications_newest:
  assumes "no_fault d" and "list_all enum_row (notifications d)" and "stable_scan E"
  shows "\<exists>rows rest ns.
    list_notifications E st ch limit 0 d = (Inr ns, pop_fault d) \<and> rowsToNotifications rows = Inr ns \<and>
    length ns = min limit (length (filter (row_matches st ch) (notifications d))) \<and>
    mset rows + mset rest = mset (filter (row_matches st ch) (notifications d)) \<and>
    sorted (map (\<lambda>r. - r_created_at r) rows) \<and>
    (\<forall>r\<in>set rows. \<forall>q\<in>set rest. r_created_at q \<le> r_created_at r)"
proof -
  let ?S = "sort_key (\<lambda>r. - r_created_at r) (filter (row_matches st ch) (scan_order E (notifications d)))"
  let ?rows = "take limit ?S" and ?rest = "drop limit ?S"
  have mS: "mset ?S = mset (filter (row_matches st ch) (notifications d))"
    using assms(3) by (simp add: stable_scan_def mset_filter)
  then have "set ?S \<subseteq> set (notifications d)"
    by (metis filter_is_subset set_mset_mset)
  then have "list_all enum_row ?rows"
    using assms(2) set_take_subset [of limit ?S] by (fastforce simp: list_all_iff)
  then obtain ns where ns: "rowsToNotifications ?rows = Inr ns" "length ns = length ?rows"
    using rowsToNotifications_total by blast
  have "list_notifications E st ch limit 0 d = (Inr ns, pop_fault d)"
    using ns(1) assms(1)
    by (simp add: list_notifications_def query_no_fault bindA_def select_list_eq)
  moreover have "length ns = min limit (length (filter (row_matches st ch) (notifications d)))"
    using ns(2) mS by (metis length_take min.commute size_mset)
  moreover have "mset ?rows + mset ?rest = mset (filter (row_matches st ch) (notifications d))"
    using mS by (metis append_take_drop_id mset_append)
  moreover have srt: "sorted (map (\<lambda>r. - r_created_at r) (?rows @ ?rest))"
    by simp
  then have "sorted (map (\<lambda>r. - r_created_at r) ?rows)"
    by (simp only: map_append sorted_append)
  moreover have "\<forall>r\<in>set ?rows. \<forall>q\<in>set ?rest. r_created_at q \<le> r_created_at r"
    using sorted_split_le [OF srt] by fastforce
  ultimately show ?thesis using ns(1) by blast
qed

theorem list_notifications_newest_witness:
  "\<exists>ns. list_notifications plain_env None None 50 0 sample_db = (Inr ns, sample_db) \<and> length ns = 1"
proof -
  have "list_all enum_row (notifications sample_db)"
    using schema_inv_sample [of plain_env] by (simp add: schema_inv_def key_inv_def)
  moreover have "stable_scan plain_env" by (simp add: stable_scan_def plain_env_def)
  moreover have "no_fault sample_db" "pop_fault sample_db = sample_db"
    by (simp_all add: sample_db_def db_empty_def no_fault_def pop_fault_def)
  moreover have "length (filter (row_matches None None) (notifications sample_db)) = 1"
    by (simp add: row_matches_def sample_db_def)
  ultimately show ?thesis
    using list_notifications_newest [of sample_db plain_env None None 50] by auto
qed

end
