(* ===== verification/DeliveryAttemptRepository.thy ===== *)
theory DeliveryAttemptRepository
  imports NotificationRepository
begin

text \<open>
  include/notification/DeliveryAttemptRepository.hpp and src/DeliveryAttemptRepository.cpp:
  the audit trail of delivery attempts, idempotent per (notification, attempt number).
\<close>

section \<open>Operations\<close>

definition attemptRow :: "DeliveryAttempt \<Rightarrow> attempt_row" where
  "attemptRow a =
     \<lparr>t_id = 0, t_notification_id = a_notificationId a, t_attempt_number = 0,
      t_channel = toString_Channel (a_channel a), t_status = toString_AttemptStatus (a_status a),
      t_provider_ref = a_providerRef a, t_error_message = a_errorMessage a\<rparr>"

definition record_attempt :: "db_env \<Rightarrow> DeliveryAttempt \<Rightarrow> (database, unit) act" where
  "record_attempt E attempt =
     execute (upsert_attempt E (a_attemptNumber attempt) (attemptRow attempt))"

definition attemptStatusFromString :: "string \<Rightarrow> AttemptStatus" where
  "attemptStatusFromString s =
     (if s = ''SUCCESS'' then Success
      else if s = ''TRANSIENT_FAILURE'' then TransientFailure
      else PermanentFailure)"

definition rowToAttempt :: "attempt_row \<Rightarrow> exn + DeliveryAttempt" where
  "rowToAttempt row =
     bindE (channelFromString (t_channel row)) (\<lambda>ch.
     Inr (DeliveryAttempt_default\<lparr>
       a_id := int (t_id row),
       a_notificationId := t_notification_id row,
       a_attemptNumber := to_int32 (int (t_attempt_number row)),
       a_channel := ch,
       a_status := attemptStatusFromString (t_status row),
       a_providerRef := t_provider_ref row,
       a_errorMessage := t_error_message row\<rparr>))"

fun rowsToAttempts :: "attempt_row list \<Rightarrow> exn + DeliveryAttempt list" where
  "rowsToAttempts [] = Inr []"
| "rowsToAttempts (row # rows) =
     bindE (rowToAttempt row) (\<lambda>a. bindE (rowsToAttempts rows) (\<lambda>as. Inr (a # as)))"

definition findByNotificationId :: "db_env \<Rightarrow> string \<Rightarrow> (database, DeliveryAttempt list) act" where
  "findByNotificationId E nid =
     bindA (query (select_attempts E nid)) (\<lambda>rows. liftE (rowsToAttempts rows))"

section \<open>Facts\<close>

lemma attemptStatusFromString_toString [simp]:
  "attemptStatusFromString (toString_AttemptStatus st) = st"
  by (cases st) (simp_all add: attemptStatusFromString_def)

lemma rowToAttempt_total: "enum_attempt row \<Longrightarrow> \<exists>a. rowToAttempt row = Inr a"
  by (auto simp: enum_attempt_def rowToAttempt_def)

lemma rowsToAttempts_total: "list_all enum_attempt rs \<Longrightarrow> \<exists>as. rowsToAttempts rs = Inr as"
  by (induction rs) (auto dest!: rowToAttempt_total)

lemma rowsToAttempts_set:
  "rowsToAttempts rs = Inr as \<Longrightarrow> set as = {a. \<exists>r\<in>set rs. rowToAttempt r = Inr a}"
  by (induction rs arbitrary: as) (force simp: bindE_eq_Inr)+

lemma record_Inr:
  assumes "record_attempt E a d = (Inr u, d')"
  shows "upsert_attempt E (a_attemptNumber a) (attemptRow a) (pop_fault d) = Inr (u, d')"
  using assms unfolding record_attempt_def
  by (cases rule: execute_cases [of "upsert_attempt E (a_attemptNumber a) (attemptRow a)" d]) auto

lemma record_Inl: "record_attempt E a d = (Inl e, d') \<Longrightarrow> d' = pop_fault d"
  unfolding record_attempt_def by (rule execute_error_tables)

lemma record_frame:
  assumes r: "record_attempt E a d = (r, d')"
  shows "notifications d' = notifications d \<and> outbox_events d' = outbox_events d \<and>
    db_faults d' = tl (db_faults d)"
proof (cases r)
  case (Inl e)
  with r show ?thesis using record_Inl [of E a d e d'] by simp
next
  case (Inr u)
  with r have "upsert_attempt E (a_attemptNumber a) (attemptRow a) (pop_fault d) = Inr (u, d')"
    using record_Inr [of E a d u d'] by simp
  from upsert_attempt_frame [OF this] show ?thesis by simp
qed

lemma record_preserves_key:
  assumes r: "record_attempt E a d = (r, d')" and inv: "key_inv E d"
  shows "key_inv E d'"
proof (cases r)
  case (Inl e)
  with r inv show ?thesis using record_Inl [of E a d e d'] by simp
next
  case (Inr u)
  with r have ups: "upsert_attempt E (a_attemptNumber a) (attemptRow a) (pop_fault d) = Inr (u, d')"
    using record_Inr [of E a d u d'] by simp
  show ?thesis
    by (rule key_inv_upsert_attempt [OF _ ups]) (simp_all add: inv attemptRow_def)
qed

lemma record_preserves_schema [preserves_intros]: "preserves (schema_inv E) (record_attempt E a)"
proof (rule preservesI)
  fix d r t assume inv: "schema_inv E d" and r: "record_attempt E a d = (r, t)"
  then have "outbox_inv t"
    using record_frame [OF r] by (simp add: schema_inv_def outbox_inv_def)
  moreover have "key_inv E t"
    using record_preserves_key [OF r] inv by (simp add: schema_inv_def)
  ultimately show "schema_inv E t" by (simp add: schema_inv_def)
qed

lemma findByNotificationId_state [simp]: "snd (findByNotificationId E nid d) = pop_fault d"
  by (cases rule: query_cases [of "select_attempts E nid" d])
    (simp_all add: findByNotificationId_def bindA_def)

lemma findByNotificationId_preserves [preserves_intros]:
  "preserves (schema_inv E) (findByNotificationId E nid)"
  by (simp add: preserves_def)

text \<open>The rows of one attempt: at most one, by the unique key.\<close>

definition attempts_at :: "db_env \<Rightarrow> string \<Rightarrow> nat \<Rightarrow> database \<Rightarrow> attempt_row list" where
  "attempts_at E nid k d =
     filter (\<lambda>b. same_key E (t_notification_id b) nid \<and> t_attempt_number b = k) (delivery_attempts d)"

lemma filter_distinct_key:
  assumes "distinct (map f xs)" shows "length (filter (\<lambda>x. f x = y) xs) \<le> 1"
  using assms
proof (induction xs)
  case (Cons x xs)
  show ?case
  proof (cases "f x = y")
    case True
    with Cons.prems have "filter (\<lambda>x. f x = y) xs = []"
      by (auto simp: filter_empty_conv image_iff)
    with True show ?thesis by simp
  qed (use Cons in auto)
qed simp

lemma attempts_at_key:
  "attempts_at E nid k d = filter (\<lambda>b. attempt_key E b = (collation E nid, k)) (delivery_attempts d)"
  by (auto simp: attempts_at_def attempt_key_def same_key_def intro: filter_cong)

lemma attempts_at_le: "key_inv E d \<Longrightarrow> length (attempts_at E nid k d) \<le> 1"
  unfolding attempts_at_key key_inv_def by (intro filter_distinct_key) simp

lemma upsert_present:
  assumes "upsert_attempt E k a d = Inr (u, d')"
  obtains b where "b \<in> set (delivery_attempts d')"
    "same_key E (t_notification_id b) (t_notification_id a)" "t_attempt_number b = nat k"
proof -
  let ?row = "a\<lparr>t_id := next_attempt_id d, t_attempt_number := nat k\<rparr>"
  show ?thesis
  proof (cases "\<exists>b\<in>set (delivery_attempts d). same_attempt E b ?row")
    case True
    then obtain b where b: "b \<in> set (delivery_attempts d)" "same_attempt E b ?row" by blast
    let ?b = "b\<lparr>t_status := t_status a, t_provider_ref := t_provider_ref a,
                t_error_message := t_error_message a\<rparr>"
    have "?b \<in> set (delivery_attempts d')"
      using assms True b by (force simp: upsert_attempt_def Let_def split: if_splits)
    with b(2) show ?thesis by (intro that [of ?b]) (simp_all add: same_attempt_def)
  next
    case False
    then have "?row \<in> set (delivery_attempts d')"
      using assms by (auto simp: upsert_attempt_def Let_def split: if_splits)
    then show ?thesis by (intro that [of ?row]) simp_all
  qed
qed

lemma record_attempts_at:
  assumes "record_attempt E a d = (Inr u, d')" and "key_inv E d"
  shows "\<exists>row. attempts_at E (a_notificationId a) (nat (a_attemptNumber a)) d' = [row] \<and>
    t_status row = toString_AttemptStatus (a_status a) \<and>
    t_provider_ref row = a_providerRef a \<and> t_error_message row = a_errorMessage a"
proof -
  let ?k = "nat (a_attemptNumber a)" and ?nid = "a_notificationId a"
  have ups: "upsert_attempt E (a_attemptNumber a) (attemptRow a) (pop_fault d) = Inr (u, d')"
    by (rule record_Inr [OF assms(1)])
  have "length (attempts_at E ?nid ?k d') \<le> 1"
    by (rule attempts_at_le) (rule record_preserves_key [OF assms])
  moreover have "attempts_at E ?nid ?k d' \<noteq> []"
  proof -
    obtain b where "b \<in> set (delivery_attempts d')" "same_key E (t_notification_id b) ?nid"
      "t_attempt_number b = ?k"
      using ups by (rule upsert_present) (simp_all add: attemptRow_def)
    then show ?thesis by (auto simp: attempts_at_def filter_empty_conv)
  qed
  moreover have "\<forall>row\<in>set (attempts_at E ?nid ?k d').
      t_status row = toString_AttemptStatus (a_status a) \<and>
      t_provider_ref row = a_providerRef a \<and> t_error_message row = a_errorMessage a"
    using ups by (auto simp: upsert_attempt_def attempts_at_def attemptRow_def Let_def
        same_attempt_def same_key_def split: if_splits)
  ultimately show ?thesis
    by (cases "attempts_at E ?nid ?k d'") auto
qed

lemma filter_map_other:
  "(\<And>x. P x \<Longrightarrow> P (f x)) \<Longrightarrow>
   filter (\<lambda>x. \<not> P x) (map (\<lambda>x. if P x then f x else x) xs) = filter (\<lambda>x. \<not> P x) xs"
  by (induction xs) simp_all

lemma upsert_others:
  assumes "upsert_attempt E k a d = Inr (u, d')"
    and "key = (collation E (t_notification_id a), nat k)"
  shows "filter (\<lambda>b. attempt_key E b \<noteq> key) (delivery_attempts d') =
    filter (\<lambda>b. attempt_key E b \<noteq> key) (delivery_attempts d)"
proof -
  let ?row = "a\<lparr>t_id := next_attempt_id d, t_attempt_number := nat k\<rparr>"
  let ?upd = "\<lambda>b. if same_attempt E b ?row
     then b\<lparr>t_status := t_status a, t_provider_ref := t_provider_ref a,
            t_error_message := t_error_message a\<rparr> else b"
  have key: "attempt_key E b = key \<longleftrightarrow> same_attempt E b ?row" for b
    by (auto simp: assms(2) attempt_key_def same_attempt_def same_key_def)
  have same: "same_attempt E (?upd b) ?row = same_attempt E b ?row" for b
    by (simp add: same_attempt_def)
  have "filter (\<lambda>b. \<not> same_attempt E b ?row) (map ?upd (delivery_attempts d)) =
      filter (\<lambda>b. \<not> same_attempt E b ?row) (delivery_attempts d)"
    by (rule filter_map_other) (simp add: same_attempt_def)
  moreover have "delivery_attempts d' = map ?upd (delivery_attempts d) \<or>
      delivery_attempts d' = delivery_attempts d @ [?row]"
    using assms(1) by (auto simp: upsert_attempt_def Let_def split: if_splits)
  ultimately show ?thesis unfolding key by (auto simp: same_attempt_def)
qed

lemma upsert_keys:
  assumes "upsert_attempt E k a d = Inr (u, d')"
    and "(collation E (t_notification_id a), nat k) \<in> attempt_key E ` set (delivery_attempts d)"
  shows "map (attempt_key E) (delivery_attempts d') = map (attempt_key E) (delivery_attempts d)"
proof -
  let ?row = "a\<lparr>t_id := next_attempt_id d, t_attempt_number := nat k\<rparr>"
  have "\<exists>b\<in>set (delivery_attempts d). same_attempt E b ?row"
    using assms(2) by (force simp: attempt_key_def same_attempt_def same_key_def)
  then show ?thesis
    using assms(1) by (auto simp: upsert_attempt_def Let_def attempt_key_def split: if_splits)
qed

lemma attempts_at_other:
  assumes "record_attempt E a d = (r, d')"
    and "(collation E nid, k) \<noteq> (collation E (a_notificationId a), nat (a_attemptNumber a))"
  shows "attempts_at E nid k d' = attempts_at E nid k d"
proof (cases r)
  case (Inl e)
  with assms(1) show ?thesis
    using record_Inl [of E a d e d'] by (simp add: attempts_at_def)
next
  case (Inr u)
  let ?key = "(collation E (a_notificationId a), nat (a_attemptNumber a))"
  have "upsert_attempt E (a_attemptNumber a) (attemptRow a) (pop_fault d) = Inr (u, d')"
    using assms(1) Inr by (simp add: record_Inr)
  from upsert_others [OF this refl]
  have f: "filter (\<lambda>b. attempt_key E b \<noteq> ?key) (delivery_attempts d') =
      filter (\<lambda>b. attempt_key E b \<noteq> ?key) (delivery_attempts d)"
    by (simp add: attemptRow_def)
  have "filter (\<lambda>b. attempt_key E b = (collation E nid, k)) xs =
      filter (\<lambda>b. attempt_key E b = (collation E nid, k)) (filter (\<lambda>b. attempt_key E b \<noteq> ?key) xs)" for xs
    using assms(2) by (auto intro: filter_cong)
  with f show ?thesis unfolding attempts_at_key by metis
qed

text \<open>
  C36. Recording an attempt is idempotent per (notification, attempt number): when the same
  attempt is recorded again, as a redelivered message does, the table keeps exactly the rows
  it had (same keys in the same order), exactly one of them for this attempt, and that one
  carries the outcome of the second call; every other attempt is untouched.
\<close>

theorem record_attempt_idempotent:
  assumes "key_inv E d"
    and "record_attempt E a d = (Inr u, d1)" and "record_attempt E b d1 = (Inr v, d2)"
    and "a_notificationId b = a_notificationId a" and "a_attemptNumber b = a_attemptNumber a"
  shows "map (attempt_key E) (delivery_attempts d2) = map (attempt_key E) (delivery_attempts d1) \<and>
    (\<exists>row. attempts_at E (a_notificationId b) (nat (a_attemptNumber b)) d2 = [row] \<and>
       t_status row = toString_AttemptStatus (a_status b) \<and>
       t_provider_ref row = a_providerRef b \<and> t_error_message row = a_errorMessage b) \<and>
    (\<forall>nid k. (collation E nid, k) \<noteq> (collation E (a_notificationId b), nat (a_attemptNumber b)) \<longrightarrow>
       attempts_at E nid k d2 = attempts_at E nid k d)"
proof -
  have k1: "key_inv E d1" by (rule record_preserves_key [OF assms(2,1)])
  obtain row where "attempts_at E (a_notificationId a) (nat (a_attemptNumber a)) d1 = [row]"
    using record_attempts_at [OF assms(2,1)] by blast
  then have "row \<in> set (filter (\<lambda>r. attempt_key E r =
      (collation E (a_notificationId a), nat (a_attemptNumber a))) (delivery_attempts d1))"
    unfolding attempts_at_key by simp
  then have key: "(collation E (a_notificationId b), nat (a_attemptNumber b))
      \<in> attempt_key E ` set (delivery_attempts d1)"
    using assms(4,5) by force
  have "upsert_attempt E (a_attemptNumber b) (attemptRow b) (pop_fault d1) = Inr (v, d2)"
    by (rule record_Inr [OF assms(3)])
  from upsert_keys [OF this] key
  have "map (attempt_key E) (delivery_attempts d2) = map (attempt_key E) (delivery_attempts d1)"
    by (simp add: attemptRow_def)
  moreover have "attempts_at E nid k d2 = attempts_at E nid k d"
    if "(collation E nid, k) \<noteq> (collation E (a_notificationId b), nat (a_attemptNumber b))" for nid k
    using attempts_at_other [OF assms(3) that] attempts_at_other [OF assms(2)] that assms(4,5) by simp
  ultimately show ?thesis
    using record_attempts_at [OF assms(3) k1] by blast
qed

definition sample_attempt :: "AttemptStatus \<Rightarrow> string option \<Rightarrow> DeliveryAttempt" where
  "sample_attempt st ref = DeliveryAttempt_default\<lparr>
     a_notificationId := n_id sample_saved, a_attemptNumber := 1, a_channel := Sms,
     a_status := st, a_providerRef := ref\<rparr>"

definition sample_attempt_row :: "AttemptStatus \<Rightarrow> string option \<Rightarrow> attempt_row" where
  "sample_attempt_row st ref = (attemptRow (sample_attempt st ref))\<lparr>t_id := 1, t_attempt_number := 1\<rparr>"

definition sample_attempt_db :: "nat \<Rightarrow> AttemptStatus \<Rightarrow> string option \<Rightarrow> database" where
  "sample_attempt_db k st ref = sample_db\<lparr>delivery_attempts := [sample_attempt_row st ref],
     next_attempt_id := k\<rparr>"

lemma record_sample:
  "varchar_null 255 ref \<Longrightarrow> record_attempt plain_env (sample_attempt st ref) sample_db =
     (Inr (), sample_attempt_db 2 st ref)"
  "varchar_null 255 ref \<Longrightarrow> record_attempt plain_env (sample_attempt st ref) (sample_attempt_db k st' ref') =
     (Inr (), sample_attempt_db (k + 1) st ref)"
  by (simp_all add: record_attempt_def execute_no_fault sample_attempt_db_def sample_db_def db_empty_def
      upsert_attempt_def pop_fault_def attemptRow_def sample_attempt_def sample_attempt_row_def
      DeliveryAttempt_default_def varchar_null_def uint32_max_def inserted_row_def same_key_def
      newRow_id plain_env_def same_attempt_def Let_def)

lemma record_attempt_idempotent_witness:
  "\<exists>row. attempts_at plain_env (n_id sample_saved) 1 (sample_attempt_db 3 Success (Some ''ref'')) = [row] \<and>
     t_status row = ''SUCCESS'' \<and> t_provider_ref row = Some ''ref''"
proof -
  have v: "varchar_null 255 None" "varchar_null 255 (Some ''ref'')"
    by (simp_all add: varchar_null_def varchar_def utf8_length_def)
  have "key_inv plain_env sample_db"
    using schema_inv_sample by (simp add: schema_inv_def)
  moreover have "record_attempt plain_env (sample_attempt Success (Some ''ref''))
      (sample_attempt_db 2 TransientFailure None) = (Inr (), sample_attempt_db 3 Success (Some ''ref''))"
    using record_sample(2) [OF v(2)] by simp
  ultimately show ?thesis
    using record_attempt_idempotent [OF _ record_sample(1) [OF v(1)]]
    by (fastforce simp: sample_attempt_def DeliveryAttempt_default_def)
qed

lemma rowsToAttempts_map: "rowsToAttempts rs = Inr as \<Longrightarrow> map Inr as = map rowToAttempt rs"
  by (induction rs arbitrary: as) (auto simp: bindE_eq_Inr)

lemma rowsToAttempts_numbers:
  "rowsToAttempts rs = Inr as \<Longrightarrow> \<forall>b\<in>set rs. t_attempt_number b < 2 ^ 31 \<Longrightarrow>
   map a_attemptNumber as = map (int \<circ> t_attempt_number) rs"
  by (induction rs arbitrary: as) (auto simp: bindE_eq_Inr rowToAttempt_def to_int32_id)

lemma select_attempts_distinct:
  assumes "key_inv E d" shows "distinct (map t_attempt_number (select_attempts E nid d))"
proof -
  let ?P = "\<lambda>a. same_key E (t_notification_id a) nid"
  have "distinct (map (attempt_key E) (filter ?P (delivery_attempts d)))"
    using assms by (simp add: key_inv_def distinct_map_filter)
  moreover have "map (attempt_key E) (filter ?P xs) =
      map (Pair (collation E nid)) (map t_attempt_number (filter ?P xs))" for xs
    by (induction xs) (simp_all add: attempt_key_def same_key_def)
  ultimately have "distinct (map t_attempt_number (filter ?P (delivery_attempts d)))"
    by (metis distinct_map)
  then show ?thesis
    by (simp add: select_attempts_def distinct_map inj_on_def)
qed

text \<open>
  The audit trail reads back in order: while the attempt numbers fit an int, reading a
  notification's attempts succeeds, changes no table, and returns one record per stored row,
  in strictly ascending attempt number, each the parsed form of its row.
\<close>

theorem findByNotificationId_ascending:
  assumes "key_inv E d" "no_fault d"
    and "\<forall>b\<in>set (select_attempts E nid d). t_attempt_number b < 2 ^ 31"
  shows "\<exists>as. findByNotificationId E nid d = (Inr as, pop_fault d) \<and>
    sorted (map a_attemptNumber as) \<and> distinct (map a_attemptNumber as) \<and>
    map Inr as = map rowToAttempt (select_attempts E nid d)"
proof -
  let ?rows = "select_attempts E nid d"
  have "list_all enum_attempt ?rows"
    using assms(1) by (auto simp: key_inv_def list_all_iff select_attempts_def)
  then obtain as where as: "rowsToAttempts ?rows = Inr as"
    using rowsToAttempts_total by blast
  have m: "map Inr as = map rowToAttempt ?rows" by (rule rowsToAttempts_map [OF as])
  have num: "map a_attemptNumber as = map (int \<circ> t_attempt_number) ?rows"
    by (rule rowsToAttempts_numbers [OF as assms(3)])
  have "sorted (map t_attempt_number ?rows)"
    by (simp add: select_attempts_def)
  then have "sorted (map a_attemptNumber as)"
    unfolding num by (simp add: sorted_map)
  moreover have "distinct (map a_attemptNumber as)"
    unfolding num using select_attempts_distinct [OF assms(1)] 
    by (simp add: distinct_map inj_on_def)
  moreover have "findByNotificationId E nid d = (Inr as, pop_fault d)"
    by (simp add: findByNotificationId_def bindA_def query_no_fault [OF assms(2)] as)
  ultimately show ?thesis using m by blast
qed

lemma findByNotificationId_ascending_witness:
  "\<exists>as. findByNotificationId plain_env (n_id sample_saved) (sample_attempt_db 3 Success (Some ''ref'')) =
       (Inr as, sample_attempt_db 3 Success (Some ''ref'')) \<and> length as = 1"
proof -
  let ?d = "sample_attempt_db 3 Success (Some ''ref'')"
  have sel: "select_attempts plain_env (n_id sample_saved) ?d = [sample_attempt_row Success (Some ''ref'')]"
    by (simp add: select_attempts_def sample_attempt_db_def sample_attempt_row_def attemptRow_def
        sample_attempt_def DeliveryAttempt_default_def)
  have pop: "pop_fault ?d = ?d"
    by (simp add: pop_fault_def sample_attempt_db_def sample_db_def db_empty_def)
  have nf: "no_fault ?d" by (simp add: sample_attempt_db_def sample_db_def db_empty_def)
  have sms: "''SMS'' \<in> range toString_Channel" by (rule range_eqI [of _ _ Sms]) simp
  have succ: "''SUCCESS'' \<in> range toString_AttemptStatus" by (rule range_eqI [of _ _ Success]) simp
  have key: "key_inv plain_env ?d"
    using schema_inv_sample [of plain_env]
    by (simp add: schema_inv_def key_inv_def sample_attempt_db_def enum_attempt_def sample_attempt_row_def
        attemptRow_def sample_db_def inserted_row_def newRow_id sample_attempt_def sms succ
        db_empty_def DeliveryAttempt_default_def)
  show ?thesis
    using findByNotificationId_ascending [OF key nf, of "n_id sample_saved"]
    by (fastforce simp: sel pop sample_attempt_row_def dest: arg_cong [where f = length])
qed

end
