(* ===== verification/Amqp.thy ===== *)
theory Amqp
  imports Prelude "HOL-Library.Word" "HOL-Library.AList"
begin

text \<open>
  The boundary to RabbitMQ. The AMQP client library and the broker are not part of the
  repository. What the program does to a channel is the list of the operations it issues,
  in order; what the broker makes of them is a parameter \<open>route\<close> with two documented laws:
  the default exchange delivers to the queue named by the routing key when it has been
  declared, and a topic exchange delivers to the queues bound with a pattern matching the
  key, which for patterns without wildcards means equality.
\<close>

section \<open>Operations on a channel\<close>

datatype table_value = TInt int | TString string

type_synonym amqp_table = "(string \<times> table_value) list"

text \<open>\<open>AMQP::Table::set\<close> replaces an existing field.\<close>

definition table_set :: "string \<Rightarrow> table_value \<Rightarrow> amqp_table \<Rightarrow> amqp_table" where
  "table_set k v t = AList.update k v t"

text \<open>\<open>AMQP::Envelope\<close>: the body and the properties the program sets.\<close>

record Envelope =
  env_body :: string
  env_persistent :: bool
  env_priority :: "8 word option"
  env_headers :: amqp_table

definition newEnvelope :: "string \<Rightarrow> Envelope" where
  "newEnvelope body = \<lparr>env_body = body, env_persistent = False, env_priority = None, env_headers = []\<rparr>"

datatype exchange_type = Topic

datatype amqp_op =
    DeclareExchange string exchange_type bool    \<comment> \<open>name, type, durable\<close>
  | DeclareQueue string bool amqp_table          \<comment> \<open>name, durable, arguments\<close>
  | BindQueue string string string               \<comment> \<open>exchange, queue, routing key\<close>
  | ConfirmSelect
  | SetQos nat
  | Consume string
  | Publish string string Envelope               \<comment> \<open>exchange, routing key, message\<close>
  | Ack nat                                      \<comment> \<open>delivery tag\<close>

fun is_Ack :: "amqp_op \<Rightarrow> bool" where
  "is_Ack (Ack tag) = True"
| "is_Ack _ = False"

fun is_Publish :: "amqp_op \<Rightarrow> bool" where
  "is_Publish (Publish x k e) = True"
| "is_Publish _ = False"

fun declared_queue :: "amqp_op \<Rightarrow> string option" where
  "declared_queue (DeclareQueue q d t) = Some q"
| "declared_queue _ = None"

definition declared_queues :: "amqp_op list \<Rightarrow> string list" where
  "declared_queues ops = List.map_filter declared_queue ops"

definition queue_args :: "amqp_op list \<Rightarrow> string \<Rightarrow> (string \<rightharpoonup> table_value) option" where
  "queue_args ops q =
     map_option (\<lambda>op. case op of DeclareQueue _ _ t \<Rightarrow> map_of t | _ \<Rightarrow> Map.empty)
       (List.find (\<lambda>op. declared_queue op = Some q) ops)"

section \<open>What the broker promises\<close>

text \<open>
  \<open>route decls exchange key\<close>: the queues a message published with this exchange and key
  is put into, after the operations \<open>decls\<close>. A message routed to no queue is discarded.
\<close>

type_synonym broker = "amqp_op list \<Rightarrow> string \<Rightarrow> string \<Rightarrow> string list"

definition default_exchange_law :: "broker \<Rightarrow> bool" where
  "default_exchange_law route \<longleftrightarrow>
     (\<forall>ops q. route ops '''' q = (if q \<in> set (declared_queues ops) then [q] else []))"

definition literal_pattern :: "string \<Rightarrow> bool" where
  "literal_pattern k \<longleftrightarrow> CHR ''*'' \<notin> set k \<and> CHR ''#'' \<notin> set k"

definition topic_exchange_law :: "broker \<Rightarrow> bool" where
  "topic_exchange_law route \<longleftrightarrow>
     (\<forall>ops x k. x \<noteq> '''' \<longrightarrow> DeclareExchange x Topic True \<in> set ops \<longrightarrow>
        (\<forall>q p. BindQueue x q p \<in> set ops \<longrightarrow> literal_pattern p) \<longrightarrow>
        distinct (route ops x k) \<and>
        set (route ops x k) = {q. q \<in> set (declared_queues ops) \<and> BindQueue x q k \<in> set ops})"

definition broker_laws :: "broker \<Rightarrow> bool" where
  "broker_laws route \<longleftrightarrow> default_exchange_law route \<and> topic_exchange_law route"

lemma route_default:
  "broker_laws route \<Longrightarrow> route ops '''' q = (if q \<in> set (declared_queues ops) then [q] else [])"
  by (simp add: broker_laws_def default_exchange_law_def)

lemma route_topic:
  assumes "broker_laws route" "x \<noteq> ''''" "DeclareExchange x Topic True \<in> set ops"
    and "\<And>q p. BindQueue x q p \<in> set ops \<Longrightarrow> literal_pattern p"
  shows "distinct (route ops x k)"
    and "set (route ops x k) = {q. q \<in> set (declared_queues ops) \<and> BindQueue x q k \<in> set ops}"
  using assms unfolding broker_laws_def topic_exchange_law_def by blast+

text \<open>A concrete broker with these laws, for witnesses.\<close>

definition bound_queue :: "string \<Rightarrow> string \<Rightarrow> amqp_op \<Rightarrow> string option" where
  "bound_queue x k op =
     (case op of BindQueue y q p \<Rightarrow> (if y = x \<and> p = k then Some q else None) | _ \<Rightarrow> None)"

definition simple_broker :: broker where
  "simple_broker ops x k =
     (if x = '''' then (if k \<in> set (declared_queues ops) then [k] else [])
      else remdups (filter (\<lambda>q. q \<in> set (declared_queues ops)) (List.map_filter (bound_queue x k) ops)))"

lemma set_bound_queues: "set (List.map_filter (bound_queue x k) ops) = {q. BindQueue x q k \<in> set ops}"
proof (induction ops)
  case (Cons op ops)
  then show ?case
    by (cases op) (auto simp: bound_queue_def List.map_filter_simps)
qed (simp add: List.map_filter_simps)

lemma broker_laws_simple: "broker_laws simple_broker"
  by (auto simp: broker_laws_def default_exchange_law_def topic_exchange_law_def simple_broker_def
      set_bound_queues)

section \<open>Facts\<close>

lemma declared_queues_simps [simp]:
  "declared_queues [] = []"
  "declared_queues (op # ops) =
     (case declared_queue op of None \<Rightarrow> declared_queues ops | Some q \<Rightarrow> q # declared_queues ops)"
  by (simp_all add: declared_queues_def List.map_filter_simps split: option.splits)

lemma declared_queues_append [simp]:
  "declared_queues (xs @ ys) = declared_queues xs @ declared_queues ys"
  by (induction xs) (simp_all split: option.splits)

lemma declared_queues_concat: "declared_queues (concat xss) = concat (map declared_queues xss)"
  by (induction xss) simp_all

end
