(* ===== verification/Json.thy ===== *)
theory Json
  imports Prelude "HOL-Library.Word" "HOL-Library.AList"
begin

text \<open>
  The JSON library (nlohmann/json) is not part of the repository, so it is a parameter of
  the model: a record of the operations the code calls, over an abstract type of JSON values.
  Every call that can throw returns a sum. \<open>json_laws\<close> collects the documented behaviour
  that properties rely on, as a hypothesis they name; the last section gives one concrete
  library that satisfies it, used by witnesses only.
\<close>

section \<open>The operations the code calls\<close>

record 'j json_lib =
  j_parse :: "string \<Rightarrow> exn + 'j"                        \<comment> \<open>json::parse\<close>
  j_read :: "string \<Rightarrow> exn + 'j"                         \<comment> \<open>operator>>, the text may go on\<close>
  j_dump :: "'j \<Rightarrow> exn + string"                         \<comment> \<open>dump\<close>
  j_str :: "string \<Rightarrow> 'j"                                \<comment> \<open>from std::string\<close>
  j_num :: "int \<Rightarrow> 'j"                                   \<comment> \<open>from an integer\<close>
  j_null :: 'j                                           \<comment> \<open>nullptr\<close>
  j_obj :: "(string \<times> 'j) list \<Rightarrow> 'j"                    \<comment> \<open>initialiser list of pairs\<close>
  j_arr :: "'j list \<Rightarrow> 'j"                               \<comment> \<open>array() and push_back\<close>
  j_set :: "'j \<Rightarrow> string \<Rightarrow> 'j \<Rightarrow> 'j"                     \<comment> \<open>operator[] = on an object\<close>
  j_at_str :: "'j \<Rightarrow> string \<Rightarrow> exn + string"              \<comment> \<open>at(k).get<std::string>()\<close>
  j_at_ints :: "'j \<Rightarrow> string \<Rightarrow> exn + int list"           \<comment> \<open>at(k).get<std::vector<int>>()\<close>
  j_contains :: "'j \<Rightarrow> string \<Rightarrow> bool"                   \<comment> \<open>contains(k)\<close>
  j_value_str :: "'j \<Rightarrow> string \<Rightarrow> string \<Rightarrow> exn + string" \<comment> \<open>value(k, std::string)\<close>
  j_value_int :: "'j \<Rightarrow> string \<Rightarrow> int \<Rightarrow> exn + int"       \<comment> \<open>value(k, int)\<close>
  j_value_u16 :: "'j \<Rightarrow> string \<Rightarrow> 16 word \<Rightarrow> exn + 16 word" \<comment> \<open>value(k, unsigned short)\<close>

section \<open>Documented behaviour relied on\<close>

definition int32_range :: "int \<Rightarrow> bool" where
  "int32_range n \<longleftrightarrow> - (2 ^ 31) \<le> n \<and> n < 2 ^ 31"

definition ascii :: "string \<Rightarrow> bool" where
  "ascii s \<longleftrightarrow> (\<forall>c\<in>set s. (of_char c :: nat) < 128)"

definition ascii_scalar :: "'j json_lib \<Rightarrow> 'j \<Rightarrow> bool" where
  "ascii_scalar J v \<longleftrightarrow> (\<exists>s. ascii s \<and> v = j_str J s) \<or> (\<exists>n. v = j_num J n)"

text \<open>
  Parsing what was dumped gives the value back; a flat object of ASCII strings and numbers
  can always be dumped; and the typed accessors find the fields an object was built from, or
  fall back to the default.
\<close>

definition law_parse_dump :: "'j json_lib \<Rightarrow> bool" where
  "law_parse_dump J \<longleftrightarrow> (\<forall>v s. j_dump J v = Inr s \<longrightarrow> j_parse J s = Inr v \<and> j_read J s = Inr v)"

definition law_dump_flat :: "'j json_lib \<Rightarrow> bool" where
  "law_dump_flat J \<longleftrightarrow>
     (\<forall>kvs. (\<forall>(k, v)\<in>set kvs. ascii k \<and> ascii_scalar J v) \<longrightarrow> (\<exists>s. j_dump J (j_obj J kvs) = Inr s))"

definition law_strings :: "'j json_lib \<Rightarrow> bool" where
  "law_strings J \<longleftrightarrow> (\<forall>kvs k s d. distinct (map fst kvs) \<longrightarrow>
     (map_of kvs k = Some (j_str J s) \<longrightarrow>
        j_at_str J (j_obj J kvs) k = Inr s \<and> j_value_str J (j_obj J kvs) k d = Inr s) \<and>
     (map_of kvs k = None \<longrightarrow> j_value_str J (j_obj J kvs) k d = Inr d))"

definition law_ints :: "'j json_lib \<Rightarrow> bool" where
  "law_ints J \<longleftrightarrow> (\<forall>kvs k n d. distinct (map fst kvs) \<longrightarrow>
     (map_of kvs k = Some (j_num J n) \<longrightarrow> int32_range n \<longrightarrow>
        j_value_int J (j_obj J kvs) k d = Inr n) \<and>
     (map_of kvs k = None \<longrightarrow> j_value_int J (j_obj J kvs) k d = Inr d))"

definition law_u16 :: "'j json_lib \<Rightarrow> bool" where
  "law_u16 J \<longleftrightarrow> (\<forall>kvs k n d. distinct (map fst kvs) \<longrightarrow>
     (map_of kvs k = Some (j_num J n) \<longrightarrow> j_value_u16 J (j_obj J kvs) k d = Inr (word_of_int n)) \<and>
     (map_of kvs k = None \<longrightarrow> j_value_u16 J (j_obj J kvs) k d = Inr d))"

definition law_arrays :: "'j json_lib \<Rightarrow> bool" where
  "law_arrays J \<longleftrightarrow> (\<forall>kvs k ns. distinct (map fst kvs) \<longrightarrow>
     (map_of kvs k = Some (j_arr J (map (j_num J) ns)) \<longrightarrow> list_all int32_range ns \<longrightarrow>
        j_contains J (j_obj J kvs) k \<and> j_at_ints J (j_obj J kvs) k = Inr ns) \<and>
     (map_of kvs k = None \<longrightarrow> \<not> j_contains J (j_obj J kvs) k))"

definition json_laws :: "'j json_lib \<Rightarrow> bool" where
  "json_laws J \<longleftrightarrow> law_parse_dump J \<and> law_dump_flat J \<and> law_strings J \<and> law_ints J \<and>
     law_u16 J \<and> law_arrays J"

lemma json_parse_dump: "json_laws J \<Longrightarrow> j_dump J v = Inr s \<Longrightarrow> j_parse J s = Inr v"
  by (simp add: json_laws_def law_parse_dump_def)

lemma json_dump_flat:
  "json_laws J \<Longrightarrow> (\<And>k v. (k, v) \<in> set kvs \<Longrightarrow> ascii k \<and> ascii_scalar J v) \<Longrightarrow>
   \<exists>s. j_dump J (j_obj J kvs) = Inr s"
  unfolding json_laws_def law_dump_flat_def by blast

lemma json_at_str:
  "json_laws J \<Longrightarrow> distinct (map fst kvs) \<Longrightarrow> map_of kvs k = Some (j_str J s) \<Longrightarrow>
   j_at_str J (j_obj J kvs) k = Inr s"
  by (simp add: json_laws_def law_strings_def)

lemma json_value_str:
  "json_laws J \<Longrightarrow> distinct (map fst kvs) \<Longrightarrow> map_of kvs k = Some (j_str J s) \<Longrightarrow>
   j_value_str J (j_obj J kvs) k d = Inr s"
  "json_laws J \<Longrightarrow> distinct (map fst kvs) \<Longrightarrow> map_of kvs k = None \<Longrightarrow>
   j_value_str J (j_obj J kvs) k d = Inr d"
  by (simp_all add: json_laws_def law_strings_def)

lemma json_value_int:
  "json_laws J \<Longrightarrow> distinct (map fst kvs) \<Longrightarrow> map_of kvs k = Some (j_num J n) \<Longrightarrow>
   int32_range n \<Longrightarrow> j_value_int J (j_obj J kvs) k d = Inr n"
  "json_laws J \<Longrightarrow> distinct (map fst kvs) \<Longrightarrow> map_of kvs k = None \<Longrightarrow>
   j_value_int J (j_obj J kvs) k d = Inr d"
  by (simp_all add: json_laws_def law_ints_def)

lemma json_value_u16:
  "json_laws J \<Longrightarrow> distinct (map fst kvs) \<Longrightarrow> map_of kvs k = Some (j_num J n) \<Longrightarrow>
   j_value_u16 J (j_obj J kvs) k d = Inr (word_of_int n)"
  "json_laws J \<Longrightarrow> distinct (map fst kvs) \<Longrightarrow> map_of kvs k = None \<Longrightarrow>
   j_value_u16 J (j_obj J kvs) k d = Inr d"
  by (simp_all add: json_laws_def law_u16_def)

lemma json_arrays:
  "json_laws J \<Longrightarrow> distinct (map fst kvs) \<Longrightarrow>
   map_of kvs k = Some (j_arr J (map (j_num J) ns)) \<Longrightarrow> list_all int32_range ns \<Longrightarrow>
   j_contains J (j_obj J kvs) k \<and> j_at_ints J (j_obj J kvs) k = Inr ns"
  "json_laws J \<Longrightarrow> distinct (map fst kvs) \<Longrightarrow> map_of kvs k = None \<Longrightarrow>
   \<not> j_contains J (j_obj J kvs) k"
  by (simp_all add: json_laws_def law_arrays_def)

section \<open>A concrete library for witnesses\<close>

text \<open>
  Values are their own serialised text: a tag character, then a scalar or a sequence of
  chunks, each prefixed by its length in unary. It is not the JSON syntax; it only shows
  that the laws can hold together.
\<close>

definition chunk :: "string \<Rightarrow> string" where
  "chunk s = replicate (length s) CHR ''1'' @ CHR ''0'' # s"

function chunks :: "string \<Rightarrow> string list" where
  "chunks [] = []"
| "chunks (c # x) =
     (let n = length (takeWhile (\<lambda>d. d = CHR ''1'') (c # x)); r = drop n x
      in take n r # chunks (drop n r))"
  by pat_completeness auto
termination
  by (relation "measure length") (auto simp: Let_def)

lemma takeWhile_chunk:
  "takeWhile (\<lambda>d. d = CHR ''1'') (chunk s @ x) = replicate (length s) CHR ''1''"
proof -
  have "takeWhile (\<lambda>d. d = CHR ''1'') (replicate n CHR ''1'' @ CHR ''0'' # y) = replicate n CHR ''1''"
    for n y by (induction n) simp_all
  then show ?thesis by (simp add: chunk_def)
qed

lemma chunks_chunk: "chunks (chunk s @ x) = s # chunks x"
proof -
  obtain c y where cy: "chunk s @ x = c # y"
    by (cases "chunk s @ x") (auto simp: chunk_def)
  have n: "length (takeWhile (\<lambda>d. d = CHR ''1'') (c # y)) = length s"
    using takeWhile_chunk [of s x] cy by simp
  have "drop (length s) y = drop (Suc (length s)) (chunk s @ x)"
    using cy by simp
  also have "\<dots> = s @ x" by (simp add: chunk_def)
  finally have "drop (length s) y = s @ x" .
  with n show ?thesis by (simp add: cy Let_def del: takeWhile.simps drop_drop)
qed

lemma chunks_concat: "chunks (concat (map chunk xs)) = xs"
  by (induction xs) (simp_all add: chunks_chunk)

lemma chunks_concat_map: "chunks (concat (map (\<lambda>x. chunk (f x)) xs)) = map f xs"
  by (induction xs) (simp_all add: chunks_chunk)

fun pairs :: "string list \<Rightarrow> (string \<times> string) list" where
  "pairs (k # v # r) = (k, v) # pairs r"
| "pairs _ = []"

definition unpairs :: "(string \<times> string) list \<Rightarrow> string list" where
  "unpairs kvs = concat (map (\<lambda>(k, v). [k, v]) kvs)"

lemma pairs_unpairs: "pairs (unpairs kvs) = kvs"
  by (induction kvs) (auto simp: unpairs_def)

definition text_int :: "string \<Rightarrow> int" where
  "text_int s = (case s of [] \<Rightarrow> 0
     | c # t \<Rightarrow> if c = CHR ''-'' then - int (decimal_value t) else int (decimal_value s))"

lemma text_int_to_string [simp]: "text_int (to_string n) = n"
proof (cases "n < 0")
  case True
  then show ?thesis by (simp add: to_string_def text_int_def)
next
  case False
  obtain c t where ct: "decimal (nat n) = c # t"
    by (cases "decimal (nat n)") (auto simp: decimal_nonempty)
  then have "c \<noteq> CHR ''-''" using minus_notin_decimal [of "nat n"] by auto
  with False ct show ?thesis
    using decimal_value_decimal [of "nat n"] by (simp add: to_string_def text_int_def)
qed

definition tagged :: "char \<Rightarrow> string \<Rightarrow> bool" where
  "tagged c v \<longleftrightarrow> v \<noteq> [] \<and> hd v = c"

definition chunk_parse :: "string \<Rightarrow> exn + string" where
  "chunk_parse s = (if s \<noteq> [] \<and> hd s \<in> set ''sinoa'' then Inr s
                    else Inl (JsonException ''parse error''))"

definition chunk_fields :: "string \<Rightarrow> (string \<times> string) list" where
  "chunk_fields v = (if tagged CHR ''o'' v then pairs (chunks (tl v)) else [])"

definition chunk_obj :: "(string \<times> string) list \<Rightarrow> string" where
  "chunk_obj kvs = CHR ''o'' # concat (map chunk (unpairs kvs))"

definition chunk_get :: "char \<Rightarrow> (string \<Rightarrow> 'a) \<Rightarrow> string \<Rightarrow> exn + 'a" where
  "chunk_get c f v = (if tagged c v then Inr (f (tl v)) else Inl (JsonException ''type error''))"

definition chunk_value :: "char \<Rightarrow> (string \<Rightarrow> 'a) \<Rightarrow> string \<Rightarrow> string \<Rightarrow> 'a \<Rightarrow> exn + 'a" where
  "chunk_value c f v k d =
     (if \<not> tagged CHR ''o'' v then Inl (JsonException ''type error'')
      else case map_of (chunk_fields v) k of None \<Rightarrow> Inr d | Some x \<Rightarrow> chunk_get c f x)"

definition chunk_at :: "char \<Rightarrow> (string \<Rightarrow> 'a) \<Rightarrow> string \<Rightarrow> string \<Rightarrow> exn + 'a" where
  "chunk_at c f v k =
     (case map_of (chunk_fields v) k of
        None \<Rightarrow> Inl (JsonException ''out of range'') | Some x \<Rightarrow> chunk_get c f x)"

definition chunk_json :: "string json_lib" where
  "chunk_json =
     \<lparr>j_parse = chunk_parse, j_read = chunk_parse, j_dump = chunk_parse,
      j_str = (\<lambda>s. CHR ''s'' # s), j_num = (\<lambda>n. CHR ''i'' # to_string n), j_null = ''n'',
      j_obj = chunk_obj, j_arr = (\<lambda>vs. CHR ''a'' # concat (map chunk vs)),
      j_set = (\<lambda>v k x. chunk_obj (AList.update k x (chunk_fields v))),
      j_at_str = chunk_at CHR ''s'' id,
      j_at_ints = chunk_at CHR ''a'' (\<lambda>v. map (text_int \<circ> tl) (chunks v)),
      j_contains = (\<lambda>v k. map_of (chunk_fields v) k \<noteq> None),
      j_value_str = chunk_value CHR ''s'' id,
      j_value_int = chunk_value CHR ''i'' text_int,
      j_value_u16 = chunk_value CHR ''i'' (\<lambda>v. word_of_int (text_int v))\<rparr>"

lemma tagged_Cons [simp]: "tagged c (d # x) \<longleftrightarrow> d = c"
  by (simp add: tagged_def)

lemma chunk_fields_obj [simp]: "chunk_fields (chunk_obj kvs) = kvs"
  by (simp add: chunk_fields_def chunk_obj_def tagged_def chunks_concat pairs_unpairs)

lemma tagged_obj [simp]: "tagged CHR ''o'' (chunk_obj kvs)"
  by (simp add: chunk_obj_def)

lemmas chunk_access = chunk_value_def chunk_at_def chunk_get_def

lemma json_laws_chunk_json: "json_laws chunk_json"
proof -
  have "law_parse_dump chunk_json"
    by (simp add: law_parse_dump_def chunk_json_def chunk_parse_def)
  moreover have "law_dump_flat chunk_json"
    by (simp add: law_dump_flat_def chunk_json_def chunk_parse_def chunk_obj_def)
  moreover have "law_strings chunk_json"
    by (simp add: law_strings_def chunk_json_def chunk_access)
  moreover have "law_ints chunk_json" "law_u16 chunk_json"
    by (simp_all add: law_ints_def law_u16_def chunk_json_def chunk_access)
  moreover have "law_arrays chunk_json"
    by (force simp: law_arrays_def chunk_json_def chunk_access chunks_concat_map comp_def
        map_of_eq_None_iff)
  ultimately show ?thesis by (simp add: json_laws_def)
qed

end
