(* ===== verification/Config.thy ===== *)
theory Config
  imports Json Models
begin

text \<open>
  include/notification/Config.hpp: the configuration record with its default member
  initialisers, and loading it from a JSON file. The file system is an argument:
  \<open>open_file path\<close> is the content of the file, or \<open>None\<close> when the stream does not open.
  \<open>httpPort\<close> is an \<open>unsigned short\<close>.
\<close>

record Config =
  dbHost :: string
  dbPort :: int
  dbUser :: string
  dbPassword :: string
  dbSchema :: string
  dbPoolSize :: int
  amqpHost :: string
  amqpPort :: int
  amqpUser :: string
  amqpPassword :: string
  amqpVhost :: string
  workersPerChannel :: int
  maxRetries :: int
  retryDelaysMs :: "int list"
  cbFailureThreshold :: int
  cbOpenDurationMs :: int
  httpAddress :: string
  httpPort :: "16 word"
  httpThreads :: int

definition Config_default :: Config where
  "Config_default =
     \<lparr>dbHost = ''127.0.0.1'', dbPort = 33060, dbUser = ''notification_app'',
      dbPassword = '''', dbSchema = ''notification_db'', dbPoolSize = 8,
      amqpHost = ''127.0.0.1'', amqpPort = 5672, amqpUser = ''guest'',
      amqpPassword = ''guest'', amqpVhost = ''/'',
      workersPerChannel = 4, maxRetries = 3, retryDelaysMs = [5000, 15000, 60000],
      cbFailureThreshold = 5, cbOpenDurationMs = 30000,
      httpAddress = ''0.0.0.0'', httpPort = 8080, httpThreads = 4\<rparr>"

definition loadFromFile ::
  "'j json_lib \<Rightarrow> (string \<Rightarrow> string option) \<Rightarrow> string \<Rightarrow> exn + Config" where
  "loadFromFile J open_file path =
     (case open_file path of
        None \<Rightarrow> Inl (RuntimeError (''could not open config file: '' @ path))
      | Some content \<Rightarrow>
          bindE (j_read J content) (\<lambda>j. let c = Config_default in
          bindE (j_value_str J j ''dbHost'' (dbHost c)) (\<lambda>v. let c = c\<lparr>dbHost := v\<rparr> in
          bindE (j_value_int J j ''dbPort'' (dbPort c)) (\<lambda>v. let c = c\<lparr>dbPort := v\<rparr> in
          bindE (j_value_str J j ''dbUser'' (dbUser c)) (\<lambda>v. let c = c\<lparr>dbUser := v\<rparr> in
          bindE (j_value_str J j ''dbPassword'' (dbPassword c)) (\<lambda>v. let c = c\<lparr>dbPassword := v\<rparr> in
          bindE (j_value_str J j ''dbSchema'' (dbSchema c)) (\<lambda>v. let c = c\<lparr>dbSchema := v\<rparr> in
          bindE (j_value_int J j ''dbPoolSize'' (dbPoolSize c)) (\<lambda>v. let c = c\<lparr>dbPoolSize := v\<rparr> in
          bindE (j_value_str J j ''amqpHost'' (amqpHost c)) (\<lambda>v. let c = c\<lparr>amqpHost := v\<rparr> in
          bindE (j_value_int J j ''amqpPort'' (amqpPort c)) (\<lambda>v. let c = c\<lparr>amqpPort := v\<rparr> in
          bindE (j_value_str J j ''amqpUser'' (amqpUser c)) (\<lambda>v. let c = c\<lparr>amqpUser := v\<rparr> in
          bindE (j_value_str J j ''amqpPassword'' (amqpPassword c)) (\<lambda>v. let c = c\<lparr>amqpPassword := v\<rparr> in
          bindE (j_value_str J j ''amqpVhost'' (amqpVhost c)) (\<lambda>v. let c = c\<lparr>amqpVhost := v\<rparr> in
          bindE (j_value_int J j ''workersPerChannel'' (workersPerChannel c)) (\<lambda>v. let c = c\<lparr>workersPerChannel := v\<rparr> in
          bindE (j_value_int J j ''maxRetries'' (maxRetries c)) (\<lambda>v. let c = c\<lparr>maxRetries := v\<rparr> in
          bindE (if j_contains J j ''retryDelaysMs'' then j_at_ints J j ''retryDelaysMs''
                 else Inr (retryDelaysMs c)) (\<lambda>v. let c = c\<lparr>retryDelaysMs := v\<rparr> in
          bindE (j_value_int J j ''cbFailureThreshold'' (cbFailureThreshold c)) (\<lambda>v. let c = c\<lparr>cbFailureThreshold := v\<rparr> in
          bindE (j_value_int J j ''cbOpenDurationMs'' (cbOpenDurationMs c)) (\<lambda>v. let c = c\<lparr>cbOpenDurationMs := v\<rparr> in
          bindE (j_value_str J j ''httpAddress'' (httpAddress c)) (\<lambda>v. let c = c\<lparr>httpAddress := v\<rparr> in
          bindE (j_value_u16 J j ''httpPort'' (httpPort c)) (\<lambda>v. let c = c\<lparr>httpPort := v\<rparr> in
          bindE (j_value_int J j ''httpThreads'' (httpThreads c)) (\<lambda>v. let c = c\<lparr>httpThreads := v\<rparr> in
          Inr c)))))))))))))))))))))"

section \<open>Documents that configure the service\<close>

text \<open>
  A document whose keys are configuration keys with values of the right kind, and the
  configuration it stands for: each key overrides its default.
\<close>

definition str_field :: "(string \<rightharpoonup> string) \<Rightarrow> string \<Rightarrow> string \<Rightarrow> string" where
  "str_field ss k d = (case ss k of None \<Rightarrow> d | Some v \<Rightarrow> v)"

definition int_field :: "(string \<rightharpoonup> int) \<Rightarrow> string \<Rightarrow> int \<Rightarrow> int" where
  "int_field is k d = (case is k of None \<Rightarrow> d | Some v \<Rightarrow> v)"

text \<open>The JSON object with the given string, integer and integer-array members.\<close>

definition config_doc ::
  "'j json_lib \<Rightarrow> (string \<times> string) list \<Rightarrow> (string \<times> int) list \<Rightarrow> (string \<times> int list) list \<Rightarrow> 'j"
where
  "config_doc J strs ints arrs =
     j_obj J (map (\<lambda>(k, v). (k, j_str J v)) strs @ map (\<lambda>(k, v). (k, j_num J v)) ints @
              map (\<lambda>(k, v). (k, j_arr J (map (j_num J) v))) arrs)"

definition config_of ::
  "(string \<rightharpoonup> string) \<Rightarrow> (string \<rightharpoonup> int) \<Rightarrow> (string \<rightharpoonup> int list) \<Rightarrow> Config" where
  "config_of ss is as =
     \<lparr>dbHost = str_field ss ''dbHost'' ''127.0.0.1'', dbPort = int_field is ''dbPort'' 33060,
      dbUser = str_field ss ''dbUser'' ''notification_app'',
      dbPassword = str_field ss ''dbPassword'' '''',
      dbSchema = str_field ss ''dbSchema'' ''notification_db'',
      dbPoolSize = int_field is ''dbPoolSize'' 8,
      amqpHost = str_field ss ''amqpHost'' ''127.0.0.1'', amqpPort = int_field is ''amqpPort'' 5672,
      amqpUser = str_field ss ''amqpUser'' ''guest'',
      amqpPassword = str_field ss ''amqpPassword'' ''guest'',
      amqpVhost = str_field ss ''amqpVhost'' ''/'',
      workersPerChannel = int_field is ''workersPerChannel'' 4,
      maxRetries = int_field is ''maxRetries'' 3,
      retryDelaysMs = (case as ''retryDelaysMs'' of None \<Rightarrow> [5000, 15000, 60000] | Some v \<Rightarrow> v),
      cbFailureThreshold = int_field is ''cbFailureThreshold'' 5,
      cbOpenDurationMs = int_field is ''cbOpenDurationMs'' 30000,
      httpAddress = str_field ss ''httpAddress'' ''0.0.0.0'',
      httpPort = word_of_int (int_field is ''httpPort'' 8080),
      httpThreads = int_field is ''httpThreads'' 4\<rparr>"

lemma map_of_mapped:
  "map_of (map (\<lambda>(k, v). (k, f v)) xs) k = map_option f (map_of xs k)"
  by (induction xs) auto

lemma map_fst_mapped: "map fst (map (\<lambda>(k, v). (k, f v)) xs) = map fst xs"
  by (induction xs) auto

definition string_keys :: "string set" where
  "string_keys = {''dbHost'', ''dbUser'', ''dbPassword'', ''dbSchema'', ''amqpHost'', ''amqpUser'',
                  ''amqpPassword'', ''amqpVhost'', ''httpAddress''}"

definition int_keys :: "string set" where
  "int_keys = {''dbPort'', ''dbPoolSize'', ''amqpPort'', ''workersPerChannel'', ''maxRetries'',
               ''cbFailureThreshold'', ''cbOpenDurationMs'', ''httpPort'', ''httpThreads''}"

definition array_keys :: "string set" where
  "array_keys = {''retryDelaysMs''}"

definition config_doc_ok ::
  "(string \<times> string) list \<Rightarrow> (string \<times> int) list \<Rightarrow> (string \<times> int list) list \<Rightarrow> bool" where
  "config_doc_ok strs ints arrs \<longleftrightarrow>
     distinct (map fst strs) \<and> distinct (map fst ints) \<and> distinct (map fst arrs) \<and>
     fst ` set strs \<subseteq> string_keys \<and> fst ` set ints \<subseteq> int_keys \<and> fst ` set arrs \<subseteq> array_keys \<and>
     (\<forall>(k, n)\<in>set ints. int32_range n) \<and> (\<forall>(k, ns)\<in>set arrs. list_all int32_range ns)"

lemma config_keys_disjoint:
  "string_keys \<inter> int_keys = {}" "string_keys \<inter> array_keys = {}" "int_keys \<inter> array_keys = {}"
  by (simp_all add: string_keys_def int_keys_def array_keys_def)

lemma map_of_outside: "fst ` set xs \<subseteq> A \<Longrightarrow> A \<inter> B = {} \<Longrightarrow> k \<in> B \<Longrightarrow> map_of xs k = None"
  by (auto simp: map_of_eq_None_iff)

lemma map_of_outside': "fst ` set xs \<subseteq> B \<Longrightarrow> A \<inter> B = {} \<Longrightarrow> k \<in> A \<Longrightarrow> map_of xs k = None"
  by (auto simp: map_of_eq_None_iff)

lemma config_doc_distinct:
  assumes "config_doc_ok strs ints arrs"
  shows "distinct (map fst (map (\<lambda>(k, v). (k, j_str J v)) strs @ map (\<lambda>(k, v). (k, j_num J v)) ints @
           map (\<lambda>(k, v). (k, j_arr J (map (j_num J) v))) arrs))"
proof -
  have "fst ` set strs \<inter> (fst ` set ints \<union> fst ` set arrs) = {}"
    "fst ` set ints \<inter> fst ` set arrs = {}"
    using assms config_keys_disjoint unfolding config_doc_ok_def by blast+
  moreover have "distinct (map fst strs)" "distinct (map fst ints)" "distinct (map fst arrs)"
    using assms by (simp_all add: config_doc_ok_def)
  ultimately have "distinct (map fst strs @ map fst ints @ map fst arrs)"
    by simp
  then show ?thesis by (simp only: map_append map_fst_mapped)
qed

lemma config_doc_str:
  assumes "json_laws J" "config_doc_ok strs ints arrs" "k \<in> string_keys"
  shows "j_value_str J (config_doc J strs ints arrs) k d = Inr (str_field (map_of strs) k d)"
proof -
  have out: "map_of ints k = None" "map_of arrs k = None"
    using assms(2,3) config_keys_disjoint
    by (auto simp: config_doc_ok_def intro: map_of_outside')
  show ?thesis
    using json_value_str [OF assms(1) config_doc_distinct [where J = J, OF assms(2)], where k = k] out
    by (cases "map_of strs k") (simp_all add: config_doc_def map_add_def map_of_mapped str_field_def)
qed

lemma config_doc_num:
  assumes "config_doc_ok strs ints arrs" "k \<in> int_keys"
  shows "map_of strs k = None" "map_of arrs k = None"
    and "map_of ints k = Some n \<Longrightarrow> int32_range n"
proof -
  show "map_of strs k = None" "map_of arrs k = None"
    using assms config_keys_disjoint
    by (auto simp: config_doc_ok_def intro: map_of_outside map_of_outside')
  show "map_of ints k = Some n \<Longrightarrow> int32_range n"
    using assms(1) by (auto simp: config_doc_ok_def dest!: map_of_SomeD)
qed

lemma config_doc_int:
  assumes "json_laws J" "config_doc_ok strs ints arrs" "k \<in> int_keys"
  shows "j_value_int J (config_doc J strs ints arrs) k d = Inr (int_field (map_of ints) k d)"
  using json_value_int [OF assms(1) config_doc_distinct [where J = J, OF assms(2)], where k = k]
    config_doc_num [OF assms(2,3)]
  by (cases "map_of ints k") (simp_all add: config_doc_def map_add_def map_of_mapped int_field_def)

lemma config_doc_u16:
  assumes "json_laws J" "config_doc_ok strs ints arrs" "k \<in> int_keys"
  shows "j_value_u16 J (config_doc J strs ints arrs) k (word_of_int d) =
           Inr (word_of_int (int_field (map_of ints) k d))"
  using json_value_u16 [OF assms(1) config_doc_distinct [where J = J, OF assms(2)], where k = k]
    config_doc_num [OF assms(2,3)]
  by (cases "map_of ints k") (simp_all add: config_doc_def map_add_def map_of_mapped int_field_def)

lemma config_doc_array:
  assumes "json_laws J" "config_doc_ok strs ints arrs"
  shows "(if j_contains J (config_doc J strs ints arrs) ''retryDelaysMs''
          then j_at_ints J (config_doc J strs ints arrs) ''retryDelaysMs'' else Inr d) =
         Inr (case map_of arrs ''retryDelaysMs'' of None \<Rightarrow> d | Some v \<Rightarrow> v)"
proof -
  have k: "''retryDelaysMs'' \<in> array_keys" by (simp add: array_keys_def)
  have out: "map_of strs ''retryDelaysMs'' = None" "map_of ints ''retryDelaysMs'' = None"
    using assms(2) k config_keys_disjoint
    by (auto simp: config_doc_ok_def intro: map_of_outside)
  show ?thesis
  proof (cases "map_of arrs ''retryDelaysMs''")
    case None
    with out json_arrays(2) [OF assms(1) config_doc_distinct [where J = J, OF assms(2)],
        where k = "''retryDelaysMs''"]
    show ?thesis by (simp add: config_doc_def map_add_def map_of_mapped)
  next
    case (Some ns)
    then have "list_all int32_range ns"
      using assms(2) by (auto simp: config_doc_ok_def dest!: map_of_SomeD)
    with Some out
      json_arrays(1) [OF assms(1) config_doc_distinct [where J = J, OF assms(2)],
        where k = "''retryDelaysMs''" and ns = ns]
    show ?thesis by (simp add: config_doc_def map_add_def map_of_mapped)
  qed
qed

section \<open>Properties\<close>

text \<open>C39: for a document whose members are configuration keys of the right kind,
  \<open>loadFromFile\<close> returns the configuration in which each member overrides its default and
  every absent key keeps it, the port reduced to 16 bits.\<close>

theorem loadFromFile_overrides:
  assumes "json_laws J" and "config_doc_ok strs ints arrs"
    and "open_file path = Some content" and "j_read J content = Inr (config_doc J strs ints arrs)"
  shows "loadFromFile J open_file path =
           Inr (config_of (map_of strs) (map_of ints) (map_of arrs))"
proof -
  note fields = config_doc_str [OF assms(1,2)] config_doc_int [OF assms(1,2)]
    config_doc_u16 [OF assms(1,2), of "''httpPort''" 8080, simplified]
    config_doc_array [OF assms(1,2)]
  show ?thesis
    unfolding loadFromFile_def Config_default_def config_of_def
    by (cases "map_of arrs ''retryDelaysMs''")
      (simp_all add: assms(3,4) fields Let_def string_keys_def int_keys_def)
qed

theorem loadFromFile_overrides_witness:
  "let doc = config_doc chunk_json [(''dbPassword'', ''change-me'')] [(''maxRetries'', 5)]
               [(''retryDelaysMs'', [1, 2, 3, 4, 5])]
   in loadFromFile chunk_json (\<lambda>p. Some doc) ''config/config.json'' =
        Inr (Config_default\<lparr>dbPassword := ''change-me'', maxRetries := 5,
                            retryDelaysMs := [1, 2, 3, 4, 5]\<rparr>)"
proof -
  let ?doc = "config_doc chunk_json [(''dbPassword'', ''change-me'')] [(''maxRetries'', 5)]
               [(''retryDelaysMs'', [1, 2, 3, 4, 5])]"
  have "config_doc_ok [(''dbPassword'', ''change-me'')] [(''maxRetries'', 5)]
      [(''retryDelaysMs'', [1, 2, 3, 4, 5])]"
    by (simp add: config_doc_ok_def string_keys_def int_keys_def array_keys_def int32_range_def)
  moreover have "j_read chunk_json ?doc = Inr ?doc"
    by (simp add: chunk_json_def chunk_parse_def config_doc_def chunk_obj_def)
  ultimately show ?thesis
    using loadFromFile_overrides [OF json_laws_chunk_json, of _ _ _ "\<lambda>p. Some ?doc"
        "''config/config.json''" ?doc]
    by (simp add: config_of_def Config_default_def str_field_def int_field_def Let_def)
qed

text \<open>The error branch: a file that does not open.\<close>

lemma loadFromFile_missing:
  "open_file path = None \<Longrightarrow>
   loadFromFile J open_file path = Inl (RuntimeError (''could not open config file: '' @ path))"
  by (simp add: loadFromFile_def)

end
