(* ===== verification/RabbitMQTopology.thy ===== *)
theory RabbitMQTopology
  imports Amqp Config Enums
begin

text \<open>
  include/notification/RabbitMQTopology.hpp and src/RabbitMQTopology.cpp: the names of the
  exchange, the routing keys and the queues, and the declaration of the retry ladder.
  \<open>declareAll\<close> is the list of operations it issues on the channel.
\<close>

section \<open>Names\<close>

definition exchangeName :: string where
  "exchangeName = ''notifications.exchange''"

fun routingKey :: "Channel \<Rightarrow> string" where
  "routingKey Email = ''notification.email''"
| "routingKey Sms = ''notification.sms''"
| "routingKey Push = ''notification.push''"

fun channelSlug :: "Channel \<Rightarrow> string" where
  "channelSlug Email = ''email''"
| "channelSlug Sms = ''sms''"
| "channelSlug Push = ''push''"

definition mainQueue :: "Channel \<Rightarrow> string" where
  "mainQueue c = ''q.'' @ channelSlug c"

definition retryQueue :: "Channel \<Rightarrow> int \<Rightarrow> string" where
  "retryQueue c attemptNumber = ''q.'' @ channelSlug c @ ''.retry.'' @ to_string attemptNumber"

definition dlq :: "Channel \<Rightarrow> string" where
  "dlq c = ''q.'' @ channelSlug c @ ''.dlq''"

section \<open>Declaration\<close>

definition declareRung :: "Config \<Rightarrow> Channel \<Rightarrow> nat \<Rightarrow> amqp_op list" where
  "declareRung config ch i =
     (let attemptNumber = int i + 1;
          retryArgs = table_set ''x-message-ttl'' (TInt (retryDelaysMs config ! i)) [];
          retryArgs = table_set ''x-dead-letter-exchange'' (TString exchangeName) retryArgs;
          retryArgs = table_set ''x-dead-letter-routing-key'' (TString (routingKey ch)) retryArgs
      in [DeclareQueue (retryQueue ch attemptNumber) True retryArgs])"

definition declareChannel :: "Config \<Rightarrow> Channel \<Rightarrow> amqp_op list" where
  "declareChannel config ch =
     (let mainArgs = table_set ''x-max-priority'' (TInt 5) []
      in [DeclareQueue (mainQueue ch) True mainArgs,
          BindQueue exchangeName (mainQueue ch) (routingKey ch)] @
         concat (map (declareRung config ch) [0..<length (retryDelaysMs config)]) @
         [DeclareQueue (dlq ch) True []])"

definition declareAll :: "Config \<Rightarrow> amqp_op list" where
  "declareAll config =
     DeclareExchange exchangeName Topic True # concat (map (declareChannel config) all_channels)"

section \<open>Facts\<close>

lemma routingKey_inj [simp]: "routingKey c = routingKey d \<longleftrightarrow> c = d"
  by (cases c; cases d) simp_all

lemma queue_names_distinct [simp]:
  "mainQueue c = mainQueue d \<longleftrightarrow> c = d"
  "dlq c = dlq d \<longleftrightarrow> c = d"
  "retryQueue c i = retryQueue d j \<longleftrightarrow> c = d \<and> i = j"
  "mainQueue c \<noteq> dlq d" "mainQueue c \<noteq> retryQueue d j" "dlq c \<noteq> retryQueue d j"
  "dlq d \<noteq> mainQueue c" "retryQueue d j \<noteq> mainQueue c" "retryQueue d j \<noteq> dlq c"
  by (cases c; cases d; simp add: mainQueue_def dlq_def retryQueue_def)+

definition channel_queues :: "Config \<Rightarrow> Channel \<Rightarrow> string list" where
  "channel_queues config ch =
     mainQueue ch # map (\<lambda>i. retryQueue ch (int i + 1)) [0..<length (retryDelaysMs config)] @ [dlq ch]"

lemma declared_rungs:
  "declared_queues (concat (map (declareRung config ch) is)) = map (\<lambda>i. retryQueue ch (int i + 1)) is"
  by (induction "is") (simp_all add: declareRung_def Let_def)

lemma declared_channel: "declared_queues (declareChannel config ch) = channel_queues config ch"
  by (simp add: declareChannel_def Let_def channel_queues_def declared_rungs)

lemma declared_all: "declared_queues (declareAll config) = concat (map (channel_queues config) all_channels)"
  by (simp add: declareAll_def declared_queues_concat comp_def declared_channel)

lemma set_channel_queues:
  "set (channel_queues config c) = {mainQueue c, dlq c} \<union>
     {q. \<exists>a. 1 \<le> a \<and> a \<le> int (length (retryDelaysMs config)) \<and> q = retryQueue c a}"
proof -
  have "(\<lambda>i. retryQueue c (int i + 1)) ` {0..<n} = {q. \<exists>a. 1 \<le> a \<and> a \<le> int n \<and> q = retryQueue c a}" for n
  proof (safe)
    fix a assume "1 \<le> a" "a \<le> int n"
    then show "retryQueue c a \<in> (\<lambda>i. retryQueue c (int i + 1)) ` {0..<n}"
      by (intro image_eqI [of _ _ "nat (a - 1)"]) auto
  qed fastforce
  then show ?thesis by (auto simp: channel_queues_def)
qed

lemma declared_queue_iff:
  "mainQueue c \<in> set (declared_queues (declareAll config))"
  "dlq c \<in> set (declared_queues (declareAll config))"
  "retryQueue c a \<in> set (declared_queues (declareAll config)) \<longleftrightarrow>
     1 \<le> a \<and> a \<le> int (length (retryDelaysMs config))"
  by (auto simp: declared_all set_channel_queues)

lemma distinct_channel_queues: "distinct (channel_queues config c)"
  by (auto simp: channel_queues_def distinct_map inj_on_def)

lemma binds_of_channel:
  "BindQueue x q k \<in> set (declareChannel config c) \<longleftrightarrow>
     x = exchangeName \<and> q = mainQueue c \<and> k = routingKey c"
  by (auto simp: declareChannel_def Let_def declareRung_def)

lemma binds_of_all:
  "BindQueue x q k \<in> set (declareAll config) \<longleftrightarrow>
     (\<exists>c. x = exchangeName \<and> q = mainQueue c \<and> k = routingKey c)"
  by (auto simp: declareAll_def binds_of_channel)

lemma distinct_singleton_set:
  assumes "distinct xs" "set xs = {x}" shows "xs = [x]"
proof (cases xs)
  case Nil
  with assms(2) show ?thesis by simp
next
  case (Cons y ys)
  have "y = x" using assms(2) Cons by (metis list.set_intros(1) singletonD)
  moreover have "z = x" if "z \<in> set ys" for z
    using that assms(2) Cons by (metis list.set_intros(2) singletonD)
  moreover have "y \<notin> set ys" using assms(1) Cons by simp
  ultimately have "\<forall>z. z \<notin> set ys" by metis
  then have "ys = []" by (metis list.set_intros(1) neq_Nil_conv)
  with \<open>y = x\<close> Cons show ?thesis by simp
qed

lemma literal_routingKey: "literal_pattern (routingKey c)"
  by (cases c) (simp_all add: literal_pattern_def)

lemma route_main:
  assumes "broker_laws route"
  shows "route (declareAll config) exchangeName (routingKey c) = [mainQueue c]"
proof -
  have x: "exchangeName \<noteq> ''''" by (simp add: exchangeName_def)
  have ex: "DeclareExchange exchangeName Topic True \<in> set (declareAll config)"
    by (simp add: declareAll_def)
  have lit: "literal_pattern p" if "BindQueue exchangeName q p \<in> set (declareAll config)" for q p
    using that by (auto simp: binds_of_all literal_routingKey)
  have "set (route (declareAll config) exchangeName (routingKey c)) =
      {q. q \<in> set (declared_queues (declareAll config)) \<and>
          BindQueue exchangeName q (routingKey c) \<in> set (declareAll config)}"
    by (rule route_topic(2) [OF assms x ex lit])
  also have "\<dots> = {mainQueue c}"
    by (auto simp: binds_of_all declared_queue_iff)
  finally have "set (route (declareAll config) exchangeName (routingKey c)) = {mainQueue c}" .
  moreover have "distinct (route (declareAll config) exchangeName (routingKey c))"
    by (rule route_topic(1) [OF assms x ex lit])
  ultimately show ?thesis by (rule distinct_singleton_set [rotated])
qed

lemma channel_queues_disjoint:
  assumes "c \<noteq> d" shows "set (channel_queues config c) \<inter> set (channel_queues config d) = {}"
  using assms unfolding set_channel_queues by auto

lemma distinct_declared: "distinct (declared_queues (declareAll config))"
  using channel_queues_disjoint [of Email Sms config] channel_queues_disjoint [of Email Push config]
    channel_queues_disjoint [of Sms Push config]
  by (auto simp: declared_all all_channels_def distinct_channel_queues)

lemma declared_queue_mem: "DeclareQueue q dur t \<in> set ops \<Longrightarrow> q \<in> set (declared_queues ops)"
  by (induction ops) (auto split: option.splits)

lemma find_distinct_declared:
  "distinct (declared_queues ops) \<Longrightarrow> DeclareQueue q dur t \<in> set ops \<Longrightarrow>
   List.find (\<lambda>op. declared_queue op = Some q) ops = Some (DeclareQueue q dur t)"
proof (induction ops)
  case (Cons op ops)
  show ?case
  proof (cases "op = DeclareQueue q dur t")
    case False
    with Cons.prems have "DeclareQueue q dur t \<in> set ops" by simp
    with Cons declared_queue_mem [OF this] show ?thesis by (auto split: option.splits)
  qed simp
qed simp

lemma queue_args_declared:
  "DeclareQueue q dur t \<in> set (declareAll config) \<Longrightarrow>
   queue_args (declareAll config) q = Some (map_of t)"
  by (simp add: queue_args_def find_distinct_declared [OF distinct_declared])

lemma rung_declared:
  assumes "1 \<le> a" "a \<le> int (length (retryDelaysMs config))"
  shows "\<exists>t. DeclareQueue (retryQueue c a) True t \<in> set (declareAll config) \<and>
    map_of t = [''x-dead-letter-routing-key'' \<mapsto> TString (routingKey c),
                ''x-dead-letter-exchange'' \<mapsto> TString exchangeName,
                ''x-message-ttl'' \<mapsto> TInt (retryDelaysMs config ! nat (a - 1))]"
proof -
  define i where "i = nat (a - 1)"
  with assms have i: "i < length (retryDelaysMs config)" "a = int i + 1" by auto
  obtain t where t: "declareRung config c i = [DeclareQueue (retryQueue c a) True t]"
    and m: "map_of t = [''x-dead-letter-routing-key'' \<mapsto> TString (routingKey c),
      ''x-dead-letter-exchange'' \<mapsto> TString exchangeName,
      ''x-message-ttl'' \<mapsto> TInt (retryDelaysMs config ! i)]"
    by (auto simp: declareRung_def Let_def i(2) table_set_def update_conv')
  have "DeclareQueue (retryQueue c a) True t \<in> set (declareChannel config c)"
    using t i(1) by (force simp: declareChannel_def Let_def)
  then have "DeclareQueue (retryQueue c a) True t \<in> set (declareAll config)"
    by (auto simp: declareAll_def)
  with m show ?thesis unfolding i_def [symmetric] by blast
qed

text \<open>
  A rung of the ladder brings a message back: the queue a message expires from, the exchange
  and the key it is republished with.
\<close>

definition dead_letter_target :: "amqp_op list \<Rightarrow> string \<Rightarrow> (string \<times> string) option" where
  "dead_letter_target ops q =
     (case queue_args ops q of None \<Rightarrow> None
      | Some t \<Rightarrow> (case (t ''x-dead-letter-exchange'', t ''x-dead-letter-routing-key'') of
          (Some (TString x), Some (TString k)) \<Rightarrow> Some (x, k) | _ \<Rightarrow> None))"

definition message_ttl :: "amqp_op list \<Rightarrow> string \<Rightarrow> int option" where
  "message_ttl ops q =
     (case queue_args ops q of None \<Rightarrow> None
      | Some t \<Rightarrow> (case t ''x-message-ttl'' of Some (TInt n) \<Rightarrow> Some n | _ \<Rightarrow> None))"

lemma rung_args:
  assumes "1 \<le> a" "a \<le> int (length (retryDelaysMs config))"
  shows "message_ttl (declareAll config) (retryQueue c a) = Some (retryDelaysMs config ! nat (a - 1)) \<and>
    dead_letter_target (declareAll config) (retryQueue c a) = Some (exchangeName, routingKey c)"
proof -
  obtain t where "DeclareQueue (retryQueue c a) True t \<in> set (declareAll config)"
    and m: "map_of t = [''x-dead-letter-routing-key'' \<mapsto> TString (routingKey c),
                ''x-dead-letter-exchange'' \<mapsto> TString exchangeName,
                ''x-message-ttl'' \<mapsto> TInt (retryDelaysMs config ! nat (a - 1))]"
    using rung_declared [OF assms] by blast
  then have "queue_args (declareAll config) (retryQueue c a) = Some (map_of t)"
    by (simp add: queue_args_declared)
  with m show ?thesis by (simp add: message_ttl_def dead_letter_target_def)
qed

lemma declared_queue_find:
  "List.find (\<lambda>op. declared_queue op = Some q) ops \<noteq> None \<Longrightarrow> q \<in> set (declared_queues ops)"
  by (induction ops) (auto split: option.splits if_splits)

lemma plain_queues_declared:
  "DeclareQueue (mainQueue c) True [(''x-max-priority'', TInt 5)] \<in> set (declareAll config)"
  "DeclareQueue (dlq c) True [] \<in> set (declareAll config)"
  by (auto simp: declareAll_def declareChannel_def Let_def table_set_def)

lemma plain_queues_target:
  "dead_letter_target (declareAll config) (mainQueue c) = None"
  "dead_letter_target (declareAll config) (dlq c) = None"
  "message_ttl (declareAll config) (mainQueue c) = None"
  "message_ttl (declareAll config) (dlq c) = None"
  by (simp_all add: dead_letter_target_def message_ttl_def plain_queues_declared [THEN queue_args_declared])

section \<open>Properties\<close>

text \<open>The topology is well formed for every configuration: all declared queues have
  different names (so no queue is declared twice with different arguments), there are one
  main queue, one dead-letter queue and one queue per retry delay for each of the three
  channels, and main and dead-letter queues have no TTL and no dead-letter target.\<close>

theorem topology_well_formed:
  "distinct (declared_queues (declareAll config)) \<and>
   set (declared_queues (declareAll config)) =
     (\<Union>c. {mainQueue c, dlq c} \<union>
       {q. \<exists>a. 1 \<le> a \<and> a \<le> int (length (retryDelaysMs config)) \<and> q = retryQueue c a}) \<and>
   (\<forall>c. message_ttl (declareAll config) (mainQueue c) = None \<and>
        message_ttl (declareAll config) (dlq c) = None \<and>
        dead_letter_target (declareAll config) (mainQueue c) = None \<and>
        dead_letter_target (declareAll config) (dlq c) = None)"
proof -
  have "set (declared_queues (declareAll config)) = (\<Union>c. set (channel_queues config c))"
    by (simp add: declared_all)
  then show ?thesis
    using distinct_declared
    by (simp add: set_channel_queues plain_queues_target)
qed

text \<open>C34: every rung of the ladder leads back to the main queue of its own channel: a
  message parked in \<open>retryQueue c a\<close> waits the configured delay number \<open>a\<close>, and on
  expiry the broker republishes it to the exchange with the channel's routing key, which
  puts it into exactly one queue, the channel's main queue.\<close>

theorem retry_rung_returns:
  assumes "broker_laws route" "1 \<le> a" "a \<le> int (length (retryDelaysMs config))"
  shows "message_ttl (declareAll config) (retryQueue c a) = Some (retryDelaysMs config ! nat (a - 1)) \<and>
    dead_letter_target (declareAll config) (retryQueue c a) = Some (exchangeName, routingKey c) \<and>
    route (declareAll config) exchangeName (routingKey c) = [mainQueue c]"
  using rung_args [OF assms(2,3)] by (simp add: route_main [OF assms(1)])

theorem retry_rung_returns_witness:
  "message_ttl (declareAll Config_default) ''q.sms.retry.2'' = Some 15000 \<and>
   dead_letter_target (declareAll Config_default) ''q.sms.retry.2'' =
     Some (''notifications.exchange'', ''notification.sms'')"
proof -
  have "retryQueue Sms 2 = ''q.sms.retry.2''"
    by (simp add: retryQueue_def to_string_def decimal.simps digit_char_def char_of_def bit_0)
  then show ?thesis
    using retry_rung_returns [OF broker_laws_simple, of 2 Config_default Sms]
    by (simp add: Config_default_def exchangeName_def)
qed

text \<open>C33: a retry is parked exactly when the ladder has a rung for it: a message published to
  \<open>retryQueue c a\<close> through the default exchange lands in that queue alone when
  \<open>1 \<le> a \<le> length retryDelaysMs\<close>, and is discarded by the broker otherwise. The retries a
  worker may request, attempts 1 to \<open>maxRetries\<close>, are therefore all kept if and only if
  \<open>maxRetries\<close> does not exceed the number of configured delays.\<close>

theorem retries_lossless_iff:
  assumes "broker_laws route"
  shows "(\<forall>c a. 1 \<le> a \<and> a \<le> maxRetries config \<longrightarrow>
      route (declareAll config) '''' (retryQueue c a) = [retryQueue c a]) \<longleftrightarrow>
    maxRetries config \<le> int (length (retryDelaysMs config))"
proof -
  have r: "route (declareAll config) '''' (retryQueue c a) = [retryQueue c a] \<longleftrightarrow>
      1 \<le> a \<and> a \<le> int (length (retryDelaysMs config))" for c a
    by (simp add: route_default [OF assms] declared_queue_iff)
  show ?thesis
    unfolding r
  proof
    assume all: "\<forall>(c::Channel) a. 1 \<le> a \<and> a \<le> maxRetries config \<longrightarrow>
      1 \<le> a \<and> a \<le> int (length (retryDelaysMs config))"
    show "maxRetries config \<le> int (length (retryDelaysMs config))"
      using all [rule_format, of "maxRetries config"] by (cases "1 \<le> maxRetries config") auto
  qed auto
qed

theorem retries_lossless_iff_witness:
  "\<not> (\<forall>c a. 1 \<le> a \<and> a \<le> 4 \<longrightarrow>
      simple_broker (declareAll (Config_default\<lparr>maxRetries := 4\<rparr>)) '''' (retryQueue c a) = [retryQueue c a])"
  using retries_lossless_iff [OF broker_laws_simple, of "Config_default\<lparr>maxRetries := 4\<rparr>"]
  by (simp add: Config_default_def)

end
