(* ===== verification/RabbitMQPublisher.thy ===== *)
theory RabbitMQPublisher
  imports RabbitMQTopology
begin

text \<open>
  include/notification/RabbitMQPublisher.hpp and src/RabbitMQPublisher.cpp: a connection
  with one channel in publisher-confirm mode, driven by its own io_context thread. The
  operations issued on the channel are logged in \<open>pub_ops\<close>; the two sleeps have no effect on
  the state and are not modelled. No operation throws: what the broker answers (confirms,
  channel errors) reaches only the log.
\<close>

definition buildAmqpAddress :: "Config \<Rightarrow> string" where
  "buildAmqpAddress c =
     ''amqp://'' @ amqpUser c @ '':'' @ amqpPassword c @ ''@'' @ amqpHost c @ '':'' @
     to_string (amqpPort c) @ amqpVhost c"

record RabbitMQPublisher =
  pub_address :: string
  pub_ops :: "amqp_op list"
  pub_running :: bool
  pub_io_stopped :: bool
  pub_thread_joinable :: bool

definition newPublisher :: "Config \<Rightarrow> RabbitMQPublisher" where
  "newPublisher config =
     \<lparr>pub_address = buildAmqpAddress config, pub_ops = [ConfirmSelect], pub_running = True,
      pub_io_stopped = False, pub_thread_joinable = True\<rparr>"

definition destroyPublisher :: "RabbitMQPublisher \<Rightarrow> RabbitMQPublisher" where
  "destroyPublisher p =
     (let p = p\<lparr>pub_running := False\<rparr>; p = p\<lparr>pub_io_stopped := True\<rparr>
      in if pub_thread_joinable p then p\<lparr>pub_thread_joinable := False\<rparr> else p)"

definition declareTopologyBlocking :: "Config \<Rightarrow> RabbitMQPublisher \<Rightarrow> RabbitMQPublisher" where
  "declareTopologyBlocking config p = p\<lparr>pub_ops := pub_ops p @ declareAll config\<rparr>"

definition publishToExchange ::
  "string \<Rightarrow> string \<Rightarrow> string \<Rightarrow> 8 word \<Rightarrow> RabbitMQPublisher \<Rightarrow> RabbitMQPublisher" where
  "publishToExchange exchange key body priority p =
     (let envelope = newEnvelope body;
          envelope = envelope\<lparr>env_persistent := True\<rparr>;
          envelope = envelope\<lparr>env_priority := Some priority\<rparr>
      in p\<lparr>pub_ops := pub_ops p @ [Publish exchange key envelope]\<rparr>)"

definition publishToQueue ::
  "string \<Rightarrow> string \<Rightarrow> 8 word \<Rightarrow> amqp_table \<Rightarrow> RabbitMQPublisher \<Rightarrow> RabbitMQPublisher" where
  "publishToQueue queueName body priority headers p =
     (let envelope = newEnvelope body;
          envelope = envelope\<lparr>env_persistent := True\<rparr>;
          envelope = envelope\<lparr>env_priority := Some priority\<rparr>;
          envelope = envelope\<lparr>env_headers := headers\<rparr>
      in p\<lparr>pub_ops := pub_ops p @ [Publish '''' queueName envelope]\<rparr>)"

section \<open>Facts\<close>

text \<open>A persistent message with the given body and priority and no headers.\<close>

definition message :: "string \<Rightarrow> 8 word \<Rightarrow> Envelope" where
  "message body priority =
     \<lparr>env_body = body, env_persistent = True, env_priority = Some priority, env_headers = []\<rparr>"

lemma publishToExchange_ops [simp]:
  "pub_ops (publishToExchange x k body pr p) = pub_ops p @ [Publish x k (message body pr)]"
  by (simp add: publishToExchange_def Let_def newEnvelope_def message_def)

lemma publishToQueue_ops [simp]:
  "pub_ops (publishToQueue q body pr h p) =
     pub_ops p @ [Publish '''' q ((message body pr)\<lparr>env_headers := h\<rparr>)]"
  by (simp add: publishToQueue_def Let_def newEnvelope_def message_def)

end
