(* ===== verification/Worker.thy ===== *)
theory Worker
  imports ProviderRouter DeliveryAttemptRepository RabbitMQPublisher
begin

text \<open>
  include/notification/Worker.hpp and src/Worker.cpp: what a worker thread does with one
  message, and the lifecycle of the threads and of the pool. A worker reaches three parts of
  the world: the database, the router (shared by all workers) and its own AMQP channel, whose
  operations are logged. Only \<open>ProviderException\<close> is caught around the delivery; every other
  exception leaves the handler.
\<close>

section \<open>The world of a worker\<close>

record 'p world =
  w_db :: database
  w_router :: "'p ProviderRouter"
  w_ops :: "amqp_op list"

text \<open>
  What one invocation depends on: the database server, the JSON library, what the provider
  answers, and the two clock readings of the breaker.
\<close>

record ('j, 'p) worker_env =
  we_db :: db_env
  we_json :: "'j json_lib"
  we_provider :: "'p \<Rightarrow> Notification \<Rightarrow> exn + ProviderResult"
  we_t1 :: int
  we_t2 :: int

definition on_db :: "(database, 'a) act \<Rightarrow> ('p world, 'a) act" where
  "on_db m = zoomA w_db (\<lambda>d w. w\<lparr>w_db := d\<rparr>) m"

definition on_router :: "('p ProviderRouter, 'a) act \<Rightarrow> ('p world, 'a) act" where
  "on_router m = zoomA w_router (\<lambda>r w. w\<lparr>w_router := r\<rparr>) m"

definition emit :: "amqp_op \<Rightarrow> ('p world, unit) act" where
  "emit op = (\<lambda>w. (Inr (), w\<lparr>w_ops := w_ops w @ [op]\<rparr>))"

section \<open>Handling a message\<close>

text \<open>
  Decoding: \<open>notificationId\<close> is required, \<open>attemptNumber\<close> defaults to 1 and \<open>priority\<close> to
  3, cast to \<open>uint8_t\<close>.
\<close>

definition decode :: "'j json_lib \<Rightarrow> string \<Rightarrow> exn + (string \<times> int \<times> 8 word)" where
  "decode J body =
     bindE (j_parse J body) (\<lambda>j.
     bindE (j_at_str J j ''notificationId'') (\<lambda>notificationId.
     bindE (j_value_int J j ''attemptNumber'' 1) (\<lambda>attemptNumber.
     bindE (j_value_int J j ''priority'' 3) (\<lambda>priority.
     Inr (notificationId, attemptNumber, word_of_int priority)))))"

definition newAttempt :: "Channel \<Rightarrow> string \<Rightarrow> int \<Rightarrow> DeliveryAttempt" where
  "newAttempt ch notificationId attemptNumber =
     DeliveryAttempt_default\<lparr>a_notificationId := notificationId,
       a_attemptNumber := attemptNumber, a_channel := ch\<rparr>"

text \<open>The \<open>try\<close> block: send, record the success, mark SENT, count, acknowledge.\<close>

definition deliver ::
  "('j, 'p) worker_env \<Rightarrow> Channel \<Rightarrow> Notification \<Rightarrow> string \<Rightarrow> int \<Rightarrow> nat \<Rightarrow> ('p world, unit) act" where
  "deliver V ch n notificationId attemptNumber tag =
     (let attempt = newAttempt ch notificationId attemptNumber
      in bindA (on_router (router_send (we_provider V) (we_t1 V) (we_t2 V) n)) (\<lambda>result.
         let attempt = attempt\<lparr>a_status := Success, a_providerRef := Some (providerRef result)\<rparr>
         in seqA (on_db (record_attempt (we_db V) attempt))
            (seqA (on_db (markSent (we_db V) notificationId))
            (seqA (on_db (incrementAttemptCount (we_db V) notificationId))
                  (emit (Ack tag))))))"

text \<open>The message of a retry and its envelope.\<close>

definition retryBody :: "'j json_lib \<Rightarrow> string \<Rightarrow> int \<Rightarrow> 8 word \<Rightarrow> 'j" where
  "retryBody J notificationId attemptNumber priority =
     j_obj J [(''notificationId'', j_str J notificationId),
              (''attemptNumber'', j_num J (attemptNumber + 1)),
              (''priority'', j_num J (uint priority))]"

text \<open>The two branches of the handler and the handler itself, \<open>catch (const ProviderException&)\<close>.\<close>

definition schedule_retry ::
  "('j, 'p) worker_env \<Rightarrow> Channel \<Rightarrow> string \<Rightarrow> int \<Rightarrow> 8 word \<Rightarrow> exn \<Rightarrow> ('p world, unit) act" where
  "schedule_retry V ch notificationId attemptNumber priority ex =
     (let attempt = (newAttempt ch notificationId attemptNumber)
            \<lparr>a_status := TransientFailure, a_errorMessage := Some (what ex)\<rparr>
      in seqA (on_db (record_attempt (we_db V) attempt))
         (bindA (liftE (j_dump (we_json V) (retryBody (we_json V) notificationId attemptNumber priority)))
           (\<lambda>text. let envelope = newEnvelope text;
                       envelope = envelope\<lparr>env_persistent := True\<rparr>;
                       envelope = envelope\<lparr>env_priority := Some priority\<rparr>
                   in emit (Publish '''' (retryQueue ch attemptNumber) envelope))))"

definition dead_letter ::
  "('j, 'p) worker_env \<Rightarrow> Channel \<Rightarrow> string \<Rightarrow> int \<Rightarrow> string \<Rightarrow> exn \<Rightarrow> ('p world, unit) act" where
  "dead_letter V ch notificationId attemptNumber body ex =
     (let attempt = (newAttempt ch notificationId attemptNumber)
            \<lparr>a_status := (if isTransient ex then TransientFailure else PermanentFailure),
             a_errorMessage := Some (what ex)\<rparr>
      in seqA (on_db (record_attempt (we_db V) attempt))
         (let envelope = newEnvelope body; envelope = envelope\<lparr>env_persistent := True\<rparr>
          in seqA (emit (Publish '''' (dlq ch) envelope))
                  (on_db (markDeadLettered (we_db V) notificationId))))"

definition on_failure ::
  "('j, 'p) worker_env \<Rightarrow> Channel \<Rightarrow> Config \<Rightarrow> string \<Rightarrow> int \<Rightarrow> 8 word \<Rightarrow> string \<Rightarrow> nat \<Rightarrow> exn \<Rightarrow>
   ('p world, unit) act" where
  "on_failure V ch config notificationId attemptNumber priority body tag ex =
     seqA (on_db (incrementAttemptCount (we_db V) notificationId))
     (let exhausted = attemptNumber > maxRetries config
      in seqA (if isTransient ex \<and> \<not> exhausted
               then schedule_retry V ch notificationId attemptNumber priority ex
               else dead_letter V ch notificationId attemptNumber body ex)
           (emit (Ack tag)))"

definition onMessage ::
  "('j, 'p) worker_env \<Rightarrow> Channel \<Rightarrow> Config \<Rightarrow> string \<Rightarrow> nat \<Rightarrow> ('p world, unit) act" where
  "onMessage V ch config body tag =
     (case decode (we_json V) body of
        Inl ex \<Rightarrow> emit (Ack tag)
      | Inr (notificationId, attemptNumber, priority) \<Rightarrow>
          bindA (on_db (findById (we_db V) notificationId)) (\<lambda>maybeNotification.
            case maybeNotification of
              None \<Rightarrow> emit (Ack tag)
            | Some n \<Rightarrow>
                if n_status n = Cancelled \<or> n_status n = Sent then emit (Ack tag)
                else seqA (on_db (markProcessing (we_db V) notificationId))
                  (catchA (deliver V ch n notificationId attemptNumber tag)
                    (\<lambda>ex. if is_ProviderException ex
                          then on_failure V ch config notificationId attemptNumber priority body tag ex
                          else throwA ex))))"

section \<open>Threads and pool\<close>

text \<open>Worker.cpp has its own copy of the function that RabbitMQPublisher.cpp has too.\<close>

definition buildAmqpAddress_worker :: "Config \<Rightarrow> string" where
  "buildAmqpAddress_worker c =
     ''amqp://'' @ amqpUser c @ '':'' @ amqpPassword c @ ''@'' @ amqpHost c @ '':'' @
     to_string (amqpPort c) @ amqpVhost c"

text \<open>
  A worker thread: its copy of the configuration, the broker it has connected to, its flag, whether \<open>thread_\<close> is joinable, whether its io_context has been
  stopped (it is never restarted), and the operations issued on its channel. \<open>start\<close> on a
  thread that is still joinable would terminate the process (move assignment to a joinable
  \<open>std::thread\<close>), which is \<open>None\<close>.
\<close>

record WorkerThread =
  wt_channel :: Channel
  wt_config :: Config
  wt_address :: "string option"
  wt_running :: bool
  wt_joinable :: bool
  wt_io_stopped :: bool
  wt_ops :: "amqp_op list"

definition newWorkerThread :: "Config \<Rightarrow> Channel \<Rightarrow> WorkerThread" where
  "newWorkerThread config ch = \<lparr>wt_channel = ch, wt_config = config, wt_address = None,
     wt_running = False, wt_joinable = False, wt_io_stopped = False, wt_ops = []\<rparr>"

text \<open>\<open>run\<close> up to \<open>ioContext_.run()\<close>: a new connection, and the operations issued on its channel.\<close>

definition run :: "WorkerThread \<Rightarrow> WorkerThread" where
  "run w = w\<lparr>wt_address := Some (buildAmqpAddress_worker (wt_config w)), wt_ops := [SetQos 10, Consume (mainQueue (wt_channel w))]\<rparr>"

definition start :: "WorkerThread \<Rightarrow> WorkerThread option" where
  "start w =
     (let w = w\<lparr>wt_running := True\<rparr>
      in if wt_joinable w then None else Some (run (w\<lparr>wt_joinable := True\<rparr>)))"

definition stop :: "WorkerThread \<Rightarrow> WorkerThread" where
  "stop w =
     (if \<not> wt_running w then w
      else let w = w\<lparr>wt_running := False\<rparr>; w = w\<lparr>wt_io_stopped := True\<rparr>
           in if wt_joinable w then w\<lparr>wt_joinable := False\<rparr> else w)"

text \<open>Messages reach \<open>onMessage\<close> while the thread runs an io_context that is not stopped.\<close>

definition consuming :: "WorkerThread \<Rightarrow> string \<Rightarrow> bool" where
  "consuming w q \<longleftrightarrow> wt_running w \<and> wt_joinable w \<and> \<not> wt_io_stopped w \<and> Consume q \<in> set (wt_ops w)"

definition newWorkerPool :: "Config \<Rightarrow> MockProvider ProviderRouter \<times> WorkerThread list" where
  "newWorkerPool config =
     (newRouter (cbFailureThreshold config) (cbOpenDurationMs config),
      concat (map (\<lambda>ch. map (\<lambda>_. newWorkerThread config ch) [0..<nat (workersPerChannel config)]) all_channels))"

fun start_all :: "WorkerThread list \<Rightarrow> WorkerThread list option" where
  "start_all [] = Some []"
| "start_all (w # ws) =
     (case start w of None \<Rightarrow> None
      | Some w' \<Rightarrow> (case start_all ws of None \<Rightarrow> None | Some ws' \<Rightarrow> Some (w' # ws')))"

definition stop_all :: "WorkerThread list \<Rightarrow> WorkerThread list" where
  "stop_all ws = map stop ws"

text \<open>The destructors: the pool stops its threads and then destroys each, which stops it again.\<close>

definition destroyWorkerThread :: "WorkerThread \<Rightarrow> WorkerThread" where
  "destroyWorkerThread w = stop w"

definition destroyWorkerPool :: "WorkerThread list \<Rightarrow> WorkerThread list" where
  "destroyWorkerPool ws = map destroyWorkerThread (stop_all ws)"

section \<open>Running actions on parts of the world\<close>

lemma on_db_eq: "m (w_db w) = (r, d) \<Longrightarrow> on_db m w = (r, w\<lparr>w_db := d\<rparr>)"
  by (simp add: on_db_def zoomA_def)

lemma on_router_eq: "m (w_router w) = (r, rt) \<Longrightarrow> on_router m w = (r, w\<lparr>w_router := rt\<rparr>)"
  by (simp add: on_router_def zoomA_def)

lemma emit_eq: "emit op w = (Inr (), w\<lparr>w_ops := w_ops w @ [op]\<rparr>)"
  by (simp add: emit_def)

text \<open>
  \<open>emits P m\<close>: whatever the world, \<open>m\<close> only adds operations to the channel's log, and its
  outcome and the added operations satisfy \<open>P\<close>. The rules follow the structure of actions.
\<close>

definition emits :: "(exn + 'a \<Rightarrow> amqp_op list \<Rightarrow> bool) \<Rightarrow> ('p world, 'a) act \<Rightarrow> bool" where
  "emits P m \<longleftrightarrow> (\<forall>w r w'. m w = (r, w') \<longrightarrow> (\<exists>ops. w_ops w' = w_ops w @ ops \<and> P r ops))"

named_theorems emits_intros "operations added to the log"

lemma emitsD: "emits P m \<Longrightarrow> m w = (r, w') \<Longrightarrow> \<exists>ops. w_ops w' = w_ops w @ ops \<and> P r ops"
  by (simp add: emits_def)

lemma emits_weaken: "emits P m \<Longrightarrow> (\<And>r ops. P r ops \<Longrightarrow> Q r ops) \<Longrightarrow> emits Q m"
  unfolding emits_def by blast

lemma emits_on_db: "emits (\<lambda>r ops. ops = []) (on_db m)"
  by (auto simp: emits_def on_db_def zoomA_def split: prod.splits)

lemma emits_on_router: "emits (\<lambda>r ops. ops = []) (on_router m)"
  by (auto simp: emits_def on_router_def zoomA_def split: prod.splits)

lemma emits_emit: "emits (\<lambda>r ops. r = Inr () \<and> ops = [op]) (emit op)"
  by (simp add: emits_def emit_def)

lemma emits_throwA: "emits (\<lambda>r ops. r = Inl e \<and> ops = []) (throwA e)"
  by (simp add: emits_def)

lemma emits_liftE: "emits (\<lambda>r ops. ops = []) (liftE x)"
  by (simp add: emits_def)

text \<open>Silent steps first: they add nothing, so what follows decides.\<close>

lemma emits_bindA_silent:
  assumes "emits (\<lambda>r ops. ops = []) m" and "\<And>e. P (Inl e) []" and "\<And>x. emits P (f x)"
  shows "emits P (bindA m f)"
proof -
  have "\<exists>ops. w_ops w' = w_ops w @ ops \<and> P r ops" if b: "bindA m f w = (r, w')" for w r w'
  proof -
    obtain o1 w1 where m: "m w = (o1, w1)" by (cases "m w")
    then have w1: "w_ops w1 = w_ops w" using emitsD [OF assms(1)] by fastforce
    show ?thesis
    proof (cases o1)
      case (Inl e)
      with m b w1 assms(2) show ?thesis by (auto simp: bindA_def)
    next
      case (Inr x)
      with m b have "f x w1 = (r, w')" by (simp add: bindA_def)
      then show ?thesis using emitsD [OF assms(3)] w1 by fastforce
    qed
  qed
  then show ?thesis by (simp add: emits_def)
qed

lemma emits_bindA_liftE:
  assumes "\<And>e. P (Inl e) []" and "\<And>x. v = Inr x \<Longrightarrow> emits P (f x)"
  shows "emits P (bindA (liftE v) f)"
  using assms by (cases v) (auto simp: emits_def bindA_def)

lemma emits_seqA_silent:
  "emits (\<lambda>r ops. ops = []) m \<Longrightarrow> (\<And>e. P (Inl e) []) \<Longrightarrow> emits P n \<Longrightarrow> emits P (seqA m n)"
  unfolding seqA_def by (rule emits_bindA_silent)

lemma emits_seqA:
  assumes "emits P m" "emits Q n"
    and "\<And>e ops. P (Inl e) ops \<Longrightarrow> R (Inl e) ops"
    and "\<And>x ops r ops'. P (Inr x) ops \<Longrightarrow> Q r ops' \<Longrightarrow> R r (ops @ ops')"
  shows "emits R (seqA m n)"
proof -
  have "\<exists>ops. w_ops w' = w_ops w @ ops \<and> R r ops" if b: "seqA m n w = (r, w')" for w r w'
  proof -
    obtain o1 w1 where m: "m w = (o1, w1)" by (cases "m w")
    from emitsD [OF assms(1) this] obtain ops where
      ops: "w_ops w1 = w_ops w @ ops" "P o1 ops" by blast
    show ?thesis
    proof (cases o1)
      case (Inl e)
      with m b ops assms(3) show ?thesis by (auto simp: seqA_Inl)
    next
      case (Inr x)
      with m b have "n w1 = (r, w')" by (simp add: seqA_Inr)
      from emitsD [OF assms(2) this] obtain ops' where "w_ops w' = w_ops w1 @ ops'" "Q r ops'" by blast
      with ops Inr assms(4) show ?thesis by auto
    qed
  qed
  then show ?thesis by (simp add: emits_def)
qed

lemma emits_catchA:
  assumes "emits P m" and "\<And>e. emits Q (h e)"
    and "\<And>x ops. P (Inr x) ops \<Longrightarrow> Q (Inr x) ops" and "\<And>e ops. P (Inl e) ops \<Longrightarrow> ops = []"
  shows "emits Q (catchA m h)"
proof -
  have "\<exists>ops. w_ops w' = w_ops w @ ops \<and> Q r ops" if b: "catchA m h w = (r, w')" for w r w'
  proof -
    obtain o1 w1 where m: "m w = (o1, w1)" by (cases "m w")
    from emitsD [OF assms(1) this] obtain ops where
      ops: "w_ops w1 = w_ops w @ ops" "P o1 ops" by blast
    show ?thesis
    proof (cases o1)
      case (Inl e)
      with m b have "h e w1 = (r, w')" by (simp add: catchA_Inl)
      moreover have "w_ops w1 = w_ops w" using ops Inl assms(4) by auto
      ultimately show ?thesis using emitsD [OF assms(2)] by fastforce
    next
      case (Inr x)
      with m b ops assms(3) show ?thesis by (auto simp: catchA_Inr)
    qed
  qed
  then show ?thesis by (simp add: emits_def)
qed

section \<open>What a handler puts on the channel\<close>

text \<open>The message parked in the dead-letter queue: the original body, persistent, no priority.\<close>

definition dlq_message :: "string \<Rightarrow> Envelope" where
  "dlq_message body = \<lparr>env_body = body, env_persistent = True, env_priority = None, env_headers = []\<rparr>"

text \<open>
  \<open>outgoing\<close>: nothing; or the original message to the channel's dead-letter queue; or the
  message decoded from the body with the next attempt number, to the retry queue of this
  attempt, which is not beyond \<open>maxRetries\<close>.
\<close>

definition is_retry ::
  "'j json_lib \<Rightarrow> Channel \<Rightarrow> Config \<Rightarrow> string \<Rightarrow> int \<Rightarrow> 8 word \<Rightarrow> amqp_op \<Rightarrow> bool" where
  "is_retry J ch config nid a p op \<longleftrightarrow> a \<le> maxRetries config \<and>
     (\<exists>payload. j_dump J (retryBody J nid a p) = Inr payload \<and>
        op = Publish '''' (retryQueue ch a) (message payload p))"

definition outgoing :: "'j json_lib \<Rightarrow> Channel \<Rightarrow> Config \<Rightarrow> string \<Rightarrow> amqp_op list \<Rightarrow> bool" where
  "outgoing J ch config body pubs \<longleftrightarrow>
     pubs = [] \<or> pubs = [Publish '''' (dlq ch) (dlq_message body)] \<or>
     (\<exists>nid a p op. decode J body = Inr (nid, a, p) \<and> is_retry J ch config nid a p op \<and> pubs = [op])"

definition handled ::
  "'j json_lib \<Rightarrow> Channel \<Rightarrow> Config \<Rightarrow> string \<Rightarrow> nat \<Rightarrow> exn + unit \<Rightarrow> amqp_op list \<Rightarrow> bool" where
  "handled J ch config body tag r ops \<longleftrightarrow>
     (case r of Inl e \<Rightarrow> outgoing J ch config body ops
      | Inr u \<Rightarrow> \<exists>pubs. ops = pubs @ [Ack tag] \<and> outgoing J ch config body pubs)"

lemma handled_simps [simp]:
  "handled J ch config body tag (Inl e) []" "handled J ch config body tag (Inr ()) [Ack tag]"
  by (simp_all add: handled_def outgoing_def)

lemma emits_ack: "emits (handled J ch config body tag) (emit (Ack tag))"
  by (rule emits_weaken [OF emits_emit]) auto

lemma emits_retry:
  assumes "a \<le> maxRetries config" and "decode (we_json V) body = Inr (nid, a, p)"
  shows "emits (\<lambda>r ops. outgoing (we_json V) ch config body ops) (schedule_retry V ch nid a p ex)"
  unfolding schedule_retry_def Let_def
  by (intro emits_seqA_silent emits_bindA_liftE emits_on_db emits_weaken [OF emits_emit])
    (use assms in \<open>auto simp: outgoing_def is_retry_def newEnvelope_def message_def\<close>)

lemma emits_dead_letter:
  "emits (\<lambda>r ops. outgoing J ch config body ops) (dead_letter V ch nid a body ex)"
  unfolding dead_letter_def Let_def
  by (intro emits_seqA_silent emits_on_db emits_seqA [OF emits_emit emits_on_db])
    (auto simp: outgoing_def newEnvelope_def dlq_message_def)

lemma emits_on_failure:
  assumes "decode (we_json V) body = Inr (nid, a, p)"
  shows "emits (handled (we_json V) ch config body tag) (on_failure V ch config nid a p body tag ex)"
  unfolding on_failure_def Let_def
proof (rule emits_seqA_silent [OF emits_on_db])
  have "emits (\<lambda>r ops. outgoing (we_json V) ch config body ops)
      (if isTransient ex \<and> \<not> maxRetries config < a
       then schedule_retry V ch nid a p ex else dead_letter V ch nid a body ex)"
    by (simp add: emits_retry emits_dead_letter assms)
  then show "emits (handled (we_json V) ch config body tag)
      (seqA (if isTransient ex \<and> \<not> maxRetries config < a
             then schedule_retry V ch nid a p ex else dead_letter V ch nid a body ex)
        (emit (Ack tag)))"
    by (rule emits_seqA [OF _ emits_emit]) (auto simp: handled_def)
qed simp

lemma emits_deliver:
  "emits (\<lambda>r ops. case r of Inl e \<Rightarrow> ops = [] | Inr u \<Rightarrow> ops = [Ack tag]) (deliver V ch n nid a tag)"
  unfolding deliver_def Let_def
  by (intro emits_bindA_silent emits_seqA_silent emits_on_router emits_on_db
      emits_weaken [OF emits_emit]) auto

lemma emits_onMessage:
  "emits (handled (we_json V) ch config body tag) (onMessage V ch config body tag)"
proof (cases "decode (we_json V) body")
  case (Inl e)
  then show ?thesis by (simp add: onMessage_def emits_ack)
next
  case (Inr m)
  obtain nid a p where m: "m = (nid, a, p)" by (cases m)
  have c: "emits (handled (we_json V) ch config body tag)
      (catchA (deliver V ch n nid a tag)
        (\<lambda>ex. if is_ProviderException ex then on_failure V ch config nid a p body tag ex
              else throwA ex))" for n
    by (rule emits_catchA [OF emits_deliver])
      (use Inr m in \<open>auto simp: emits_on_failure intro: emits_weaken [OF emits_throwA] split: if_splits\<close>)
  show ?thesis
    using Inr m
    by (auto simp: onMessage_def emits_ack c intro!: emits_bindA_silent emits_seqA_silent emits_on_db
        split: option.splits)
qed

section \<open>Invariants of the world\<close>

definition world_inv :: "db_env \<Rightarrow> 'p world \<Rightarrow> bool" where
  "world_inv E w \<longleftrightarrow> schema_inv E (w_db w) \<and> router_inv (w_router w)"

lemma preserves_on_db:
  assumes "preserves P m" and "\<And>w d. Q w \<Longrightarrow> P (w_db w)" and "\<And>w d. Q w \<Longrightarrow> P d \<Longrightarrow> Q (w\<lparr>w_db := d\<rparr>)"
  shows "preserves Q (on_db m)"
  unfolding on_db_def by (rule preserves_zoomA [OF assms(1)]) (auto intro: assms)

lemma world_inv_on_db [preserves_intros]:
  "preserves (schema_inv E) m \<Longrightarrow> preserves (world_inv E) (on_db m)"
  by (erule preserves_on_db) (simp_all add: world_inv_def)

lemma world_inv_on_router [preserves_intros]:
  "preserves router_inv m \<Longrightarrow> preserves (world_inv E) (on_router m)"
  unfolding on_router_def by (erule preserves_zoomA) (simp_all add: world_inv_def)

lemma world_inv_emit [preserves_intros]: "preserves (world_inv E) (emit op)"
  by (simp add: preserves_def emit_def world_inv_def)

lemma world_inv_deliver [preserves_intros]:
  "we_db V = E \<Longrightarrow> preserves (world_inv E) (deliver V ch n nid a tag)"
  unfolding deliver_def Let_def by (simp, intro preserves_intros)

lemma world_inv_on_failure [preserves_intros]:
  "we_db V = E \<Longrightarrow> preserves (world_inv E) (on_failure V ch config nid a p body tag ex)"
  unfolding on_failure_def schedule_retry_def dead_letter_def Let_def
  by (simp only:, intro preserves_intros)

lemma world_inv_onMessage:
  "we_db V = E \<Longrightarrow> preserves (world_inv E) (onMessage V ch config body tag)"
proof (cases "decode (we_json V) body")
  case (Inr m)
  moreover assume "we_db V = E"
  ultimately show ?thesis
    by (cases m) (simp add: onMessage_def, intro preserves_intros, simp_all add: updates_preserve_schema)
qed (simp add: onMessage_def preserves_intros)

section \<open>Row transitions\<close>

text \<open>
  How one message may change a notification's row: identity and outbox-relevant columns
  never, the attempt counter only upwards, and the status only of the message's own
  notification, only away from a status other than SENT and CANCELLED, and only to
  PROCESSING, SENT or DEAD_LETTERED.
\<close>

definition row_step :: "db_env \<Rightarrow> string \<Rightarrow> notification_row \<Rightarrow> notification_row \<Rightarrow> bool" where
  "row_step E nid r r' \<longleftrightarrow>
     r_id r' = r_id r \<and> r_idempotency_key r' = r_idempotency_key r \<and> r_channel r' = r_channel r \<and>
     r_recipient r' = r_recipient r \<and> r_body r' = r_body r \<and>
     r_attempt_count r \<le> r_attempt_count r' \<and>
     (\<not> same_key E (r_id r) nid \<longrightarrow> r' = r) \<and>
     (r_status r' = r_status r \<or>
      r_status r \<notin> {''SENT'', ''CANCELLED''} \<and>
      r_status r' \<in> {''PROCESSING'', ''SENT'', ''DEAD_LETTERED''})"

lemma row_step_refl [simp]: "row_step E nid r r"
  by (simp add: row_step_def)

definition rows_step :: "db_env \<Rightarrow> string \<Rightarrow> database \<Rightarrow> database \<Rightarrow> bool" where
  "rows_step E nid d d' \<longleftrightarrow> list_all2 (row_step E nid) (notifications d) (notifications d')"

lemma rows_step_refl [simp]: "rows_step E nid d d"
  by (simp add: rows_step_def list_all2_refl)

lemma rows_step_same: "notifications d'' = notifications d' \<Longrightarrow> rows_step E nid d d' \<Longrightarrow> rows_step E nid d d''"
  by (simp add: rows_step_def)

lemma rows_step_rewrite:
  assumes "rows_step E nid d d'"
    and "\<And>r r'. r \<in> set (notifications d) \<Longrightarrow> same_key E (r_id r) nid \<Longrightarrow>
          row_step E nid r r' \<Longrightarrow> row_step E nid r (f r')"
  shows "rows_step E nid d (rewrite_rows E f nid d')"
proof -
  have "list_all2 (row_step E nid) xs (map (\<lambda>r. if same_key E (r_id r) nid then f r else r) ys)"
    if "list_all2 (row_step E nid) xs ys" "set xs \<subseteq> set (notifications d)" for xs ys
    using that
  proof (induction rule: list_all2_induct)
    case (Cons x xs y ys)
    then show ?case using assms(2) [of x y] by (auto simp: row_step_def same_key_def)
  qed simp
  then show ?thesis using assms(1) by (simp add: rows_step_def rewrite_rows_def)
qed

definition open_rows :: "db_env \<Rightarrow> string \<Rightarrow> database \<Rightarrow> bool" where
  "open_rows E nid d \<longleftrightarrow>
     (\<forall>r\<in>set (notifications d). same_key E (r_id r) nid \<longrightarrow> r_status r \<notin> {''SENT'', ''CANCELLED''})"

lemma update_rows_step:
  assumes "open_rows E nid d" "row_update E upd f"
    and "(\<exists>st\<in>{Processing, Sent, DeadLettered}. f = set_status st) \<or> f = bump_count"
  shows "preserves (rows_step E nid d) (upd nid)"
proof (rule preservesI)
  fix s r t assume s: "rows_step E nid d s" and r: "upd nid s = (r, t)"
  have "rows_step E nid d (pop_fault s)" using s by (simp add: rows_step_def)
  then have "rows_step E nid d (rewrite_rows E f nid (pop_fault s))"
    using assms(1,3)
    by (intro rows_step_rewrite) (auto simp: row_step_def open_rows_def set_status_def bump_count_def)
  moreover have "t = pop_fault s \<or> t = rewrite_rows E f nid (pop_fault s)"
    using row_update.upd_outcome [OF assms(2), of nid s] r by auto
  ultimately show "rows_step E nid d t" using \<open>rows_step E nid d (pop_fault s)\<close> by auto
qed

lemma record_rows_step: "preserves (rows_step E nid d) (record_attempt E a)"
  by (rule preservesI) (auto dest: record_frame intro: rows_step_same)

definition steps_world :: "db_env \<Rightarrow> string \<Rightarrow> database \<Rightarrow> 'p world \<Rightarrow> bool" where
  "steps_world E nid d w \<longleftrightarrow> rows_step E nid d (w_db w)"

lemma steps_on_db: "preserves (rows_step E nid d) m \<Longrightarrow> preserves (steps_world E nid d) (on_db m)"
  by (erule preserves_on_db) (simp_all add: steps_world_def)

lemma steps_on_router: "preserves (steps_world E nid d) (on_router m)"
  by (rule preservesI) (auto simp: steps_world_def on_router_def zoomA_def split: prod.splits)

lemma steps_emit: "preserves (steps_world E nid d) (emit op)"
  by (simp add: preserves_def emit_def steps_world_def)

lemma steps_updates:
  assumes "open_rows E nid d"
  shows "preserves (steps_world E nid d) (on_db (markProcessing E nid))"
    and "preserves (steps_world E nid d) (on_db (markSent E nid))"
    and "preserves (steps_world E nid d) (on_db (markDeadLettered E nid))"
    and "preserves (steps_world E nid d) (on_db (incrementAttemptCount E nid))"
    and "preserves (steps_world E nid d) (on_db (record_attempt E a))"
  by (intro steps_on_db update_rows_step [OF assms mp.row_update_axioms]
        update_rows_step [OF assms ms.row_update_axioms] update_rows_step [OF assms md.row_update_axioms]
        update_rows_step [OF assms ic.row_update_axioms] record_rows_step; simp)+

lemma steps_deliver:
  "we_db V = E \<Longrightarrow> open_rows E nid d \<Longrightarrow> preserves (steps_world E nid d) (deliver V ch n nid a tag)"
  unfolding deliver_def Let_def
  by (simp only:, intro preserves_intros steps_updates steps_on_router steps_emit)

lemma steps_on_failure:
  "we_db V = E \<Longrightarrow> open_rows E nid d \<Longrightarrow>
   preserves (steps_world E nid d) (on_failure V ch config nid a p body tag ex)"
  unfolding on_failure_def schedule_retry_def dead_letter_def Let_def
  by (simp only:, intro preserves_intros steps_updates steps_emit)

lemma findById_open:
  assumes "key_inv E d" "findById E nid d = (Inr (Some n), d')"
    and "n_status n \<noteq> Cancelled" "n_status n \<noteq> Sent"
  shows "open_rows E nid d"
proof -
  obtain row where row: "select_by_id E nid d = Some row" "rowToNotification row = Inr n"
    using findById_Some [OF assms(2)] by blast
  have st: "n_status n = statusFromString (r_status row)"
    using rowToNotification_fields [OF row(2)] by simp
  have "r = row" if "r \<in> set (notifications d)" "same_key E (r_id r) nid" for r
    using select_by_id_unique [OF assms(1) that] row(1) by simp
  moreover have "r_status row \<notin> {''SENT'', ''CANCELLED''}"
    using assms(3,4) st by (auto simp: statusFromString_def)
  ultimately show ?thesis by (auto simp: open_rows_def)
qed

text \<open>The handler after the notification has been found in a status that is to be delivered.\<close>

abbreviation process ::
  "('j, 'p) worker_env \<Rightarrow> Channel \<Rightarrow> Config \<Rightarrow> Notification \<Rightarrow> string \<Rightarrow> int \<Rightarrow> 8 word \<Rightarrow> string \<Rightarrow> nat \<Rightarrow>
   ('p world, unit) act" where
  "process V ch config n nid a p body tag \<equiv>
     seqA (on_db (markProcessing (we_db V) nid))
       (catchA (deliver V ch n nid a tag)
         (\<lambda>ex. if is_ProviderException ex then on_failure V ch config nid a p body tag ex else throwA ex))"

definition deliverable :: "Notification \<Rightarrow> bool" where
  "deliverable n \<longleftrightarrow> n_status n \<noteq> Cancelled \<and> n_status n \<noteq> Sent"

lemma onMessage_found:
  assumes "decode (we_json V) body = Inr (nid, a, p)"
    and "findById (we_db V) nid (w_db w) = (Inr (Some n), d1)" and "deliverable n"
  shows "onMessage V ch config body tag w = process V ch config n nid a p body tag (w\<lparr>w_db := d1\<rparr>)"
proof -
  have "on_db (findById (we_db V) nid) w = (Inr (Some n), w\<lparr>w_db := d1\<rparr>)"
    by (rule on_db_eq) (rule assms(2))
  with assms(1,3) show ?thesis by (simp add: onMessage_def bindA_def deliverable_def)
qed

lemma onMessage_not_found:
  assumes "decode (we_json V) body = Inr (nid, a, p)"
    and "findById (we_db V) nid (w_db w) = (o1, d1)" and "\<And>n. o1 = Inr (Some n) \<Longrightarrow> \<not> deliverable n"
  shows "snd (onMessage V ch config body tag w) =
    (case o1 of Inl e \<Rightarrow> w\<lparr>w_db := d1\<rparr> | Inr x \<Rightarrow> w\<lparr>w_db := d1, w_ops := w_ops w @ [Ack tag]\<rparr>)"
    and "fst (onMessage V ch config body tag w) = (case o1 of Inl e \<Rightarrow> Inl e | Inr x \<Rightarrow> Inr ())"
proof -
  have f: "on_db (findById (we_db V) nid) w = (o1, w\<lparr>w_db := d1\<rparr>)"
    by (rule on_db_eq) (rule assms(2))
  have "o1 = Inr (Some n) \<Longrightarrow> n_status n = Cancelled \<or> n_status n = Sent" for n
    using assms(3) by (auto simp: deliverable_def)
  then show "snd (onMessage V ch config body tag w) =
    (case o1 of Inl e \<Rightarrow> w\<lparr>w_db := d1\<rparr> | Inr x \<Rightarrow> w\<lparr>w_db := d1, w_ops := w_ops w @ [Ack tag]\<rparr>)"
    and "fst (onMessage V ch config body tag w) = (case o1 of Inl e \<Rightarrow> Inl e | Inr x \<Rightarrow> Inr ())"
    using f assms(1) by (auto simp: onMessage_def bindA_def emit_def split: sum.splits option.splits)
qed

lemma onMessage_steps:
  assumes "key_inv (we_db V) (w_db w)" and "decode (we_json V) body = Inr (nid, a, p)"
    and "onMessage V ch config body tag w = (r, w')"
  shows "rows_step (we_db V) nid (w_db w) (w_db w')"
proof -
  let ?E = "we_db V"
  obtain o1 d1 where f: "findById ?E nid (w_db w) = (o1, d1)" by (cases "findById ?E nid (w_db w)")
  then have d1: "d1 = pop_fault (w_db w)" using findById_state [of ?E nid "w_db w"] by simp
  then have s1: "steps_world ?E nid (w_db w) (w\<lparr>w_db := d1\<rparr>)"
    by (simp add: steps_world_def rows_step_def list_all2_refl)
  show ?thesis
  proof (cases "\<exists>n. o1 = Inr (Some n) \<and> deliverable n")
    case True
    then obtain n where n: "o1 = Inr (Some n)" "deliverable n" by blast
    then have op: "open_rows ?E nid (w_db w)"
      using findById_open [OF assms(1)] f unfolding deliverable_def by blast
    have pr: "preserves (steps_world ?E nid (w_db w)) (process V ch config n nid a p body tag)"
      by (intro preserves_intros steps_updates steps_deliver steps_on_failure op refl)
    have "process V ch config n nid a p body tag (w\<lparr>w_db := d1\<rparr>) = (r, w')"
      using onMessage_found [OF assms(2), of w n d1] f n assms(3) by simp
    from preservesD [OF pr s1 this] have "steps_world ?E nid (w_db w) w'" .
    then show ?thesis by (simp add: steps_world_def)
  next
    case False
    then have "w_db w' = d1"
      using onMessage_not_found(1) [OF assms(2) f, of ch config tag] assms(3) by (auto split: sum.splits)
    then show ?thesis using s1 by (simp add: steps_world_def)
  qed
qed

section \<open>Deliveries without database faults\<close>

text \<open>
  The functional theorems describe the outcome when no statement fails from outside; failing
  statements are covered by the theorems about acknowledgement and invariants.
\<close>

definition fault_free :: "database \<Rightarrow> bool" where
  "fault_free d \<longleftrightarrow> (\<forall>f\<in>set (db_faults d). f = None)"

lemma fault_free_no_fault: "fault_free d \<Longrightarrow> no_fault d"
  by (auto simp: fault_free_def no_fault_def split: list.splits option.splits)

lemma fault_free_tl: "fault_free d \<Longrightarrow> db_faults d' = tl (db_faults d) \<Longrightarrow> fault_free d'"
  by (cases "db_faults d") (auto simp: fault_free_def)

lemma fault_free_pop [simp]: "fault_free d \<Longrightarrow> fault_free (pop_fault d)"
  by (rule fault_free_tl) simp_all

lemma fault_free_rewrite [simp]: "fault_free (rewrite_rows E f i d) \<longleftrightarrow> fault_free d"
  by (simp add: fault_free_def rewrite_rows_def)

lemma record_returns:
  assumes "fault_free d" and "0 \<le> a_attemptNumber a" "a_attemptNumber a \<le> int uint32_max"
    and "varchar_null 255 (a_providerRef a)" "varchar_null 1024 (a_errorMessage a)"
    and "select_by_id E (a_notificationId a) d = Some row"
  shows "\<exists>d'. record_attempt E a d = (Inr (), d') \<and> fault_free d' \<and> notifications d' = notifications d"
proof -
  have ex: "\<exists>r\<in>set (notifications d). same_key E (r_id r) (a_notificationId a)"
    using select_by_id_SomeD [OF assms(6)] by blast
  have "\<exists>d'. upsert_attempt E (a_attemptNumber a) (attemptRow a) (pop_fault d) = Inr ((), d')"
    using assms(2-5) ex by (auto simp: upsert_attempt_def attemptRow_def Let_def)
  then obtain d' where "record_attempt E a d = (Inr (), d')"
    unfolding record_attempt_def execute_no_fault [OF fault_free_no_fault [OF assms(1)]] by auto
  with record_frame [OF this] fault_free_tl [OF assms(1)] show ?thesis by auto
qed

lemma select_by_id_same: "notifications d' = notifications d \<Longrightarrow> select_by_id E i d' = select_by_id E i d"
  by (simp add: select_by_id_def)

lemma increment_returns:
  assumes "fault_free d" "key_inv E d" "select_by_id E i d = Some row" "r_attempt_count row < uint32_max"
  shows "incrementAttemptCount E i d = (Inr (), rewrite_rows E bump_count i (pop_fault d))"
proof (rule increment_no_fault [OF fault_free_no_fault [OF assms(1)]])
  fix r assume "r \<in> set (notifications d)" "same_key E (r_id r) i"
  then have "r = row" using select_by_id_unique [OF assms(2)] assms(3) by fastforce
  then show "r_attempt_count r < uint32_max" using assms(4) by simp
qed

lemma attempts_at_rewrite [simp]:
  "attempts_at E nid k (rewrite_rows E f i d) = attempts_at E nid k d"
  "attempts_at E nid k (pop_fault d) = attempts_at E nid k d"
  by (simp_all add: attempts_at_def rewrite_rows_def)

lemma key_inv_schema: "schema_inv E d \<Longrightarrow> key_inv E d"
  by (simp add: schema_inv_def)

end
