(* ===== verification/WorkerProperties.thy ===== *)
theory WorkerProperties
  imports Worker
begin

text \<open>
  The functional behaviour of the worker's message handler: acknowledgement, the status
  machine, and the outcome of a delivery on each of its branches (success, retry,
  dead-lettering, nothing to do, malformed message).
\<close>

section \<open>Stages of a delivery\<close>

text \<open>The database after the status has been set to PROCESSING.\<close>

definition processing :: "db_env \<Rightarrow> string \<Rightarrow> database \<Rightarrow> database" where
  "processing E nid d = rewrite_rows E (set_status Processing) nid (pop_fault (pop_fault d))"

lemma processing_facts:
  assumes "schema_inv E d" "fault_free d" "select_by_id E nid d = Some row"
  shows "schema_inv E (processing E nid d)" "fault_free (processing E nid d)"
    "select_by_id E nid (processing E nid d) = Some (set_status Processing row)"
    "attempts_at E nid' k (processing E nid d) = attempts_at E nid' k d"
  using assms by (simp_all add: processing_def mp.schema_inv_rewrite mp.select_rewrite_same)

lemma onMessage_processing:
  assumes "fault_free (w_db w)" "decode (we_json V) body = Inr (nid, a, p)"
    and "select_by_id (we_db V) nid (w_db w) = Some row" "rowToNotification row = Inr n" "deliverable n"
  shows "onMessage V ch config body tag w =
    catchA (deliver V ch n nid a tag)
      (\<lambda>ex. if is_ProviderException ex then on_failure V ch config nid a p body tag ex else throwA ex)
      (w\<lparr>w_db := processing (we_db V) nid (w_db w)\<rparr>)"
proof -
  let ?E = "we_db V"
  let ?w = "w\<lparr>w_db := pop_fault (w_db w)\<rparr>"
  have "findById ?E nid (w_db w) = (Inr (Some n), pop_fault (w_db w))"
    using assms fault_free_no_fault by (intro findById_some) auto
  note f = onMessage_found [where V = V, OF assms(2) this assms(5)]
  have "markProcessing ?E nid (w_db ?w) = (Inr (), processing ?E nid (w_db w))"
    using mark_no_fault(1) [OF fault_free_no_fault, of "pop_fault (w_db w)" ?E nid] assms(1)
    by (simp add: processing_def)
  then have "on_db (markProcessing ?E nid) ?w = (Inr (), ?w\<lparr>w_db := processing ?E nid (w_db w)\<rparr>)"
    by (rule on_db_eq)
  then show ?thesis unfolding f by (simp add: seqA_Inr)
qed

text \<open>Recording the outcome of an attempt keeps the rows and leaves one record of it.\<close>

lemma recorded:
  assumes "schema_inv E d" "fault_free d" "select_by_id E nid d = Some row"
    and "0 \<le> a" "a \<le> int uint32_max" "varchar_null 255 ref" "varchar_null 1024 msg"
  obtains d' t where
    "record_attempt E ((newAttempt ch nid a)\<lparr>a_status := st, a_providerRef := ref, a_errorMessage := msg\<rparr>) d
       = (Inr (), d')"
    "schema_inv E d'" "fault_free d'" "notifications d' = notifications d"
    "attempts_at E nid (nat a) d' = [t]" "t_status t = toString_AttemptStatus st"
    "t_provider_ref t = ref" "t_error_message t = msg"
proof -
  let ?a = "(newAttempt ch nid a)\<lparr>a_status := st, a_providerRef := ref, a_errorMessage := msg\<rparr>"
  have s: "a_notificationId ?a = nid" "a_attemptNumber ?a = a" "a_status ?a = st"
    "a_providerRef ?a = ref" "a_errorMessage ?a = msg"
    by (simp_all add: newAttempt_def)
  obtain d' where d': "record_attempt E ?a d = (Inr (), d')" "fault_free d'" "notifications d' = notifications d"
    using record_returns [of d ?a E row] assms s by auto
  obtain t where "attempts_at E nid (nat a) d' = [t]" "t_status t = toString_AttemptStatus st"
    "t_provider_ref t = ref" "t_error_message t = msg"
    using record_attempts_at [OF d'(1) key_inv_schema [OF assms(1)]] unfolding s by blast
  moreover have "schema_inv E d'"
    by (rule preservesD [OF record_preserves_schema assms(1) d'(1)])
  ultimately show ?thesis using that d' by blast
qed

definition delivered_row :: "notification_row \<Rightarrow> notification_row" where
  "delivered_row row = row\<lparr>r_status := ''SENT'', r_attempt_count := r_attempt_count row + 1\<rparr>"

lemma deliver_succeeds:
  assumes "schema_inv (we_db V) (w_db w)" "fault_free (w_db w)"
    and "select_by_id (we_db V) nid (w_db w) = Some row" "r_attempt_count row < uint32_max"
    and "0 \<le> a" "a \<le> int uint32_max"
    and "router_send (we_provider V) (we_t1 V) (we_t2 V) n (w_router w) = (Inr res, rt)"
    and "varchar 255 (providerRef res)"
  obtains d t where
    "deliver V ch n nid a tag w = (Inr (), w\<lparr>w_db := d, w_router := rt, w_ops := w_ops w @ [Ack tag]\<rparr>)"
    "select_by_id (we_db V) nid d = Some (delivered_row row)"
    "attempts_at (we_db V) nid (nat a) d = [t]" "t_status t = ''SUCCESS''"
    "t_provider_ref t = Some (providerRef res)" "t_error_message t = None"
proof -
  let ?E = "we_db V"
  obtain d1 t where d1: "record_attempt ?E ((newAttempt ch nid a)\<lparr>a_status := Success,
        a_providerRef := Some (providerRef res), a_errorMessage := None\<rparr>) (w_db w) = (Inr (), d1)"
      "schema_inv ?E d1" "fault_free d1" "notifications d1 = notifications (w_db w)"
    and t: "attempts_at ?E nid (nat a) d1 = [t]" "t_status t = toString_AttemptStatus Success"
      "t_provider_ref t = Some (providerRef res)" "t_error_message t = None"
    by (rule recorded [OF assms(1-3,5,6), where ref = "Some (providerRef res)" and msg = None
          and ch = ch and st = Success])
      (use assms(8) in \<open>simp_all add: varchar_null_def\<close>)
  let ?d2 = "rewrite_rows ?E (set_status Sent) nid (pop_fault d1)"
  let ?d3 = "rewrite_rows ?E bump_count nid (pop_fault ?d2)"
  have at: "(newAttempt ch nid a)\<lparr>a_status := Success, a_providerRef := Some (providerRef res),
      a_errorMessage := None\<rparr> = (newAttempt ch nid a)\<lparr>a_status := Success,
      a_providerRef := Some (providerRef res)\<rparr>"
    by (simp add: newAttempt_def DeliveryAttempt_default_def)
  have sel: "select_by_id ?E nid d1 = Some row"
    using assms(3) select_by_id_same [OF d1(4)] by simp
  have m: "markSent ?E nid d1 = (Inr (), ?d2)"
    by (rule mark_no_fault(2) [OF fault_free_no_fault [OF d1(3)]])
  have sel2: "select_by_id ?E nid ?d2 = Some (set_status Sent row)"
    by (simp add: ms.select_rewrite_same sel)
  have "schema_inv ?E ?d2" by (rule ms.schema_inv_rewrite) (simp add: d1(2))
  moreover have "fault_free ?d2" by (simp add: d1(3))
  ultimately have i: "incrementAttemptCount ?E nid ?d2 = (Inr (), ?d3)"
    using sel2 assms(4)
    by (intro increment_returns [where row = "set_status Sent row"] key_inv_schema)
      (simp_all add: set_status_def)
  have r: "record_attempt ?E ((newAttempt ch nid a)\<lparr>a_status := Success,
      a_providerRef := Some (providerRef res)\<rparr>) (w_db w) = (Inr (), d1)"
    using d1(1) unfolding at .
  have "deliver V ch n nid a tag w =
      (Inr (), w\<lparr>w_db := ?d3, w_router := rt, w_ops := w_ops w @ [Ack tag]\<rparr>)"
    by (simp add: deliver_def on_db_def on_router_def zoomA_def bindA_def seqA_def emit_def
        assms(7) r m i)
  moreover have "select_by_id ?E nid ?d3 = Some (delivered_row row)"
    by (simp add: ic.select_rewrite_same sel2 set_status_def bump_count_def delivered_row_def)
  ultimately show ?thesis using t by (intro that [of ?d3 t]) simp_all
qed

lemma deliver_fails:
  assumes "router_send (we_provider V) (we_t1 V) (we_t2 V) n (w_router w) = (Inl ex, rt)"
  shows "deliver V ch n nid a tag w = (Inl ex, w\<lparr>w_router := rt\<rparr>)"
  using assms by (simp add: deliver_def bindA_def on_router_def zoomA_def)

text \<open>Both branches of a failure start by counting the attempt and recording it.\<close>

lemma counted_and_recorded:
  assumes "schema_inv E d" "fault_free d" "select_by_id E nid d = Some row"
    and "r_attempt_count row < uint32_max" "0 \<le> a" "a \<le> int uint32_max" "varchar 1024 msg"
  obtains d1 d2 t where
    "incrementAttemptCount E nid d = (Inr (), d1)"
    "record_attempt E ((newAttempt ch nid a)\<lparr>a_status := st, a_errorMessage := Some msg\<rparr>) d1 = (Inr (), d2)"
    "fault_free d2" "select_by_id E nid d2 = Some (bump_count row)"
    "attempts_at E nid (nat a) d2 = [t]" "t_status t = toString_AttemptStatus st"
    "t_provider_ref t = None" "t_error_message t = Some msg"
proof -
  let ?d1 = "rewrite_rows E bump_count nid (pop_fault d)"
  have i: "incrementAttemptCount E nid d = (Inr (), ?d1)"
    by (rule increment_returns [OF assms(2) key_inv_schema [OF assms(1)] assms(3,4)])
  have sel: "select_by_id E nid ?d1 = Some (bump_count row)"
    by (simp add: ic.select_rewrite_same assms(3))
  have inv: "schema_inv E ?d1" by (rule ic.schema_inv_rewrite) (simp add: assms(1))
  have ff: "fault_free ?d1" by (simp add: assms(2))
  have at: "(newAttempt ch nid a)\<lparr>a_status := st, a_providerRef := None, a_errorMessage := Some msg\<rparr> =
      (newAttempt ch nid a)\<lparr>a_status := st, a_errorMessage := Some msg\<rparr>"
    by (simp add: newAttempt_def DeliveryAttempt_default_def)
  obtain d2 t where r: "record_attempt E ((newAttempt ch nid a)\<lparr>a_status := st, a_providerRef := None,
        a_errorMessage := Some msg\<rparr>) ?d1 = (Inr (), d2)" "fault_free d2" "notifications d2 = notifications ?d1"
      "attempts_at E nid (nat a) d2 = [t]" "t_status t = toString_AttemptStatus st"
      "t_provider_ref t = None" "t_error_message t = Some msg"
    by (rule recorded [OF inv ff sel assms(5,6), where ref = None and msg = "Some msg" and ch = ch and st = st])
      (use assms(7) in \<open>simp_all add: varchar_null_def\<close>)
  have "select_by_id E nid d2 = Some (bump_count row)"
    using select_by_id_same [OF r(3)] sel by simp
  with i r show ?thesis unfolding at by (intro that)
qed

lemma on_failure_retries:
  assumes "schema_inv (we_db V) (w_db w)" "fault_free (w_db w)"
    and "select_by_id (we_db V) nid (w_db w) = Some row" "r_attempt_count row < uint32_max"
    and "0 \<le> a" "a \<le> int uint32_max" "varchar 1024 msg" "a \<le> maxRetries config"
    and "j_dump (we_json V) (retryBody (we_json V) nid a p) = Inr payload"
  obtains d t where
    "on_failure V ch config nid a p body tag (ProviderException msg True) w =
       (Inr (), w\<lparr>w_db := d,
          w_ops := w_ops w @ [Publish '''' (retryQueue ch a) (message payload p), Ack tag]\<rparr>)"
    "select_by_id (we_db V) nid d = Some (bump_count row)"
    "attempts_at (we_db V) nid (nat a) d = [t]" "t_status t = ''TRANSIENT_FAILURE''"
    "t_provider_ref t = None" "t_error_message t = Some msg"
proof -
  obtain d1 d2 t where s: "incrementAttemptCount (we_db V) nid (w_db w) = (Inr (), d1)"
    "record_attempt (we_db V) ((newAttempt ch nid a)\<lparr>a_status := TransientFailure,
        a_errorMessage := Some msg\<rparr>) d1 = (Inr (), d2)"
    and t: "select_by_id (we_db V) nid d2 = Some (bump_count row)"
      "attempts_at (we_db V) nid (nat a) d2 = [t]" "t_status t = toString_AttemptStatus TransientFailure"
      "t_provider_ref t = None" "t_error_message t = Some msg"
    by (rule counted_and_recorded [OF assms(1-7)])
  have "on_failure V ch config nid a p body tag (ProviderException msg True) w =
       (Inr (), w\<lparr>w_db := d2,
          w_ops := w_ops w @ [Publish '''' (retryQueue ch a) (message payload p), Ack tag]\<rparr>)"
    using assms(8)
    by (simp add: on_failure_def schedule_retry_def on_db_def zoomA_def bindA_def seqA_def emit_def
        s assms(9) Let_def newEnvelope_def message_def)
  then show ?thesis using t by (intro that) simp_all
qed

definition dead_row :: "notification_row \<Rightarrow> notification_row" where
  "dead_row row = row\<lparr>r_status := ''DEAD_LETTERED'', r_attempt_count := r_attempt_count row + 1\<rparr>"

lemma on_failure_dead_letters:
  assumes "schema_inv (we_db V) (w_db w)" "fault_free (w_db w)"
    and "select_by_id (we_db V) nid (w_db w) = Some row" "r_attempt_count row < uint32_max"
    and "0 \<le> a" "a \<le> int uint32_max" "varchar 1024 msg" "\<not> tr \<or> maxRetries config < a"
  obtains d t where
    "on_failure V ch config nid a p body tag (ProviderException msg tr) w =
       (Inr (), w\<lparr>w_db := d, w_ops := w_ops w @ [Publish '''' (dlq ch) (dlq_message body), Ack tag]\<rparr>)"
    "select_by_id (we_db V) nid d = Some (dead_row row)"
    "attempts_at (we_db V) nid (nat a) d = [t]"
    "t_status t = (if tr then ''TRANSIENT_FAILURE'' else ''PERMANENT_FAILURE'')"
    "t_provider_ref t = None" "t_error_message t = Some msg"
proof -
  let ?st = "if tr then TransientFailure else PermanentFailure"
  obtain d1 d2 t where s: "incrementAttemptCount (we_db V) nid (w_db w) = (Inr (), d1)"
    "record_attempt (we_db V) ((newAttempt ch nid a)\<lparr>a_status := ?st,
        a_errorMessage := Some msg\<rparr>) d1 = (Inr (), d2)" "fault_free d2"
    and t: "select_by_id (we_db V) nid d2 = Some (bump_count row)"
      "attempts_at (we_db V) nid (nat a) d2 = [t]" "t_status t = toString_AttemptStatus ?st"
      "t_provider_ref t = None" "t_error_message t = Some msg"
    by (rule counted_and_recorded [OF assms(1-7)])
  let ?d3 = "rewrite_rows (we_db V) (set_status DeadLettered) nid (pop_fault d2)"
  have m: "markDeadLettered (we_db V) nid d2 = (Inr (), ?d3)"
    by (rule mark_no_fault(3) [OF fault_free_no_fault [OF s(3)]])
  have nt: "tr \<Longrightarrow> maxRetries config < a" using assms(8) by blast
  have "on_failure V ch config nid a p body tag (ProviderException msg tr) w =
       (Inr (), w\<lparr>w_db := ?d3, w_ops := w_ops w @ [Publish '''' (dlq ch) (dlq_message body), Ack tag]\<rparr>)"
    using s(2)
    by (cases tr)
      (simp_all add: on_failure_def dead_letter_def on_db_def zoomA_def bindA_def seqA_def emit_def
        s(1) m Let_def newEnvelope_def dlq_message_def nt)
  moreover have "select_by_id (we_db V) nid ?d3 = Some (dead_row row)"
    by (simp add: md.select_rewrite_same t(1) set_status_def bump_count_def dead_row_def)
  ultimately show ?thesis using t by (intro that [of ?d3 t]) simp_all
qed

section \<open>Messages the service writes decode to what was meant\<close>

definition delivery_fields :: "'j json_lib \<Rightarrow> string \<Rightarrow> int \<Rightarrow> 8 word \<Rightarrow> (string \<times> 'j) list" where
  "delivery_fields J nid a p =
     [(''notificationId'', j_str J nid), (''attemptNumber'', j_num J a), (''priority'', j_num J (uint p))]"

lemma decode_delivery:
  assumes "json_laws J" "j_dump J (j_obj J (delivery_fields J nid a p)) = Inr payload" "int32_range a"
  shows "decode J payload = Inr (nid, a, p)"
proof -
  let ?kvs = "delivery_fields J nid a p"
  have d: "distinct (map fst ?kvs)" by (simp add: delivery_fields_def)
  have u: "int32_range (uint p)"
    using uint_lt2p [of p] by (simp add: int32_range_def) (rule order_trans [OF _ uint_ge_0], simp)
  have "j_at_str J (j_obj J ?kvs) ''notificationId'' = Inr nid"
    by (rule json_at_str [OF assms(1) d]) (simp add: delivery_fields_def)
  moreover have "j_value_int J (j_obj J ?kvs) ''attemptNumber'' 1 = Inr a"
    by (rule json_value_int(1) [OF assms(1) d _ assms(3)]) (simp add: delivery_fields_def)
  moreover have "j_value_int J (j_obj J ?kvs) ''priority'' 3 = Inr (uint p)"
    by (rule json_value_int(1) [OF assms(1) d _ u]) (simp add: delivery_fields_def)
  ultimately show ?thesis
    by (simp add: decode_def json_parse_dump [OF assms(1,2)])
qed

lemma delivery_prints:
  assumes "json_laws J" "ascii nid"
  shows "\<exists>s. j_dump J (j_obj J (delivery_fields J nid a p)) = Inr s"
  by (rule json_dump_flat [OF assms(1)])
    (use assms(2) in \<open>auto simp: delivery_fields_def ascii_def ascii_scalar_def\<close>)

lemma retryBody_fields: "retryBody J nid a p = j_obj J (delivery_fields J nid (a + 1) p)"
  by (simp add: retryBody_def delivery_fields_def)

section \<open>A concrete world for witnesses\<close>

definition sample_body :: "int \<Rightarrow> string" where
  "sample_body a = chunk_obj (delivery_fields chunk_json (n_id sample_saved) a 5)"

lemma sample_dump: "j_dump chunk_json (j_obj chunk_json (delivery_fields chunk_json nid a p)) =
    Inr (chunk_obj (delivery_fields chunk_json nid a p))"
  by (simp add: chunk_json_def chunk_parse_def chunk_obj_def)

lemma decode_sample: "int32_range a \<Longrightarrow> decode chunk_json (sample_body a) = Inr (n_id sample_saved, a, 5)"
  unfolding sample_body_def by (rule decode_delivery [OF json_laws_chunk_json sample_dump])

definition sample_world :: "MockProvider world" where
  "sample_world = \<lparr>w_db = sample_db, w_router = newRouter 5 30000, w_ops = []\<rparr>"

definition sample_env :: "exn + ProviderResult \<Rightarrow> (string, MockProvider) worker_env" where
  "sample_env outcome = \<lparr>we_db = plain_env, we_json = chunk_json, we_provider = (\<lambda>_ _. outcome),
     we_t1 = 0, we_t2 = 0\<rparr>"

lemma sample_env_simps [simp]:
  "we_db (sample_env oc) = plain_env" "we_json (sample_env oc) = chunk_json"
  "we_provider (sample_env oc) = (\<lambda>_ _. oc)"
  by (simp_all add: sample_env_def)

lemma sample_row: "select_by_id plain_env (n_id sample_saved) sample_db = Some (inserted_row sample_saved 0)"
  by (simp add: select_by_id_def sample_db_def inserted_row_def newRow_id)

lemma sample_read: "rowToNotification (inserted_row sample_saved 0) = Inr sample_saved"
  by (simp add: inserted_row_def rowToNotification_newRow)
    (simp add: sample_saved_def sample_notification_def Notification_default_def)

lemma sample_send:
  "fst (router_send (\<lambda>_ _. oc) 0 0 sample_saved (newRouter 5 30000)) = oc"
  by (simp add: router_send_known [OF newRouter_entries] guarded_send_def router_send_def newRouter_entries
      newBreaker_def allowRequest_def split: prod.splits)

text \<open>
  The situation in which a message is delivered: the database satisfies its invariant and no
  statement fails; the body decodes to a stored, readable notification that is neither SENT
  nor CANCELLED; and the two counters fit their columns.
\<close>

definition ready ::
  "('j, 'p) worker_env \<Rightarrow> 'p world \<Rightarrow> string \<Rightarrow> string \<Rightarrow> int \<Rightarrow> 8 word \<Rightarrow> notification_row \<Rightarrow> Notification \<Rightarrow> bool"
where
  "ready V w body nid a p row n \<longleftrightarrow>
     schema_inv (we_db V) (w_db w) \<and> fault_free (w_db w) \<and>
     decode (we_json V) body = Inr (nid, a, p) \<and> 0 \<le> a \<and> a \<le> int uint32_max \<and>
     select_by_id (we_db V) nid (w_db w) = Some row \<and> rowToNotification row = Inr n \<and>
     deliverable n \<and> r_attempt_count row < uint32_max"

lemma ready_sample:
  "int32_range a \<Longrightarrow> 0 \<le> a \<Longrightarrow>
   ready (sample_env oc) sample_world (sample_body a) (n_id sample_saved) a 5
     (inserted_row sample_saved 0) sample_saved"
  by (simp add: ready_def sample_world_def schema_inv_sample decode_sample sample_row sample_read)
    (simp add: fault_free_def sample_db_def db_empty_def deliverable_def sample_saved_def
      sample_notification_def Notification_default_def inserted_row_def newRow_def uint32_max_def
      int32_range_def)

section \<open>The three outcomes of a delivery\<close>

lemma success_outcome:
  assumes "ready V w body nid a p row n"
    and "router_send (we_provider V) (we_t1 V) (we_t2 V) n (w_router w) = (Inr res, rt)"
    and "varchar 255 (providerRef res)"
  shows "\<exists>w' t. onMessage V ch config body tag w = (Inr (), w') \<and>
    w_ops w' = w_ops w @ [Ack tag] \<and> w_router w' = rt \<and>
    select_by_id (we_db V) nid (w_db w') =
      Some (row\<lparr>r_status := ''SENT'', r_attempt_count := r_attempt_count row + 1\<rparr>) \<and>
    attempts_at (we_db V) nid (nat a) (w_db w') = [t] \<and> t_status t = ''SUCCESS'' \<and>
    t_provider_ref t = Some (providerRef res) \<and> t_error_message t = None"
proof -
  let ?w = "w\<lparr>w_db := processing (we_db V) nid (w_db w)\<rparr>"
  have rd: "schema_inv (we_db V) (w_db w)" "fault_free (w_db w)"
    "select_by_id (we_db V) nid (w_db w) = Some row"
    using assms(1) by (simp_all add: ready_def)
  note pf = processing_facts [OF this]
  have P: "schema_inv (we_db V) (w_db ?w)" "fault_free (w_db ?w)"
    "select_by_id (we_db V) nid (w_db ?w) = Some (set_status Processing row)"
    "r_attempt_count (set_status Processing row) < uint32_max" "0 \<le> a" "a \<le> int uint32_max"
    "router_send (we_provider V) (we_t1 V) (we_t2 V) n (w_router ?w) = (Inr res, rt)"
    using assms(1) by (simp_all add: pf assms(2) set_status_def ready_def)
  obtain d t where del: "deliver V ch n nid a tag ?w =
      (Inr (), ?w\<lparr>w_db := d, w_router := rt, w_ops := w_ops ?w @ [Ack tag]\<rparr>)"
    and t: "select_by_id (we_db V) nid d = Some (delivered_row (set_status Processing row))"
      "attempts_at (we_db V) nid (nat a) d = [t]" "t_status t = ''SUCCESS''"
      "t_provider_ref t = Some (providerRef res)" "t_error_message t = None"
    by (rule deliver_succeeds [OF P assms(3)])
  have "onMessage V ch config body tag w =
      (Inr (), ?w\<lparr>w_db := d, w_router := rt, w_ops := w_ops ?w @ [Ack tag]\<rparr>)"
    using assms(1) del by (subst onMessage_processing) (auto simp: ready_def catchA_Inr)
  with t show ?thesis by (simp add: delivered_row_def set_status_def)
qed

lemma retry_outcome:
  assumes "ready V w body nid a p row n"
    and "router_send (we_provider V) (we_t1 V) (we_t2 V) n (w_router w) = (Inl (ProviderException msg True), rt)"
    and "a \<le> maxRetries config" and "int32_range (a + 1)" and "varchar 1024 msg"
    and "json_laws (we_json V)" and "j_dump (we_json V) (retryBody (we_json V) nid a p) = Inr payload"
  shows "\<exists>w' t. onMessage V ch config body tag w = (Inr (), w') \<and>
    w_ops w' = w_ops w @ [Publish '''' (retryQueue ch a) (message payload p), Ack tag] \<and>
    decode (we_json V) payload = Inr (nid, a + 1, p) \<and> w_router w' = rt \<and>
    select_by_id (we_db V) nid (w_db w') =
      Some (row\<lparr>r_status := ''PROCESSING'', r_attempt_count := r_attempt_count row + 1\<rparr>) \<and>
    attempts_at (we_db V) nid (nat a) (w_db w') = [t] \<and> t_status t = ''TRANSIENT_FAILURE'' \<and>
    t_provider_ref t = None \<and> t_error_message t = Some msg"
proof -
  let ?w = "w\<lparr>w_db := processing (we_db V) nid (w_db w)\<rparr>"
  let ?wr = "?w\<lparr>w_router := rt\<rparr>"
  have rd: "schema_inv (we_db V) (w_db w)" "fault_free (w_db w)"
    "select_by_id (we_db V) nid (w_db w) = Some row"
    using assms(1) by (simp_all add: ready_def)
  note pf = processing_facts [OF this]
  have del: "deliver V ch n nid a tag ?w = (Inl (ProviderException msg True), ?wr)"
    by (rule deliver_fails) (simp add: assms(2))
  have P: "schema_inv (we_db V) (w_db ?wr)" "fault_free (w_db ?wr)"
    "select_by_id (we_db V) nid (w_db ?wr) = Some (set_status Processing row)"
    "r_attempt_count (set_status Processing row) < uint32_max" "0 \<le> a" "a \<le> int uint32_max"
    using assms(1) by (simp_all add: pf set_status_def ready_def)
  obtain d t where f: "on_failure V ch config nid a p body tag (ProviderException msg True) ?wr =
      (Inr (), ?wr\<lparr>w_db := d,
         w_ops := w_ops ?wr @ [Publish '''' (retryQueue ch a) (message payload p), Ack tag]\<rparr>)"
    and t: "select_by_id (we_db V) nid d = Some (bump_count (set_status Processing row))"
      "attempts_at (we_db V) nid (nat a) d = [t]" "t_status t = ''TRANSIENT_FAILURE''"
      "t_provider_ref t = None" "t_error_message t = Some msg"
    by (rule on_failure_retries [OF P assms(5,3,7)])
  have "onMessage V ch config body tag w = (Inr (), ?wr\<lparr>w_db := d,
         w_ops := w_ops ?wr @ [Publish '''' (retryQueue ch a) (message payload p), Ack tag]\<rparr>)"
    using assms(1) del f by (subst onMessage_processing) (auto simp: ready_def catchA_Inl)
  moreover have "decode (we_json V) payload = Inr (nid, a + 1, p)"
    using decode_delivery [OF assms(6) _ assms(4)] assms(7) unfolding retryBody_fields by blast
  ultimately show ?thesis using t by (simp add: set_status_def bump_count_def)
qed

lemma dead_letter_outcome:
  assumes "ready V w body nid a p row n"
    and "router_send (we_provider V) (we_t1 V) (we_t2 V) n (w_router w) = (Inl (ProviderException msg tr), rt)"
    and "\<not> tr \<or> maxRetries config < a" and "varchar 1024 msg"
  shows "\<exists>w' t. onMessage V ch config body tag w = (Inr (), w') \<and>
    w_ops w' = w_ops w @ [Publish '''' (dlq ch) (dlq_message body), Ack tag] \<and> w_router w' = rt \<and>
    select_by_id (we_db V) nid (w_db w') =
      Some (row\<lparr>r_status := ''DEAD_LETTERED'', r_attempt_count := r_attempt_count row + 1\<rparr>) \<and>
    attempts_at (we_db V) nid (nat a) (w_db w') = [t] \<and>
    t_status t = (if tr then ''TRANSIENT_FAILURE'' else ''PERMANENT_FAILURE'') \<and>
    t_provider_ref t = None \<and> t_error_message t = Some msg"
proof -
  let ?w = "w\<lparr>w_db := processing (we_db V) nid (w_db w)\<rparr>"
  let ?wr = "?w\<lparr>w_router := rt\<rparr>"
  have rd: "schema_inv (we_db V) (w_db w)" "fault_free (w_db w)"
    "select_by_id (we_db V) nid (w_db w) = Some row"
    using assms(1) by (simp_all add: ready_def)
  note pf = processing_facts [OF this]
  have del: "deliver V ch n nid a tag ?w = (Inl (ProviderException msg tr), ?wr)"
    by (rule deliver_fails) (simp add: assms(2))
  have P: "schema_inv (we_db V) (w_db ?wr)" "fault_free (w_db ?wr)"
    "select_by_id (we_db V) nid (w_db ?wr) = Some (set_status Processing row)"
    "r_attempt_count (set_status Processing row) < uint32_max" "0 \<le> a" "a \<le> int uint32_max"
    using assms(1) by (simp_all add: pf set_status_def ready_def)
  obtain d t where f: "on_failure V ch config nid a p body tag (ProviderException msg tr) ?wr =
      (Inr (), ?wr\<lparr>w_db := d, w_ops := w_ops ?wr @ [Publish '''' (dlq ch) (dlq_message body), Ack tag]\<rparr>)"
    and t: "select_by_id (we_db V) nid d = Some (dead_row (set_status Processing row))"
      "attempts_at (we_db V) nid (nat a) d = [t]"
      "t_status t = (if tr then ''TRANSIENT_FAILURE'' else ''PERMANENT_FAILURE'')"
      "t_provider_ref t = None" "t_error_message t = Some msg"
    by (rule on_failure_dead_letters [OF P assms(4,3)])
  have "onMessage V ch config body tag w = (Inr (), ?wr\<lparr>w_db := d,
         w_ops := w_ops ?wr @ [Publish '''' (dlq ch) (dlq_message body), Ack tag]\<rparr>)"
    using assms(1) del f by (subst onMessage_processing) (auto simp: ready_def catchA_Inl)
  then show ?thesis using t by (simp add: set_status_def dead_row_def)
qed

section \<open>Properties\<close>

text \<open>C14: a message is acknowledged exactly when its handler returns, last and once, under
  every outcome of the database, the provider and the JSON library. Before the
  acknowledgement at most one message has been published, persistently and through the
  default exchange, either to the channel's dead-letter queue or to the queue of a retry not
  beyond \<open>maxRetries\<close>. A handler that throws acknowledges nothing (so the broker
  redelivers), having published at most that one message.\<close>

theorem onMessage_acks_iff_returns:
  assumes "onMessage V ch config body tag w = (r, w')"
  shows "\<exists>ops. w_ops w' = w_ops w @ ops \<and>
    (case r of
       Inr u \<Rightarrow> \<exists>pubs. ops = pubs @ [Ack tag] \<and> outgoing (we_json V) ch config body pubs
     | Inl e \<Rightarrow> outgoing (we_json V) ch config body ops) \<and>
    length (filter is_Ack ops) = (case r of Inr u \<Rightarrow> 1 | Inl e \<Rightarrow> 0)"
proof -
  obtain ops where "w_ops w' = w_ops w @ ops" and h: "handled (we_json V) ch config body tag r ops"
    using emitsD [OF emits_onMessage assms] by blast
  moreover have "outgoing (we_json V) ch config body pubs \<Longrightarrow> filter is_Ack pubs = []" for pubs
    by (auto simp: outgoing_def is_retry_def)
  ultimately show ?thesis
    by (cases r) (auto simp: handled_def)
qed

theorem onMessage_acks_iff_returns_witness:
  "\<exists>ops. w_ops (snd (onMessage (sample_env (Inr \<lparr>providerRef = ''x''\<rparr>)) Sms Config_default ''?'' 7
      sample_world)) = ops \<and> length (filter is_Ack ops) = 1"
proof -
  let ?V = "sample_env (Inr \<lparr>providerRef = ''x''\<rparr>)"
  have "decode chunk_json ''?'' = Inl (JsonException ''parse error'')"
    by (simp add: decode_def chunk_json_def chunk_parse_def)
  then have "onMessage ?V Sms Config_default ''?'' 7 sample_world =
      (Inr (), sample_world\<lparr>w_ops := w_ops sample_world @ [Ack 7]\<rparr>)"
    by (simp add: onMessage_def emit_def)
  from onMessage_acks_iff_returns [OF this] show ?thesis
    by (simp add: onMessage_def emit_def \<open>decode chunk_json ''?'' = _\<close> sample_world_def)
qed

text \<open>Handling a message keeps the schema invariant of the database (keys, foreign keys,
  ENUM columns, one outbox event per notification) and the invariant of every circuit
  breaker, whatever fails and whether or not the handler returns.\<close>

theorem onMessage_preserves_invariant:
  assumes "schema_inv (we_db V) (w_db w)" "router_inv (w_router w)"
    and "onMessage V ch config body tag w = (r, w')"
  shows "schema_inv (we_db V) (w_db w') \<and> router_inv (w_router w')"
  using preservesD [OF world_inv_onMessage [OF refl], of V w ch config body tag r w'] assms
  by (simp add: world_inv_def)

theorem onMessage_preserves_invariant_witness:
  "schema_inv plain_env (w_db (snd (onMessage (sample_env (Inl (ProviderException ''down'' True)))
      Sms Config_default (sample_body 1) 7 sample_world)))"
  using onMessage_preserves_invariant [of "sample_env (Inl (ProviderException ''down'' True))"
      sample_world Sms Config_default "sample_body 1" 7
      "fst (onMessage (sample_env (Inl (ProviderException ''down'' True))) Sms Config_default (sample_body 1) 7 sample_world)"
      "snd (onMessage (sample_env (Inl (ProviderException ''down'' True))) Sms Config_default (sample_body 1) 7 sample_world)"]
  by (simp add: sample_world_def schema_inv_sample router_inv_new)

text \<open>C15: the status machine of one handler. Without interference from another handler, and under
  every outcome of the database and the provider, a message about notification \<open>nid\<close> leaves every other notification's row exactly as it was; of its
  own row it keeps the content, never lowers the attempt count, never moves the status away
  from SENT or CANCELLED, and moves any other status only to PROCESSING, SENT or
  DEAD_LETTERED (never to FAILED or back to PENDING).\<close>

theorem onMessage_status_machine:
  assumes "schema_inv (we_db V) (w_db w)" "decode (we_json V) body = Inr (nid, a, p)"
    and "onMessage V ch config body tag w = (r, w')"
  shows "list_all2 (row_step (we_db V) nid) (notifications (w_db w)) (notifications (w_db w'))"
  using onMessage_steps [OF key_inv_schema [OF assms(1)] assms(2,3)] by (simp add: rows_step_def)

theorem onMessage_status_machine_witness:
  "list_all2 (row_step plain_env (n_id sample_saved)) (notifications sample_db)
     (notifications (w_db (snd (onMessage (sample_env (Inl (MysqlError ''gone''))) Sms Config_default
        (sample_body 1) 7 sample_world))))"
proof -
  let ?m = "onMessage (sample_env (Inl (MysqlError ''gone''))) Sms Config_default (sample_body 1) 7 sample_world"
  have "int32_range 1" by (simp add: int32_range_def)
  from onMessage_status_machine [of "sample_env (Inl (MysqlError ''gone''))" sample_world "sample_body 1"
      "n_id sample_saved" 1 5 Sms Config_default 7 "fst ?m" "snd ?m"]
  show ?thesis by (simp add: sample_world_def schema_inv_sample decode_sample \<open>int32_range 1\<close>)
qed

text \<open>C28: a delivery that succeeds. For a stored notification that is neither SENT nor
  CANCELLED, when the router returns and no statement fails, the handler returns; the
  notification is SENT with one more attempt counted, the attempt is recorded once as SUCCESS
  with the provider's reference, and the message is acknowledged with nothing published.\<close>

theorem onMessage_success:
  assumes "ready V w body nid a p row n"
    and "router_send (we_provider V) (we_t1 V) (we_t2 V) n (w_router w) = (Inr res, rt)"
    and "varchar 255 (providerRef res)"
  shows "\<exists>w' t. onMessage V ch config body tag w = (Inr (), w') \<and>
    w_ops w' = w_ops w @ [Ack tag] \<and> w_router w' = rt \<and>
    select_by_id (we_db V) nid (w_db w') =
      Some (row\<lparr>r_status := ''SENT'', r_attempt_count := r_attempt_count row + 1\<rparr>) \<and>
    attempts_at (we_db V) nid (nat a) (w_db w') = [t] \<and> t_status t = ''SUCCESS'' \<and>
    t_provider_ref t = Some (providerRef res) \<and> t_error_message t = None"
  by (rule success_outcome [OF assms])

theorem onMessage_success_witness:
  "\<exists>w' t. onMessage (sample_env (Inr \<lparr>providerRef = ''ref''\<rparr>)) Sms Config_default (sample_body 1) 7
       sample_world = (Inr (), w') \<and> w_ops w' = [Ack 7] \<and>
     attempts_at plain_env (n_id sample_saved) 1 (w_db w') = [t] \<and> t_status t = ''SUCCESS''"
proof -
  let ?oc = "Inr \<lparr>providerRef = ''ref''\<rparr>"
  have "int32_range 1" by (simp add: int32_range_def)
  moreover obtain rt where "router_send (\<lambda>_ _. ?oc) 0 0 sample_saved (newRouter 5 30000) = (?oc, rt)"
    using sample_send [of ?oc] by (metis prod.collapse)
  ultimately show ?thesis
    using onMessage_success [OF ready_sample [of 1 ?oc], of "\<lparr>providerRef = ''ref''\<rparr>" rt Sms Config_default 7]
    by (fastforce simp: sample_world_def sample_env_def varchar_def utf8_length_def)
qed

text \<open>C26: a transient failure with retries left. The handler returns; the notification is
  PROCESSING with one more attempt counted, the attempt is recorded once as TRANSIENT_FAILURE
  with the error, and before the acknowledgement exactly one message is published, to this
  attempt's rung of the channel's retry ladder with the same priority; that message decodes,
  in the worker that will receive it, to the same notification with the next attempt number.\<close>

theorem onMessage_retry:
  assumes "ready V w body nid a p row n"
    and "router_send (we_provider V) (we_t1 V) (we_t2 V) n (w_router w) = (Inl (ProviderException msg True), rt)"
    and "a \<le> maxRetries config" and "int32_range (a + 1)" and "varchar 1024 msg"
    and "json_laws (we_json V)" and "j_dump (we_json V) (retryBody (we_json V) nid a p) = Inr payload"
  shows "\<exists>w' t. onMessage V ch config body tag w = (Inr (), w') \<and>
    w_ops w' = w_ops w @ [Publish '''' (retryQueue ch a) (message payload p), Ack tag] \<and>
    decode (we_json V) payload = Inr (nid, a + 1, p) \<and> w_router w' = rt \<and>
    select_by_id (we_db V) nid (w_db w') =
      Some (row\<lparr>r_status := ''PROCESSING'', r_attempt_count := r_attempt_count row + 1\<rparr>) \<and>
    attempts_at (we_db V) nid (nat a) (w_db w') = [t] \<and> t_status t = ''TRANSIENT_FAILURE'' \<and>
    t_provider_ref t = None \<and> t_error_message t = Some msg"
  by (rule retry_outcome [OF assms])

theorem onMessage_retry_witness:
  "\<exists>w' payload. onMessage (sample_env (Inl (ProviderException ''timeout'' True))) Sms Config_default
       (sample_body 2) 7 sample_world = (Inr (), w') \<and>
     w_ops w' = [Publish '''' (retryQueue Sms 2) (message payload 5), Ack 7] \<and>
     decode chunk_json payload = Inr (n_id sample_saved, 3, 5)"
proof -
  let ?oc = "Inl (ProviderException ''timeout'' True)"
  have "int32_range 2" "int32_range (2 + 1)" by (simp_all add: int32_range_def)
  moreover obtain rt where "router_send (\<lambda>_ _. ?oc) 0 0 sample_saved (newRouter 5 30000) = (?oc, rt)"
    using sample_send [of ?oc] by (metis prod.collapse)
  ultimately show ?thesis
    using onMessage_retry [OF ready_sample [of 2 ?oc], of "''timeout''" rt Config_default
        "chunk_obj (delivery_fields chunk_json (n_id sample_saved) (2 + 1) 5)" Sms 7]
      sample_dump [of "n_id sample_saved" "2 + 1" 5]
    by (fastforce simp: sample_world_def sample_env_def varchar_def utf8_length_def Config_default_def
        json_laws_chunk_json retryBody_fields)
qed

text \<open>C27: a permanent failure, or a transient one after the last retry. The handler returns;
  the notification is DEAD_LETTERED with one more attempt counted, the attempt is recorded
  once with its kind and error, and before the acknowledgement exactly the original message
  body is published to the channel's dead-letter queue. The rest of the documentation speaks
  of FAILED for permanent failures; that status is never set.\<close>

theorem onMessage_dead_letter:
  assumes "ready V w body nid a p row n"
    and "router_send (we_provider V) (we_t1 V) (we_t2 V) n (w_router w) = (Inl (ProviderException msg tr), rt)"
    and "\<not> tr \<or> maxRetries config < a" and "varchar 1024 msg"
  shows "\<exists>w' t. onMessage V ch config body tag w = (Inr (), w') \<and>
    w_ops w' = w_ops w @ [Publish '''' (dlq ch) (dlq_message body), Ack tag] \<and> w_router w' = rt \<and>
    select_by_id (we_db V) nid (w_db w') =
      Some (row\<lparr>r_status := ''DEAD_LETTERED'', r_attempt_count := r_attempt_count row + 1\<rparr>) \<and>
    attempts_at (we_db V) nid (nat a) (w_db w') = [t] \<and>
    t_status t = (if tr then ''TRANSIENT_FAILURE'' else ''PERMANENT_FAILURE'') \<and>
    t_provider_ref t = None \<and> t_error_message t = Some msg"
  by (rule dead_letter_outcome [OF assms])

theorem onMessage_dead_letter_witness:
  "\<exists>w'. onMessage (sample_env (Inl (ProviderException ''timeout'' True))) Sms Config_default
       (sample_body 4) 7 sample_world = (Inr (), w') \<and>
     w_ops w' = [Publish '''' (dlq Sms) (dlq_message (sample_body 4)), Ack 7]"
proof -
  let ?oc = "Inl (ProviderException ''timeout'' True)"
  have "int32_range 4" by (simp add: int32_range_def)
  moreover obtain rt where "router_send (\<lambda>_ _. ?oc) 0 0 sample_saved (newRouter 5 30000) = (?oc, rt)"
    using sample_send [of ?oc] by (metis prod.collapse)
  ultimately show ?thesis
    using onMessage_dead_letter [OF ready_sample [of 4 ?oc], of "''timeout''" True rt Config_default Sms 7]
    by (fastforce simp: sample_world_def sample_env_def varchar_def utf8_length_def Config_default_def)
qed

text \<open>What is not to be delivered is acknowledged and nothing else happens: a message
  that does not decode touches neither the database nor the router, and when no statement
  fails the same holds for a message about an unknown notification and for a redelivered
  message whose notification is already SENT or has been CANCELLED; no provider is called.\<close>

theorem onMessage_skips:
  assumes "(\<exists>ex. decode (we_json V) body = Inl ex) \<or>
    (\<exists>nid a p. decode (we_json V) body = Inr (nid, a, p) \<and> no_fault (w_db w) \<and>
       (select_by_id (we_db V) nid (w_db w) = None \<or>
        (\<exists>row n. select_by_id (we_db V) nid (w_db w) = Some row \<and> rowToNotification row = Inr n \<and>
           r_status row \<in> {''SENT'', ''CANCELLED''})))"
  shows "\<exists>w'. onMessage V ch config body tag w = (Inr (), w') \<and> w_ops w' = w_ops w @ [Ack tag] \<and>
    w_router w' = w_router w \<and> same_tables (w_db w') (w_db w)"
proof (cases "decode (we_json V) body")
  case (Inl ex)
  then show ?thesis by (simp add: onMessage_def emit_def)
next
  case (Inr m)
  then obtain nid a p where m: "decode (we_json V) body = Inr (nid, a, p)" by (cases m) auto
  with assms have nf: "no_fault (w_db w)" and
    c: "select_by_id (we_db V) nid (w_db w) = None \<or>
        (\<exists>row n. select_by_id (we_db V) nid (w_db w) = Some row \<and> rowToNotification row = Inr n \<and>
           r_status row \<in> {''SENT'', ''CANCELLED''})"
    by auto
  obtain x where f: "findById (we_db V) nid (w_db w) = (Inr x, pop_fault (w_db w))"
    and x: "\<And>n. Inr x = (Inr (Some n) :: exn + Notification option) \<Longrightarrow> \<not> deliverable n"
    using c
  proof (elim disjE exE conjE)
    assume "select_by_id (we_db V) nid (w_db w) = None"
    from findById_none [OF nf this] show ?thesis by (intro that [of None]) simp_all
  next
    fix row n
    assume row: "select_by_id (we_db V) nid (w_db w) = Some row" "rowToNotification row = Inr n"
      and st: "r_status row \<in> {''SENT'', ''CANCELLED''}"
    have "n_status n = statusFromString (r_status row)"
      using rowToNotification_fields(4) [OF row(2)] .
    with st have "\<not> deliverable n" by (auto simp: deliverable_def statusFromString_def)
    with findById_some [OF nf row] show ?thesis by (intro that [of "Some n"]) simp_all
  qed
  have "onMessage V ch config body tag w =
      (Inr (), w\<lparr>w_db := pop_fault (w_db w), w_ops := w_ops w @ [Ack tag]\<rparr>)"
    using onMessage_not_found [OF m f x, of ch config tag] by (metis sum.case(2) prod.collapse)
  then show ?thesis by simp
qed

theorem onMessage_skips_witness:
  "\<exists>w'. onMessage (sample_env (Inr \<lparr>providerRef = ''ref''\<rparr>)) Sms Config_default (sample_body 1) 7
       (sample_world\<lparr>w_db := db_empty\<rparr>) = (Inr (), w') \<and> w_ops w' = [Ack 7]"
proof -
  have "int32_range 1" by (simp add: int32_range_def)
  then show ?thesis
    using onMessage_skips [of "sample_env (Inr \<lparr>providerRef = ''ref''\<rparr>)" "sample_body 1"
        "sample_world\<lparr>w_db := db_empty\<rparr>" Sms Config_default 7]
    by (fastforce simp: sample_world_def decode_sample select_by_id_def db_empty_def)
qed

section \<open>Threads and pool\<close>

definition started :: "Config \<Rightarrow> Channel \<Rightarrow> WorkerThread" where
  "started config c = \<lparr>wt_channel = c, wt_config = config,
     wt_address = Some (buildAmqpAddress_worker config), wt_running = True, wt_joinable = True, wt_io_stopped = False,
     wt_ops = [SetQos 10, Consume (mainQueue c)]\<rparr>"

definition stopped :: "Config \<Rightarrow> Channel \<Rightarrow> WorkerThread" where
  "stopped config c = \<lparr>wt_channel = c, wt_config = config,
     wt_address = Some (buildAmqpAddress_worker config), wt_running = False, wt_joinable = False, wt_io_stopped = True,
     wt_ops = [SetQos 10, Consume (mainQueue c)]\<rparr>"

lemma thread_lifecycle [simp]:
  "start (newWorkerThread config c) = Some (started config c)" "stop (started config c) = stopped config c"
  "stop (stopped config c) = stopped config c" "stop (newWorkerThread config c) = newWorkerThread config c"
  by (simp_all add: start_def stop_def run_def newWorkerThread_def started_def stopped_def Let_def)

lemma consuming_started [simp]: "consuming (started config c) q \<longleftrightarrow> q = mainQueue c"
  by (simp add: consuming_def started_def)

lemma not_consuming_stopped [simp]: "\<not> consuming (stopped config c) q"
  by (simp add: consuming_def stopped_def)

definition pool_channels :: "Config \<Rightarrow> Channel list" where
  "pool_channels config =
     concat (map (\<lambda>ch. replicate (nat (workersPerChannel config)) ch) all_channels)"

lemma pool_workers: "snd (newWorkerPool config) = map (newWorkerThread config) (pool_channels config)"
  by (simp add: newWorkerPool_def pool_channels_def map_concat comp_def map_replicate_const)

lemma start_all_new: "start_all (map (newWorkerThread config) cs) = Some (map (started config) cs)"
  by (induction cs) simp_all

text \<open>The workers connect to the broker that the publisher publishes to.\<close>

lemma started_workers_broker:
  assumes "start_all (snd (newWorkerPool config)) = Some ws" "w \<in> set ws"
  shows "wt_address w = Some (pub_address (newPublisher config))"
  using assms by (auto simp: pool_workers start_all_new started_def newPublisher_def
      buildAmqpAddress_worker_def buildAmqpAddress_def)

lemma pool_count: "length (filter (\<lambda>d. d = c) (pool_channels config)) = nat (workersPerChannel config)"
  by (cases c) (simp_all add: pool_channels_def all_channels_def filter_replicate)

text \<open>The pool. For every configuration, all threads of a fresh pool start; each channel's
  main queue then has exactly \<open>workersPerChannel\<close> consumers (none for a negative number) and
  nothing else is consumed. After \<open>stop\<close> no thread consumes, and stopping again changes
  nothing. A stopped thread that is started again consumes nothing, because its io_context
  stays stopped.\<close>

theorem worker_pool_lifecycle:
  "\<exists>ws. start_all (snd (newWorkerPool config)) = Some ws \<and>
     (\<forall>c. length (filter (\<lambda>w. consuming w (mainQueue c)) ws) = nat (workersPerChannel config)) \<and>
     length ws = 3 * nat (workersPerChannel config) \<and>
     filter (\<lambda>w. \<exists>q. consuming w q) (stop_all ws) = [] \<and> stop_all (stop_all ws) = stop_all ws \<and>
     (\<exists>again. start_all (stop_all ws) = Some again \<and> filter (\<lambda>w. \<exists>q. consuming w q) again = [])"
proof -
  let ?cs = "pool_channels config"
  let ?ws = "map (started config) ?cs"
  let ?again = "\<lambda>c. (started config c)\<lparr>wt_io_stopped := True\<rparr>"
  have s: "start_all (snd (newWorkerPool config)) = Some ?ws"
    by (simp add: pool_workers start_all_new)
  have n: "length (filter (\<lambda>w. consuming w (mainQueue c)) ?ws) = nat (workersPerChannel config)" for c
    using pool_count [of c config] by (simp add: filter_map comp_def eq_commute)
  have len: "length ?ws = 3 * nat (workersPerChannel config)"
    by (simp add: pool_channels_def all_channels_def)
  have st: "stop_all ?ws = map (stopped config) ?cs"
    by (simp add: stop_all_def)
  have "start (stopped config c) = Some (?again c)" for c
    by (simp add: start_def run_def started_def stopped_def Let_def)
  then have "start_all (map (stopped config) cs) = Some (map ?again cs)" for cs
    by (induction cs) simp_all
  moreover have "filter (\<lambda>w. \<exists>q. consuming w q) (map ?again ?cs) = []"
    by (simp add: filter_map comp_def consuming_def started_def)
  ultimately have "\<exists>again. start_all (stop_all ?ws) = Some again \<and>
      filter (\<lambda>w. \<exists>q. consuming w q) again = []"
    unfolding st by blast
  moreover have "filter (\<lambda>w. \<exists>q. consuming w q) (stop_all ?ws) = []" "stop_all (stop_all ?ws) = stop_all ?ws"
    unfolding st by (simp_all add: filter_map comp_def stop_all_def)
  ultimately show ?thesis using s n len by blast
qed

end
