(* ===== verification/HttpServer.thy ===== *)
theory HttpServer
  imports WorkerProperties
begin

text \<open>
  include/notification/HttpServer.hpp and src/HttpServer.cpp: the REST API. Sockets, HTTP
  parsing and serialisation (Boost.Beast) are outside: a connection is the request that was
  read, or \<open>None\<close> when reading failed, and the responses written are logged. The state is the
  database, the publisher and that log.
\<close>

section \<open>Requests and responses\<close>

datatype verb = GetVerb | PostVerb | OtherVerb

record http_request =
  rq_method :: verb
  rq_target :: string
  rq_body :: string
  rq_version :: nat
  rq_keep_alive :: bool

record http_response =
  rs_status :: nat
  rs_version :: nat
  rs_server :: string
  rs_content_type :: string
  rs_body :: string
  rs_keep_alive :: bool

record http_world =
  h_db :: database
  h_publisher :: RabbitMQPublisher
  h_responses :: "http_response list"

text \<open>
  What one request depends on: the database server, the JSON library, and the random draws
  of the default idempotency key and of the new identifier.
\<close>

record 'j http_env =
  he_db :: db_env
  he_json :: "'j json_lib"
  he_key_draws :: uuid_draws
  he_id_draws :: uuid_draws

definition in_db :: "(database, 'a) act \<Rightarrow> (http_world, 'a) act" where
  "in_db m = zoomA h_db (\<lambda>d w. w\<lparr>h_db := d\<rparr>) m"

definition in_publisher :: "(RabbitMQPublisher \<Rightarrow> RabbitMQPublisher) \<Rightarrow> (http_world, unit) act" where
  "in_publisher f = (\<lambda>w. (Inr (), w\<lparr>h_publisher := f (h_publisher w)\<rparr>))"

section \<open>JSON views\<close>

text \<open>Persistence of the connection is set later; a fresh response is keep-alive for HTTP/1.1.\<close>

definition jsonResponse :: "'j json_lib \<Rightarrow> nat \<Rightarrow> 'j \<Rightarrow> nat \<Rightarrow> exn + http_response" where
  "jsonResponse J status body version =
     bindE (j_dump J body) (\<lambda>out.
     Inr \<lparr>rs_status = status, rs_version = version, rs_server = ''notification-service'',
          rs_content_type = ''application/json'', rs_body = out, rs_keep_alive = version \<ge> 11\<rparr>)"

definition notificationToJson :: "'j json_lib \<Rightarrow> Notification \<Rightarrow> 'j" where
  "notificationToJson J n =
     j_obj J
       [(''id'', j_str J (n_id n)),
        (''idempotencyKey'', j_str J (n_idempotencyKey n)),
        (''channel'', j_str J (toString_Channel (n_channel n))),
        (''priority'', j_str J (toString_Priority (n_priority n))),
        (''recipient'', j_str J (n_recipient n)),
        (''subject'', j_str J (n_subject n)),
        (''status'', j_str J (toString_NotificationStatus (n_status n))),
        (''attemptCount'', j_num J (n_attemptCount n))]"

definition attemptToJson :: "'j json_lib \<Rightarrow> DeliveryAttempt \<Rightarrow> 'j" where
  "attemptToJson J a =
     (let result = j_obj J [(''attemptNumber'', j_num J (a_attemptNumber a)),
                            (''status'', j_str J (toString_AttemptStatus (a_status a)))];
          result = (case a_providerRef a of
                      Some r \<Rightarrow> j_set J result ''providerRef'' (j_str J r)
                    | None \<Rightarrow> j_set J result ''providerRef'' (j_null J));
          result = (case a_errorMessage a of
                      Some m \<Rightarrow> j_set J result ''errorMessage'' (j_str J m)
                    | None \<Rightarrow> j_set J result ''errorMessage'' (j_null J))
      in result)"

section \<open>The routes\<close>

text \<open>\<open>POST /api/notifications\<close>: reading the submission ...\<close>

definition parse_submission :: "'j http_env \<Rightarrow> string \<Rightarrow> exn + Notification" where
  "parse_submission V content =
     (let J = he_json V in
     bindE (j_parse J content) (\<lambda>j.
     bindE (j_value_str J j ''idempotencyKey'' (uuid4 (he_key_draws V))) (\<lambda>idempotencyKey.
     let n = Notification_default\<lparr>n_idempotencyKey := idempotencyKey\<rparr> in
     bindE (bindE (j_at_str J j ''channel'') channelFromString) (\<lambda>c. let n = n\<lparr>n_channel := c\<rparr> in
     bindE (j_value_str J j ''priority'' ''NORMAL'') (\<lambda>p. let n = n\<lparr>n_priority := priorityFromString p\<rparr> in
     bindE (j_at_str J j ''recipient'') (\<lambda>r. let n = n\<lparr>n_recipient := r\<rparr> in
     bindE (j_value_str J j ''subject'' '''') (\<lambda>s. let n = n\<lparr>n_subject := s\<rparr> in
     bindE (j_at_str J j ''body'') (\<lambda>b. Inr (n\<lparr>n_body := b\<rparr>)))))))))"

text \<open>... and the whole branch: store, publish, answer 202.\<close>

definition deliveryMessage :: "'j json_lib \<Rightarrow> Notification \<Rightarrow> 'j" where
  "deliveryMessage J saved =
     j_obj J [(''notificationId'', j_str J (n_id saved)), (''attemptNumber'', j_num J 1),
              (''priority'', j_num J (uint (priorityWeight (n_priority saved))))]"

definition post_notification :: "'j http_env \<Rightarrow> http_request \<Rightarrow> (http_world, http_response) act" where
  "post_notification V req =
     (let J = he_json V in
     bindA (liftE (parse_submission V (rq_body req))) (\<lambda>n.
     bindA (in_db (insertWithOutbox (he_db V) (he_id_draws V) n)) (\<lambda>saved.
     bindA (liftE (j_dump J (deliveryMessage J saved))) (\<lambda>msg.
     seqA (in_publisher (publishToExchange exchangeName (routingKey (n_channel saved)) msg
             (priorityWeight (n_priority saved))))
          (liftE (jsonResponse J 202 (notificationToJson J saved) (rq_version req)))))))"

definition api_notifications :: string where
  "api_notifications = ''/api/notifications''"

text \<open>\<open>target.rfind(p, 0) == 0\<close>\<close>

definition starts_with :: "string \<Rightarrow> string \<Rightarrow> bool" where
  "starts_with p target \<longleftrightarrow> take (length p) target = p"

definition get_notification :: "'j http_env \<Rightarrow> http_request \<Rightarrow> (http_world, http_response) act" where
  "get_notification V req =
     (let J = he_json V; i = drop (length (api_notifications @ ''/'')) (rq_target req) in
     bindA (in_db (findById (he_db V) i)) (\<lambda>maybeN.
       case maybeN of
         None \<Rightarrow> liftE (jsonResponse J 404 (j_obj J [(''error'', j_str J ''not found'')]) (rq_version req))
       | Some n \<Rightarrow>
           bindA (in_db (findByNotificationId (he_db V) i)) (\<lambda>attempts.
             let body = notificationToJson J n;
                 attemptsJson = j_arr J (map (attemptToJson J) attempts);
                 body = j_set J body ''deliveryAttempts'' attemptsJson
             in liftE (jsonResponse J 200 body (rq_version req)))))"

definition list_route :: "'j http_env \<Rightarrow> http_request \<Rightarrow> (http_world, http_response) act" where
  "list_route V req =
     (let J = he_json V in
     bindA (in_db (list_notifications (he_db V) None None 50 0)) (\<lambda>ns.
       liftE (jsonResponse J 200 (j_obj J [(''notifications'', j_arr J (map (notificationToJson J) ns))])
         (rq_version req))))"

definition dispatch :: "'j http_env \<Rightarrow> http_request \<Rightarrow> (http_world, http_response) act" where
  "dispatch V req =
     (if rq_method req = GetVerb \<and> rq_target req = ''/healthz'' then
        liftE (jsonResponse (he_json V) 200
          (j_obj (he_json V) [(''status'', j_str (he_json V) ''ok'')]) (rq_version req))
      else if rq_method req = PostVerb \<and> rq_target req = api_notifications then
        post_notification V req
      else if rq_method req = GetVerb \<and> starts_with (api_notifications @ ''/'') (rq_target req) then
        get_notification V req
      else if rq_method req = GetVerb \<and> starts_with api_notifications (rq_target req) then
        list_route V req
      else
        liftE (jsonResponse (he_json V) 404
          (j_obj (he_json V) [(''error'', j_str (he_json V) ''no such route'')]) (rq_version req)))"

definition error_response :: "'j json_lib \<Rightarrow> exn \<Rightarrow> nat \<Rightarrow> exn + http_response" where
  "error_response J ex version =
     jsonResponse J 400 (j_obj J [(''error'', j_str J (what ex))]) version"

definition handleConnection :: "'j http_env \<Rightarrow> http_request option \<Rightarrow> (http_world, unit) act" where
  "handleConnection V input =
     (case input of
        None \<Rightarrow> returnA ()
      | Some req \<Rightarrow>
          bindA (catchA (dispatch V req) (\<lambda>ex. liftE (error_response (he_json V) ex (rq_version req))))
            (\<lambda>res. \<lambda>w. (Inr (), w\<lparr>h_responses :=
                h_responses w @ [res\<lparr>rs_keep_alive := rq_keep_alive req\<rparr>]\<rparr>)))"

section \<open>The server\<close>

text \<open>
  One acceptor thread: \<open>accept\<close> yields a connection, fails because the acceptor was closed
  during shutdown, or fails otherwise. The events are the list; the first component tells
  whether the loop has returned (\<open>False\<close>: it waits for the next event). An exception leaving
  \<open>handleConnection\<close> leaves the loop too.
\<close>

datatype accept_event = Accepted "http_request option" | OperationAborted | AcceptError

fun acceptLoop :: "'j http_env \<Rightarrow> accept_event list \<Rightarrow> (http_world, bool) act" where
  "acceptLoop V [] = returnA False"
| "acceptLoop V (OperationAborted # es) = returnA True"
| "acceptLoop V (AcceptError # es) = acceptLoop V es"
| "acceptLoop V (Accepted input # es) = seqA (handleConnection V input) (acceptLoop V es)"

record HttpServer =
  hs_threads :: nat
  hs_accepting :: bool
  hs_io_stopped :: bool

definition newHttpServer :: HttpServer where
  "newHttpServer = \<lparr>hs_threads = 0, hs_accepting = True, hs_io_stopped = False\<rparr>"

definition hs_start :: "Config \<Rightarrow> HttpServer \<Rightarrow> HttpServer" where
  "hs_start config s = s\<lparr>hs_threads := hs_threads s + nat (httpThreads config)\<rparr>"

definition hs_stop :: "HttpServer \<Rightarrow> HttpServer" where
  "hs_stop s = (let s = s\<lparr>hs_accepting := False\<rparr>; s = s\<lparr>hs_io_stopped := True\<rparr> in s\<lparr>hs_threads := 0\<rparr>)"

definition destroyHttpServer :: "HttpServer \<Rightarrow> HttpServer" where
  "destroyHttpServer s = hs_stop s"

section \<open>Facts\<close>

lemma in_db_eq: "m (h_db w) = (r, d) \<Longrightarrow> in_db m w = (r, w\<lparr>h_db := d\<rparr>)"
  by (simp add: in_db_def zoomA_def)

lemma preserves_in_db:
  assumes "preserves P m" and "\<And>w. Q w \<Longrightarrow> P (h_db w)" and "\<And>w d. Q w \<Longrightarrow> P d \<Longrightarrow> Q (w\<lparr>h_db := d\<rparr>)"
  shows "preserves Q (in_db m)"
  unfolding in_db_def by (rule preserves_zoomA [OF assms(1)]) (auto intro: assms)

lemma handleConnection_eq:
  assumes "dispatch V req w = (r, w')"
  shows "handleConnection V (Some req) w =
    (case (case r of Inl ex \<Rightarrow> error_response (he_json V) ex (rq_version req) | Inr res \<Rightarrow> Inr res) of
       Inl e \<Rightarrow> (Inl e, w')
     | Inr res \<Rightarrow> (Inr (), w'\<lparr>h_responses :=
         h_responses w' @ [res\<lparr>rs_keep_alive := rq_keep_alive req\<rparr>]\<rparr>))"
  using assms by (simp add: handleConnection_def bindA_def catchA_def split: sum.splits)

lemma handleConnection_state:
  "snd (handleConnection V (Some req) w) = w' \<Longrightarrow>
   h_db w' = h_db (snd (dispatch V req w)) \<and> h_publisher w' = h_publisher (snd (dispatch V req w))"
  by (auto simp: handleConnection_def bindA_def catchA_def split: sum.splits prod.splits)

definition is_post :: "http_request \<Rightarrow> bool" where
  "is_post req \<longleftrightarrow> rq_method req = PostVerb \<and> rq_target req = api_notifications"

lemma dispatch_post: "is_post req \<Longrightarrow> dispatch V req = post_notification V req"
  by (simp add: dispatch_def is_post_def)

lemma post_cases:
  assumes "post_notification V req w = (r, w')"
  obtains (bad) ex where "parse_submission V (rq_body req) = Inl ex" "r = Inl ex" "w' = w"
  | (unsaved) n ex d where "parse_submission V (rq_body req) = Inr n"
      "insertWithOutbox (he_db V) (he_id_draws V) n (h_db w) = (Inl ex, d)"
      "r = Inl ex" "w' = w\<lparr>h_db := d\<rparr>"
  | (unprintable) n saved ex d where "parse_submission V (rq_body req) = Inr n"
      "insertWithOutbox (he_db V) (he_id_draws V) n (h_db w) = (Inr saved, d)"
      "j_dump (he_json V) (deliveryMessage (he_json V) saved) = Inl ex" "r = Inl ex" "w' = w\<lparr>h_db := d\<rparr>"
  | (published) n saved msg d where "parse_submission V (rq_body req) = Inr n"
      "insertWithOutbox (he_db V) (he_id_draws V) n (h_db w) = (Inr saved, d)"
      "j_dump (he_json V) (deliveryMessage (he_json V) saved) = Inr msg"
      "r = jsonResponse (he_json V) 202 (notificationToJson (he_json V) saved) (rq_version req)"
      "w' = w\<lparr>h_db := d, h_publisher := publishToExchange exchangeName (routingKey (n_channel saved)) msg
             (priorityWeight (n_priority saved)) (h_publisher w)\<rparr>"
proof (cases "parse_submission V (rq_body req)")
  case (Inl ex)
  then show ?thesis using assms bad by (simp add: post_notification_def Let_def bindA_def)
next
  case (Inr n)
  obtain o1 d where i: "insertWithOutbox (he_db V) (he_id_draws V) n (h_db w) = (o1, d)"
    by (cases "insertWithOutbox (he_db V) (he_id_draws V) n (h_db w)")
  show ?thesis
  proof (cases o1)
    case (Inl ex)
    then show ?thesis
      using assms i Inr unsaved by (simp add: post_notification_def Let_def bindA_def in_db_def zoomA_def)
  next
    case s: (Inr saved)
    show ?thesis
    proof (cases "j_dump (he_json V) (deliveryMessage (he_json V) saved)")
      case (Inl ex)
      then show ?thesis
        using assms i s Inr unprintable by (simp add: post_notification_def Let_def bindA_def in_db_def zoomA_def)
    next
      case m: (Inr msg)
      then show ?thesis
        using assms i s Inr published
        by (simp add: post_notification_def Let_def bindA_def seqA_def in_db_def in_publisher_def zoomA_def)
    qed
  qed
qed

section \<open>Submissions\<close>

definition submission_fields ::
  "'j json_lib \<Rightarrow> string \<Rightarrow> Channel \<Rightarrow> Priority \<Rightarrow> string \<Rightarrow> string \<Rightarrow> string \<Rightarrow> (string \<times> 'j) list" where
  "submission_fields J key c pr recipient subject content =
     [(''idempotencyKey'', j_str J key), (''channel'', j_str J (toString_Channel c)),
      (''priority'', j_str J (toString_Priority pr)), (''recipient'', j_str J recipient),
      (''subject'', j_str J subject), (''body'', j_str J content)]"

lemma parse_submission_fields:
  assumes "json_laws (he_json V)"
    and "j_dump (he_json V) (j_obj (he_json V) (submission_fields (he_json V) key c pr rc sb ct)) = Inr text'"
  shows "parse_submission V text' = Inr (Notification_default\<lparr>n_idempotencyKey := key, n_channel := c,
    n_priority := pr, n_recipient := rc, n_subject := sb, n_body := ct\<rparr>)"
proof -
  let ?J = "he_json V"
  let ?kvs = "submission_fields ?J key c pr rc sb ct"
  have d: "distinct (map fst ?kvs)" by (simp add: submission_fields_def)
  have at: "j_at_str ?J (j_obj ?J ?kvs) ''channel'' = Inr (toString_Channel c)"
    "j_at_str ?J (j_obj ?J ?kvs) ''recipient'' = Inr rc" "j_at_str ?J (j_obj ?J ?kvs) ''body'' = Inr ct"
    by (rule json_at_str [OF assms(1) d]; simp add: submission_fields_def)+
  have v: "j_value_str ?J (j_obj ?J ?kvs) ''idempotencyKey'' x = Inr key"
    "j_value_str ?J (j_obj ?J ?kvs) ''priority'' x = Inr (toString_Priority pr)"
    "j_value_str ?J (j_obj ?J ?kvs) ''subject'' x = Inr sb" for x
    by (rule json_value_str(1) [OF assms(1) d]; simp add: submission_fields_def)+
  show ?thesis
    by (simp add: parse_submission_def Let_def json_parse_dump [OF assms] at v)
qed

lemma saved_row:
  assumes "insertWithOutbox E u n d = (Inr saved, d')"
  shows "\<exists>row\<in>set (notifications d'). r_id row = n_id saved \<and>
    r_channel row = toString_Channel (n_channel saved)"
  using assms
proof (cases rule: insertWithOutbox_cases)
  case (existing row m)
  then have "row \<in> set (notifications d')"
    using select_by_key_SomeD [of E _ d row] by (auto simp: same_tables_def)
  moreover have "r_id row = n_id saved \<and> r_channel row = toString_Channel (n_channel saved)"
    using existing rowToNotification_fields [of row m] by simp
  ultimately show ?thesis by blast
next
  case (fresh m)
  then show ?thesis
    by (intro bexI [of _ "inserted_row m (db_now d)"])
      (simp_all add: with_inserted_def inserted_row_def newRow_def)
qed simp

lemma decode_deliveryMessage:
  assumes "json_laws J" "j_dump J (deliveryMessage J saved) = Inr msg"
  shows "decode J msg = Inr (n_id saved, 1, priorityWeight (n_priority saved))"
proof -
  have "deliveryMessage J saved =
      j_obj J (delivery_fields J (n_id saved) 1 (priorityWeight (n_priority saved)))"
    by (simp add: deliveryMessage_def delivery_fields_def)
  then show ?thesis using decode_delivery [OF assms(1)] assms(2) by (simp add: int32_range_def)
qed

section \<open>Reading routes\<close>

definition quiet :: "database \<Rightarrow> RabbitMQPublisher \<Rightarrow> http_world \<Rightarrow> bool" where
  "quiet d p w \<longleftrightarrow> same_tables (h_db w) d \<and> h_publisher w = p"

lemma quiet_in_db: "preserves (\<lambda>e. same_tables e d) m \<Longrightarrow> preserves (quiet d p) (in_db m)"
  by (erule preserves_in_db) (simp_all add: quiet_def)

lemma same_tables_pop [simp]: "same_tables (pop_fault e) d \<longleftrightarrow> same_tables e d"
  by (simp add: same_tables_def)

lemma reads_same_tables:
  "preserves (\<lambda>e. same_tables e d) (findById E i)"
  "preserves (\<lambda>e. same_tables e d) (findByNotificationId E i)"
  "preserves (\<lambda>e. same_tables e d) (list_notifications E st c l off)"
  by (simp add: preserves_def, simp add: preserves_def,
      unfold list_notifications_def, intro preserves_intros preserves_query, simp)

lemma dispatch_quiet: "\<not> is_post req \<Longrightarrow> preserves (quiet d p) (dispatch V req)"
  unfolding dispatch_def get_notification_def list_route_def is_post_def Let_def
  by (auto intro!: preserves_intros quiet_in_db reads_same_tables)

lemma dispatch_schema: "preserves (\<lambda>w. schema_inv (he_db V) (h_db w)) (dispatch V req)"
proof (cases "is_post req")
  case True
  show ?thesis
    unfolding dispatch_post [OF True] post_notification_def Let_def
    by (intro preserves_intros preserves_in_db [OF insertWithOutbox_preserves])
      (simp_all add: preserves_def in_publisher_def)
next
  case False
  show ?thesis
  proof (rule preservesI)
    fix w r t assume "schema_inv (he_db V) (h_db w)" "dispatch V req w = (r, t)"
    then show "schema_inv (he_db V) (h_db t)"
      using preservesD [OF dispatch_quiet [OF False], of "h_db w" "h_publisher w" w V r t]
        schema_inv_same_tables by (auto simp: quiet_def)
  qed
qed

lemma handleConnection_schema:
  assumes "schema_inv (he_db V) (h_db w)" "handleConnection V input w = (r, w')"
  shows "schema_inv (he_db V) (h_db w')"
proof (cases input)
  case None
  with assms show ?thesis by (simp add: handleConnection_def)
next
  case (Some req)
  with assms(2) have "h_db w' = h_db (snd (dispatch V req w))"
    using handleConnection_state [of V req w w'] by simp
  then show ?thesis using preserves_snd [OF dispatch_schema assms(1)] by simp
qed

section \<open>Responses\<close>

text \<open>Only \<open>handleConnection\<close> writes a response; the statuses of the routes.\<close>

lemma dispatch_silent: "preserves (\<lambda>w. h_responses w = rs) (dispatch V req)"
proof -
  have db: "preserves (\<lambda>w. h_responses w = rs) (in_db m)" for m :: "(database, 'b) act"
    by (auto simp: preserves_def in_db_def zoomA_def split: prod.splits)
  have pub: "preserves (\<lambda>w. h_responses w = rs) (in_publisher f)" for f
    by (simp add: preserves_def in_publisher_def)
  show ?thesis
    unfolding dispatch_def post_notification_def get_notification_def list_route_def Let_def
    by (auto intro!: preserves_intros db pub)
qed

lemma jsonResponse_fields:
  "jsonResponse J st body v = Inr res \<Longrightarrow> rs_status res = st \<and> rs_version res = v"
  by (auto simp: jsonResponse_def bindE_eq_Inr)

lemma dispatch_status:
  "dispatch V req w = (Inr res, w') \<Longrightarrow> rs_status res \<in> {200, 202, 404} \<and> rs_version res = rq_version req"
  by (auto simp: dispatch_def post_notification_def get_notification_def list_route_def Let_def bindA_def seqA_def
      in_publisher_def dest!: jsonResponse_fields split: if_splits prod.splits sum.splits option.splits)

lemma handleConnection_responses:
  assumes "handleConnection V (Some req) w = (r, w')"
  shows "(\<exists>ex. r = Inl ex) \<and> h_responses w' = h_responses w \<or>
    r = Inr () \<and> (\<exists>res. h_responses w' = h_responses w @ [res] \<and> rs_status res \<in> {200, 202, 400, 404} \<and>
      rs_version res = rq_version req \<and> rs_keep_alive res = rq_keep_alive req)"
proof -
  obtain r1 w1 where d: "dispatch V req w = (r1, w1)" by (cases "dispatch V req w")
  have same: "h_responses w1 = h_responses w" using preservesD [OF dispatch_silent _ d] by blast
  show ?thesis
  proof (cases r1)
    case (Inl ex)
    then show ?thesis
      using assms handleConnection_eq [OF d] same
      by (auto simp: error_response_def dest!: jsonResponse_fields split: sum.splits)
  next
    case (Inr res)
    then show ?thesis using assms handleConnection_eq [OF d] same dispatch_status [of V req w res w1] d by auto
  qed
qed

section \<open>Properties\<close>

text \<open>One message more, about a notification that is stored, under its channel's routing key.\<close>

definition announces :: "'j http_env \<Rightarrow> http_world \<Rightarrow> http_world \<Rightarrow> bool" where
  "announces V w w' \<longleftrightarrow> (\<exists>row c msg pr. row \<in> set (notifications (h_db w')) \<and>
     r_channel row = toString_Channel c \<and>
     j_dump (he_json V) (j_obj (he_json V) (delivery_fields (he_json V) (r_id row) 1 pr)) = Inr msg \<and>
     pub_ops (h_publisher w') =
       pub_ops (h_publisher w) @ [Publish exchangeName (routingKey c) (message msg pr)])"

text \<open>C31: safety of the API under every input and every failure. Handling a connection keeps
  the schema invariant; a request that is not a submission changes no table and publishes
  nothing; a submission publishes at most one message, to the exchange under its channel's
  routing key, and only for a notification that is stored by then; and the client gets exactly
  one response, with status 200, 202, 400 or 404, when a request could be read and no exception
  leaves the handler, and none otherwise.\<close>

theorem handleConnection_safe:
  assumes "schema_inv (he_db V) (h_db w)" and "handleConnection V input w = (r, w')"
  shows "schema_inv (he_db V) (h_db w') \<and>
    (same_tables (h_db w') (h_db w) \<or> (\<exists>req. input = Some req \<and> is_post req)) \<and>
    (h_publisher w' = h_publisher w \<or> (\<exists>req. input = Some req \<and> is_post req) \<and> announces V w w') \<and>
    (case (input, r) of
       (Some req, Inr u) \<Rightarrow> \<exists>res. h_responses w' = h_responses w @ [res] \<and> rs_status res \<in> {200, 202, 400, 404} \<and>
         rs_version res = rq_version req \<and> rs_keep_alive res = rq_keep_alive req
     | _ \<Rightarrow> h_responses w' = h_responses w)"
proof (cases input)
  case None
  with assms show ?thesis by (simp add: handleConnection_def)
next
  case (Some req)
  obtain r1 w1 where d: "dispatch V req w = (r1, w1)" by (cases "dispatch V req w")
  have s: "h_db w' = h_db w1" "h_publisher w' = h_publisher w1"
    using handleConnection_state [of V req w w'] assms(2) Some d by simp_all
  have inv: "schema_inv (he_db V) (h_db w1)"
    using preservesD [OF dispatch_schema assms(1) d] .
  have resp: "case (input, r) of
       (Some req, Inr u) \<Rightarrow> \<exists>res. h_responses w' = h_responses w @ [res] \<and> rs_status res \<in> {200, 202, 400, 404} \<and>
         rs_version res = rq_version req \<and> rs_keep_alive res = rq_keep_alive req
     | _ \<Rightarrow> h_responses w' = h_responses w"
    using handleConnection_responses [OF assms(2) [unfolded Some]] by (auto simp: Some)
  have "schema_inv (he_db V) (h_db w') \<and>
    (same_tables (h_db w') (h_db w) \<or> (\<exists>req. input = Some req \<and> is_post req)) \<and>
    (h_publisher w' = h_publisher w \<or> (\<exists>req. input = Some req \<and> is_post req) \<and> announces V w w')"
  proof (cases "is_post req")
    case False
    then have "quiet (h_db w) (h_publisher w) w1"
      using preservesD [OF dispatch_quiet [OF False] _ d, of "h_db w" "h_publisher w"]
      by (simp add: quiet_def)
    then show ?thesis using inv by (simp add: s quiet_def)
  next
    case True
    with d have "post_notification V req w = (r1, w1)" by (simp add: dispatch_post)
    then show ?thesis
    proof (cases rule: post_cases)
      case (published n saved msg d)
      obtain row where row: "row \<in> set (notifications d)" "r_id row = n_id saved"
          "r_channel row = toString_Channel (n_channel saved)"
        using saved_row [OF published(2)] by blast
      have "j_dump (he_json V) (j_obj (he_json V) (delivery_fields (he_json V) (r_id row) 1
          (priorityWeight (n_priority saved)))) = Inr msg"
        using published(3) by (simp add: deliveryMessage_def delivery_fields_def row(2))
      moreover have "pub_ops (h_publisher w') = pub_ops (h_publisher w) @
          [Publish exchangeName (routingKey (n_channel saved))
             (message msg (priorityWeight (n_priority saved)))]" "h_db w' = d"
        by (simp_all add: s published(5))
      ultimately have "announces V w w'" unfolding announces_def using row by blast
      then show ?thesis using inv True Some by (simp add: s)
    qed (use inv True Some in \<open>auto simp: s\<close>)
  qed
  with resp show ?thesis by blast
qed

lemma post_publishes:
  assumes "json_laws (he_json V)" and "is_post req"
    and "parse_submission V (rq_body req) = Inr n"
    and "insertWithOutbox (he_db V) (he_id_draws V) n (h_db w) = (Inr saved, d)"
    and "j_dump (he_json V) (deliveryMessage (he_json V) saved) = Inr msg"
    and "j_dump (he_json V) (notificationToJson (he_json V) saved) = Inr out"
  shows "\<exists>w' res. handleConnection V (Some req) w = (Inr (), w') \<and> h_db w' = d \<and>
    h_responses w' = h_responses w @ [res] \<and> rs_status res = 202 \<and> rs_body res = out \<and>
    pub_ops (h_publisher w') = pub_ops (h_publisher w) @
      [Publish exchangeName (routingKey (n_channel saved)) (message msg (priorityWeight (n_priority saved)))] \<and>
    decode (he_json V) msg = Inr (n_id saved, 1, priorityWeight (n_priority saved))"
proof -
  let ?w1 = "w\<lparr>h_db := d, h_publisher := publishToExchange exchangeName (routingKey (n_channel saved)) msg
             (priorityWeight (n_priority saved)) (h_publisher w)\<rparr>"
  obtain res where res: "jsonResponse (he_json V) 202 (notificationToJson (he_json V) saved) (rq_version req)
      = Inr res" "rs_status res = 202" "rs_body res = out"
    by (simp add: jsonResponse_def assms(6))
  have "dispatch V req w = (Inr res, ?w1)"
    using assms(3-5) res(1)
    by (simp add: dispatch_post [OF assms(2)] post_notification_def Let_def bindA_def seqA_def in_db_def
        in_publisher_def zoomA_def)
  from handleConnection_eq [OF this] show ?thesis
    using res decode_deliveryMessage [OF assms(1,5)] by simp
qed

text \<open>C29: an accepted submission. When the body parses, the insertion returns and the texts can
  be printed, the client gets one 202 response showing the stored notification, and exactly
  one persistent message is published, with the priority's weight; the broker puts it into
  the main queue of the notification's channel and no other, and the worker decodes it to
  that notification, attempt 1, and that weight.\<close>

theorem post_accepted:
  assumes "json_laws (he_json V)" "broker_laws route" and "is_post req"
    and "parse_submission V (rq_body req) = Inr n"
    and "insertWithOutbox (he_db V) (he_id_draws V) n (h_db w) = (Inr saved, d)"
    and "j_dump (he_json V) (deliveryMessage (he_json V) saved) = Inr msg"
    and "j_dump (he_json V) (notificationToJson (he_json V) saved) = Inr out"
  shows "\<exists>w' res. handleConnection V (Some req) w = (Inr (), w') \<and> h_db w' = d \<and>
    h_responses w' = h_responses w @ [res] \<and> rs_status res = 202 \<and> rs_body res = out \<and>
    pub_ops (h_publisher w') = pub_ops (h_publisher w) @
      [Publish exchangeName (routingKey (n_channel saved)) (message msg (priorityWeight (n_priority saved)))] \<and>
    route (declareAll config) exchangeName (routingKey (n_channel saved)) = [mainQueue (n_channel saved)] \<and>
    decode (he_json V) msg = Inr (n_id saved, 1, priorityWeight (n_priority saved))"
  using post_publishes [OF assms(1,3-7)] route_main [OF assms(2), of config "n_channel saved"] by auto

text \<open>A concrete submission for witnesses.\<close>

definition sample_http :: "string http_env" where
  "sample_http = \<lparr>he_db = plain_env, he_json = chunk_json, he_key_draws = zero_draws,
     he_id_draws = zero_draws\<rparr>"

definition sample_request :: "string \<Rightarrow> http_request" where
  "sample_request content = \<lparr>rq_method = PostVerb, rq_target = ''/api/notifications'',
     rq_body = chunk_obj (submission_fields chunk_json ''k1'' Sms High ''r'' '''' content),
     rq_version = 11, rq_keep_alive = False\<rparr>"

definition http_at :: "database \<Rightarrow> http_world" where
  "http_at d = \<lparr>h_db = d, h_publisher = newPublisher Config_default, h_responses = []\<rparr>"

lemma chunk_dump: "j_dump chunk_json (j_obj chunk_json kvs) = Inr (chunk_obj kvs)"
  by (simp add: chunk_json_def chunk_parse_def chunk_obj_def)

lemma sample_parse:
  "parse_submission sample_http (rq_body (sample_request content)) =
     Inr (sample_notification\<lparr>n_body := content\<rparr>)"
  using parse_submission_fields [of sample_http "''k1''" Sms High "''r''" "''''" content
      "chunk_obj (submission_fields chunk_json ''k1'' Sms High ''r'' '''' content)"]
  by (simp add: sample_http_def chunk_dump json_laws_chunk_json sample_request_def
      sample_notification_def Notification_default_def)

lemma sample_is_post: "is_post (sample_request content)"
  by (simp add: is_post_def sample_request_def api_notifications_def)

lemma sample_body_b: "sample_notification\<lparr>n_body := ''b''\<rparr> = sample_notification"
  by (simp add: sample_notification_def)

theorem post_accepted_witness:
  "\<exists>w' res. handleConnection sample_http (Some (sample_request ''b'')) (http_at db_empty) = (Inr (), w') \<and>
     h_db w' = sample_db \<and> h_responses w' = [res] \<and> rs_status res = 202"
proof -
  obtain out msg where "j_dump chunk_json (notificationToJson chunk_json sample_saved) = Inr out"
    "j_dump chunk_json (deliveryMessage chunk_json sample_saved) = Inr msg"
    by (simp add: notificationToJson_def deliveryMessage_def chunk_dump)
  then show ?thesis
    using post_accepted [of sample_http simple_broker "sample_request ''b''" sample_notification
        "http_at db_empty" sample_saved sample_db msg out Config_default]
      sample_parse [of "''b''"] sample_insert
    by (auto simp: json_laws_chunk_json broker_laws_simple sample_is_post sample_body_b http_at_def
        sample_http_def)
qed

theorem handleConnection_safe_witness:
  "\<exists>r w'. handleConnection sample_http (Some (sample_request ''b'')) (http_at sample_db) = (r, w') \<and>
     schema_inv plain_env (h_db w') \<and> length (h_responses w') \<le> 1 \<and> length (pub_ops (h_publisher w')) \<le> 2"
proof -
  obtain r w' where h: "handleConnection sample_http (Some (sample_request ''b'')) (http_at sample_db) = (r, w')"
    by (cases "handleConnection sample_http (Some (sample_request ''b'')) (http_at sample_db)")
  have "schema_inv (he_db sample_http) (h_db (http_at sample_db))"
    by (simp add: schema_inv_sample sample_http_def http_at_def)
  from handleConnection_safe [OF this h] show ?thesis
    using h by (auto simp: announces_def sample_http_def http_at_def newPublisher_def split: sum.splits)
qed

text \<open>C32: a rejected submission. When the body does not parse to a submission (bad JSON, missing
  field, unknown channel) or the insertion throws, no table changes and nothing is published. If
  the text of the error can be printed as JSON, the client gets one 400 response carrying it. If
  it cannot (the message of a parse error repeats the client's bytes, and \<open>dump\<close> rejects what
  is not UTF-8), the exception of \<open>dump\<close> leaves the \<open>catch\<close> block, \<open>handleConnection\<close> and
  the acceptor's thread: there is no response, and the process ends.\<close>

theorem post_rejected:
  assumes "is_post req"
    and "parse_submission V (rq_body req) = Inl ex \<or>
      (\<exists>n. parse_submission V (rq_body req) = Inr n \<and>
           fst (insertWithOutbox (he_db V) (he_id_draws V) n (h_db w)) = Inl ex)"
  shows "\<exists>w'. same_tables (h_db w') (h_db w) \<and> h_publisher w' = h_publisher w \<and>
    (case j_dump (he_json V) (j_obj (he_json V) [(''error'', j_str (he_json V) (what ex))]) of
       Inr out \<Rightarrow> handleConnection V (Some req) w = (Inr (), w') \<and>
         (\<exists>res. h_responses w' = h_responses w @ [res] \<and> rs_status res = 400 \<and> rs_body res = out)
     | Inl ex' \<Rightarrow> handleConnection V (Some req) w = (Inl ex', w') \<and> h_responses w' = h_responses w \<and>
         (\<forall>es. acceptLoop V (Accepted (Some req) # es) w = (Inl ex', w')))"
proof -
  obtain r1 w1 where d: "dispatch V req w = (r1, w1)" by (cases "dispatch V req w")
  then have p: "post_notification V req w = (r1, w1)" by (simp add: dispatch_post [OF assms(1)])
  have r1: "r1 = Inl ex \<and> same_tables (h_db w1) (h_db w) \<and> h_publisher w1 = h_publisher w \<and>
      h_responses w1 = h_responses w"
    using p
  proof (cases rule: post_cases)
    case (unsaved n ex' e)
    have "same_tables e (h_db w)"
      using unsaved(2) by (cases rule: insertWithOutbox_cases) simp_all
    then show ?thesis using unsaved assms(2) by simp
  qed (use assms(2) in auto)
  note eq = handleConnection_eq [OF d]
  show ?thesis
  proof (cases "j_dump (he_json V) (j_obj (he_json V) [(''error'', j_str (he_json V) (what ex))])")
    case (Inl ex')
    then have "handleConnection V (Some req) w = (Inl ex', w1)"
      using eq r1 by (simp add: error_response_def jsonResponse_def)
    then show ?thesis using Inl r1 by (intro exI [of _ w1]) (simp add: seqA_Inl)
  next
    case (Inr out)
    then show ?thesis using eq r1 by (simp add: error_response_def jsonResponse_def)
  qed
qed

text \<open>The witness: a body that is not JSON, with a library that prints the error, and with one
  that cannot print it.\<close>

theorem post_rejected_witness:
  "(\<exists>w' res. handleConnection sample_http
       (Some ((sample_request ''b'')\<lparr>rq_body := ''?''\<rparr>)) (http_at sample_db) = (Inr (), w') \<and>
     h_responses w' = [res] \<and> rs_status res = 400 \<and> same_tables (h_db w') sample_db) \<and>
   (let J = chunk_json\<lparr>j_dump := (\<lambda>_. Inl (JsonException ''invalid UTF-8 byte''))\<rparr> in
    \<exists>w'. handleConnection (sample_http\<lparr>he_json := J\<rparr>)
       (Some ((sample_request ''b'')\<lparr>rq_body := ''?''\<rparr>)) (http_at sample_db) =
         (Inl (JsonException ''invalid UTF-8 byte''), w') \<and> h_responses w' = [])"
proof -
  let ?req = "(sample_request ''b'')\<lparr>rq_body := ''?''\<rparr>" and ?ex = "JsonException ''parse error''"
  let ?V = "sample_http\<lparr>he_json := chunk_json\<lparr>j_dump := (\<lambda>_. Inl (JsonException ''invalid UTF-8 byte''))\<rparr>\<rparr>"
  have p: "parse_submission sample_http (rq_body ?req) = Inl ?ex" "parse_submission ?V (rq_body ?req) = Inl ?ex"
    by (simp_all add: parse_submission_def sample_http_def chunk_json_def chunk_parse_def)
  have post: "is_post ?req" using sample_is_post [of "''b''"] by (simp add: is_post_def)
  show ?thesis
    using post_rejected [OF post disjI1 [OF p(1)], of "http_at sample_db"]
      post_rejected [OF post disjI1 [OF p(2)], of "http_at sample_db"]
    by (auto simp: sample_http_def chunk_dump http_at_def)
qed

text \<open>C30: submitting the same idempotency key again stores nothing, but publishes again. When
  a notification with the key exists, whatever its status and whatever else the new request
  says, no table changes and the client gets 202 with the stored notification, and yet one more
  delivery message for that notification, attempt 1, goes out. The worker's status check is
  all that keeps it from being sent twice.\<close>

theorem repost_publishes_again:
  assumes "json_laws (he_json V)" and "is_post req" and "no_fault (h_db w)"
    and "parse_submission V (rq_body req) = Inr n"
    and "select_by_key (he_db V) (n_idempotencyKey n) (h_db w) = Some row" and "rowToNotification row = Inr old"
    and "j_dump (he_json V) (deliveryMessage (he_json V) old) = Inr msg"
    and "j_dump (he_json V) (notificationToJson (he_json V) old) = Inr out"
  shows "\<exists>w' res. handleConnection V (Some req) w = (Inr (), w') \<and> same_tables (h_db w') (h_db w) \<and>
    h_responses w' = h_responses w @ [res] \<and> rs_status res = 202 \<and> rs_body res = out \<and>
    pub_ops (h_publisher w') = pub_ops (h_publisher w) @
      [Publish exchangeName (routingKey (n_channel old)) (message msg (priorityWeight (n_priority old)))] \<and>
    decode (he_json V) msg = Inr (r_id row, 1, priorityWeight (n_priority old))"
proof -
  have "insertWithOutbox (he_db V) (he_id_draws V) n (h_db w) = (Inr old, pop_fault (h_db w))"
    using findByIdempotencyKey_some [OF assms(3,5,6)] by (simp add: insertWithOutbox_def bindA_def)
  from post_publishes [OF assms(1,2,4) this assms(7,8)]
  show ?thesis using rowToNotification_fields(1) [OF assms(6)] by fastforce
qed

theorem repost_publishes_again_witness:
  "\<exists>w' msg. handleConnection sample_http (Some (sample_request ''other'')) (http_at sample_db) = (Inr (), w') \<and>
     same_tables (h_db w') sample_db \<and>
     pub_ops (h_publisher w') = [ConfirmSelect, Publish exchangeName ''notification.sms'' (message msg 5)]"
proof -
  obtain out msg where d: "j_dump (he_json sample_http) (notificationToJson (he_json sample_http) sample_saved) = Inr out"
    "j_dump (he_json sample_http) (deliveryMessage (he_json sample_http) sample_saved) = Inr msg"
    by (simp add: notificationToJson_def deliveryMessage_def chunk_dump sample_http_def)
  have key: "select_by_key (he_db sample_http) (n_idempotencyKey (sample_notification\<lparr>n_body := ''other''\<rparr>))
      (h_db (http_at sample_db)) = Some (inserted_row sample_saved 0)"
    by (simp add: select_by_key_def sample_db_def inserted_row_def newRow_def sample_saved_def
        sample_notification_def same_key_def plain_env_def sample_http_def http_at_def)
  have laws: "json_laws (he_json sample_http)" by (simp add: sample_http_def json_laws_chunk_json)
  have nf: "no_fault (h_db (http_at sample_db))" by (simp add: sample_db_def db_empty_def http_at_def)
  have "n_channel sample_saved = Sms" "n_priority sample_saved = High"
    by (simp_all add: sample_saved_def sample_notification_def)
  then show ?thesis
    using repost_publishes_again [OF laws sample_is_post nf sample_parse key sample_read d(2,1)]
    by (auto simp: http_at_def newPublisher_def)
qed

section \<open>Fetching\<close>

definition get_request :: "string \<Rightarrow> http_request" where
  "get_request target = \<lparr>rq_method = GetVerb, rq_target = target, rq_body = '''', rq_version = 11,
     rq_keep_alive = False\<rparr>"

lemma dispatch_get:
  assumes "rq_method req = GetVerb" "rq_target req = api_notifications @ ''/'' @ i"
  shows "dispatch V req = get_notification V req"
  using assms by (simp add: dispatch_def starts_with_def api_notifications_def)

lemma dispatch_list:
  assumes "rq_method req = GetVerb" "starts_with api_notifications (rq_target req)"
    and "\<not> starts_with (api_notifications @ ''/'') (rq_target req)"
  shows "dispatch V req = list_route V req"
proof -
  have "rq_target req \<noteq> ''/healthz''"
    using assms(2) by (auto simp: starts_with_def api_notifications_def)
  then show ?thesis using assms by (simp add: dispatch_def)
qed

text \<open>C37: fetching one notification. Without database faults, \<open>GET /api/notifications/{id}\<close> of a
  stored notification answers 200 with its JSON extended by the JSON of its attempts: each of
  the stored rows of that notification once, parsed, in strictly ascending attempt number,
  whatever the order the rows were stored in. (Attempt numbers that fit an int: C17.)\<close>

theorem get_notification_history:
  assumes "schema_inv (he_db V) (h_db w)" "fault_free (h_db w)"
    and "rq_method req = GetVerb" "rq_target req = ''/api/notifications/'' @ i"
    and "select_by_id (he_db V) i (h_db w) = Some row" "rowToNotification row = Inr n"
    and "\<forall>b\<in>set (delivery_attempts (h_db w)). t_attempt_number b < 2 ^ 31"
  shows "\<exists>as.
    mset (map Inr as) = image_mset rowToAttempt
      (mset (filter (\<lambda>b. same_key (he_db V) (t_notification_id b) i) (delivery_attempts (h_db w)))) \<and>
    sorted_wrt (<) (map a_attemptNumber as) \<and>
    (\<forall>out. j_dump (he_json V) (j_set (he_json V) (notificationToJson (he_json V) n) ''deliveryAttempts''
           (j_arr (he_json V) (map (attemptToJson (he_json V)) as))) = Inr out \<longrightarrow>
       (\<exists>w' res. handleConnection V (Some req) w = (Inr (), w') \<and> same_tables (h_db w') (h_db w) \<and>
          h_publisher w' = h_publisher w \<and> h_responses w' = h_responses w @ [res] \<and>
          rs_status res = 200 \<and> rs_body res = out))"
proof -
  let ?d1 = "pop_fault (h_db w)" and ?J = "he_json V"
  have f: "findById (he_db V) i (h_db w) = (Inr (Some n), ?d1)"
    by (rule findById_some [OF fault_free_no_fault [OF assms(2)] assms(5,6)])
  have nf: "no_fault ?d1" by (rule fault_free_no_fault) (simp add: assms(2))
  have key: "key_inv (he_db V) ?d1" using assms(1) by (simp add: schema_inv_def key_inv_def)
  have "\<forall>b\<in>set (select_attempts (he_db V) i ?d1). t_attempt_number b < 2 ^ 31"
    using assms(7) by (simp add: select_attempts_def)
  from findByNotificationId_ascending [OF key nf this] obtain as where
    a: "findByNotificationId (he_db V) i ?d1 = (Inr as, pop_fault ?d1)"
      "sorted (map a_attemptNumber as)" "distinct (map a_attemptNumber as)"
      "map Inr as = map rowToAttempt (select_attempts (he_db V) i ?d1)" by blast
  have all: "mset (map Inr as) = image_mset rowToAttempt
      (mset (filter (\<lambda>b. same_key (he_db V) (t_notification_id b) i) (delivery_attempts (h_db w))))"
    unfolding a(4) by (simp add: select_attempts_def)
  have asc: "sorted_wrt (<) (map a_attemptNumber as)" using a(2,3) by (simp add: strict_sorted_iff)
  have "\<exists>w' res. handleConnection V (Some req) w = (Inr (), w') \<and> same_tables (h_db w') (h_db w) \<and>
      h_publisher w' = h_publisher w \<and> h_responses w' = h_responses w @ [res] \<and>
      rs_status res = 200 \<and> rs_body res = out"
    if out: "j_dump ?J (j_set ?J (notificationToJson ?J n) ''deliveryAttempts''
           (j_arr ?J (map (attemptToJson ?J) as))) = Inr out" for out
  proof -
    obtain res where res: "jsonResponse ?J 200 (j_set ?J (notificationToJson ?J n)
        ''deliveryAttempts'' (j_arr ?J (map (attemptToJson ?J) as))) (rq_version req) = Inr res"
      "rs_status res = 200" "rs_body res = out"
      by (simp add: jsonResponse_def out)
    have i: "drop (length (api_notifications @ ''/'')) (rq_target req) = i"
      by (simp add: api_notifications_def assms(4))
    have "dispatch V req = get_notification V req"
      by (rule dispatch_get [OF assms(3), of i]) (simp add: assms(4) api_notifications_def)
    then have "dispatch V req w = (Inr res, w\<lparr>h_db := pop_fault ?d1\<rparr>)"
      using res(1) unfolding get_notification_def i Let_def
      by (simp add: bindA_def in_db_def zoomA_def f a(1))
    from handleConnection_eq [OF this] res show ?thesis by simp
  qed
  with all asc show ?thesis by blast
qed

text \<open>Two attempts that were recorded in the wrong order.\<close>

definition sample_numbered :: "int \<Rightarrow> DeliveryAttempt" where
  "sample_numbered k = (sample_attempt TransientFailure None)\<lparr>a_attemptNumber := k\<rparr>"

definition sample_two_attempts :: database where
  "sample_two_attempts = sample_db\<lparr>next_attempt_id := 3, delivery_attempts :=
     [(attemptRow (sample_numbered 2))\<lparr>t_id := 1, t_attempt_number := 2\<rparr>,
      (attemptRow (sample_numbered 1))\<lparr>t_id := 2, t_attempt_number := 1\<rparr>]\<rparr>"

lemma sample_two_recorded:
  "record_attempt plain_env (sample_numbered 1) (snd (record_attempt plain_env (sample_numbered 2) sample_db)) =
     (Inr (), sample_two_attempts)"
  by (simp add: record_attempt_def execute_no_fault sample_two_attempts_def sample_db_def db_empty_def
      upsert_attempt_def pop_fault_def attemptRow_def sample_attempt_def sample_numbered_def
      DeliveryAttempt_default_def varchar_null_def uint32_max_def inserted_row_def same_key_def
      newRow_id plain_env_def same_attempt_def Let_def)

theorem get_notification_history_witness:
  "\<exists>as w' res. map a_attemptNumber as = [1, 2] \<and> handleConnection sample_http
       (Some (get_request (''/api/notifications/'' @ n_id sample_saved))) (http_at sample_two_attempts) = (Inr (), w') \<and>
     h_responses w' = [res] \<and> rs_status res = 200 \<and>
     Inr (rs_body res) = j_dump chunk_json (j_set chunk_json (notificationToJson chunk_json sample_saved)
       ''deliveryAttempts'' (j_arr chunk_json (map (attemptToJson chunk_json) as)))"
proof -
  let ?d = sample_two_attempts and ?nid = "n_id sample_saved"
  obtain r1 d1 where d1: "record_attempt plain_env (sample_numbered 2) sample_db = (r1, d1)"
    by (cases "record_attempt plain_env (sample_numbered 2) sample_db")
  have "schema_inv plain_env d1" by (rule preservesD [OF record_preserves_schema schema_inv_sample d1])
  then have inv: "schema_inv plain_env ?d"
    using preservesD [OF record_preserves_schema] sample_two_recorded d1 by simp
  have ff: "fault_free ?d" by (simp add: fault_free_def sample_two_attempts_def sample_db_def db_empty_def)
  have sel: "select_by_id plain_env ?nid ?d = Some (inserted_row sample_saved 0)"
    using sample_row by (simp add: select_by_id_def sample_two_attempts_def)
  have rows: "filter (\<lambda>b. same_key plain_env (t_notification_id b) ?nid) (delivery_attempts ?d) = delivery_attempts ?d"
    by (simp add: sample_two_attempts_def attemptRow_def sample_numbered_def sample_attempt_def)
  have num: "\<forall>b\<in>set (delivery_attempts ?d). t_attempt_number b < 2 ^ 31" by (simp add: sample_two_attempts_def)
  obtain as where as: "mset (map Inr as) = image_mset rowToAttempt (mset (delivery_attempts ?d))"
      "sorted_wrt (<) (map a_attemptNumber as)"
      "\<And>out. j_dump chunk_json (j_set chunk_json (notificationToJson chunk_json sample_saved) ''deliveryAttempts''
           (j_arr chunk_json (map (attemptToJson chunk_json) as))) = Inr out \<Longrightarrow>
       \<exists>w' res. handleConnection sample_http (Some (get_request (''/api/notifications/'' @ ?nid))) (http_at ?d) = (Inr (), w') \<and>
          h_responses w' = [res] \<and> rs_status res = 200 \<and> rs_body res = out"
    using get_notification_history [of sample_http "http_at ?d" "get_request (''/api/notifications/'' @ ?nid)" ?nid
        "inserted_row sample_saved 0" sample_saved] inv ff sel sample_read num
    by (simp add: http_at_def sample_http_def get_request_def rows) blast
  have sms: "channelFromString ''SMS'' = Inr Sms" by (simp add: channelFromString_def)
  have "image_mset a_attemptNumber (mset as) = image_mset (\<lambda>x :: exn + DeliveryAttempt. case x of Inr a \<Rightarrow> a_attemptNumber a) (mset (map Inr as))"
    by (simp add: image_mset.compositionality comp_def)
  also have "\<dots> = {#2, 1#}"
    unfolding as(1) by (simp add: sample_two_attempts_def rowToAttempt_def attemptRow_def sample_numbered_def
        sample_attempt_def DeliveryAttempt_default_def to_int32_id sms)
  finally have "mset (map a_attemptNumber as) = mset [1, 2]" by simp
  then have "sort [1, 2] = map a_attemptNumber as"
    using as(2) by (intro properties_for_sort) (simp_all add: strict_sorted_iff)
  then have "map a_attemptNumber as = [1, 2]" by simp
  moreover obtain out where out: "j_dump chunk_json (j_set chunk_json (notificationToJson chunk_json sample_saved)
      ''deliveryAttempts'' (j_arr chunk_json (map (attemptToJson chunk_json) as))) = Inr out"
    by (simp add: chunk_json_def chunk_parse_def chunk_obj_def)
  moreover obtain w' res where "handleConnection sample_http (Some (get_request (''/api/notifications/'' @ ?nid)))
      (http_at ?d) = (Inr (), w')" "h_responses w' = [res]" "rs_status res = 200" "rs_body res = out"
    using as(3) [OF out] by blast
  ultimately show ?thesis by (intro exI [of _ as] exI [of _ w'] exI [of _ res]) (simp only: simp_thms)
qed

text \<open>An unknown id is answered with 404.\<close>

lemma get_notification_unknown:
  assumes "no_fault (h_db w)" "rq_method req = GetVerb" "rq_target req = ''/api/notifications/'' @ i"
    and "select_by_id (he_db V) i (h_db w) = None"
    and "j_dump (he_json V) (j_obj (he_json V) [(''error'', j_str (he_json V) ''not found'')]) = Inr out"
  shows "\<exists>w' res. handleConnection V (Some req) w = (Inr (), w') \<and> same_tables (h_db w') (h_db w) \<and>
    h_publisher w' = h_publisher w \<and> h_responses w' = h_responses w @ [res] \<and>
    rs_status res = 404 \<and> rs_body res = out"
proof -
  have f: "findById (he_db V) i (h_db w) = (Inr None, pop_fault (h_db w))"
    by (rule findById_none [OF assms(1,4)])
  have i: "drop (length (api_notifications @ ''/'')) (rq_target req) = i"
    by (simp add: api_notifications_def assms(3))
  obtain res where res: "jsonResponse (he_json V) 404 (j_obj (he_json V)
      [(''error'', j_str (he_json V) ''not found'')]) (rq_version req) = Inr res"
    "rs_status res = 404" "rs_body res = out"
    by (simp add: jsonResponse_def assms(5))
  have "dispatch V req = get_notification V req"
    by (rule dispatch_get [OF assms(2), of i]) (simp add: assms(3) api_notifications_def)
  then have "dispatch V req w = (Inr res, w\<lparr>h_db := pop_fault (h_db w)\<rparr>)"
    using res(1) unfolding get_notification_def i Let_def
    by (simp add: bindA_def in_db_def zoomA_def f)
  from handleConnection_eq [OF this] res show ?thesis by simp
qed

text \<open>The list route ignores its query. Any GET whose target starts with
  \<open>/api/notifications\<close> but has no slash after it, whatever filter or page it asks for, behaves
  exactly like \<open>GET /api/notifications\<close>: the 50 newest notifications of every status and
  channel.\<close>

theorem list_route_ignores_query:
  assumes "rq_method req = GetVerb" and "rq_target req = ''/api/notifications'' @ q"
    and "take 1 q \<noteq> ''/''"
  shows "handleConnection V (Some req) w = handleConnection V (Some (req\<lparr>rq_target := ''/api/notifications''\<rparr>)) w"
proof -
  let ?req = "req\<lparr>rq_target := ''/api/notifications''\<rparr>"
  have "dispatch V req = list_route V req"
    using assms by (intro dispatch_list) (auto simp: starts_with_def api_notifications_def)
  moreover have "dispatch V ?req = list_route V ?req"
    using assms by (intro dispatch_list) (auto simp: starts_with_def api_notifications_def)
  moreover have "list_route V ?req = list_route V req" by (simp add: list_route_def)
  ultimately show ?thesis by (simp add: handleConnection_def)
qed

theorem list_route_ignores_query_witness:
  "handleConnection sample_http (Some (get_request ''/api/notifications?status=SENT'')) (http_at sample_db) =
   handleConnection sample_http (Some (get_request ''/api/notifications'')) (http_at sample_db)"
  using list_route_ignores_query [of "get_request ''/api/notifications?status=SENT''" "''?status=SENT''"
      sample_http "http_at sample_db"]
  by (simp add: get_request_def)

end
