(* ===== verification/System.thy ===== *)
theory System
  imports HttpServer
begin

text \<open>
  The service as a whole: the API, the broker's queues, the workers and the database as one
  step relation. A step is one connection handled by the API, one delivery of a message of a
  main queue to a worker of its channel, the expiry of a parked message, a restart of the
  process, or a change of the environment (clock, faults to come). Handlers run to completion
  within a step; within it every database statement may fail and every provider answer is
  possible. Queues are lists from which any element may be taken, which covers every
  priority and redelivery order.
\<close>

section \<open>What a returning handler has settled\<close>

definition all_status :: "db_env \<Rightarrow> string \<Rightarrow> string set \<Rightarrow> database \<Rightarrow> bool" where
  "all_status E nid S d \<longleftrightarrow> (\<forall>r\<in>set (notifications d). same_key E (r_id r) nid \<longrightarrow> r_status r \<in> S)"

lemma all_status_pop [simp]: "all_status E nid S (pop_fault d) = all_status E nid S d"
  by (simp add: all_status_def)

lemma all_status_set:
  "all_status E nid {toString_NotificationStatus st} (rewrite_rows E (set_status st) nid d)"
  by (auto simp: all_status_def rewrite_rows_def set_status_def)

lemma all_status_bump: "all_status E nid S d \<Longrightarrow> all_status E nid S (rewrite_rows E bump_count nid d)"
  by (auto simp: all_status_def rewrite_rows_def bump_count_def)

lemma on_db_Inr: "on_db m w = (Inr x, w') \<Longrightarrow> m (w_db w) = (Inr x, w_db w')"
  by (auto simp: on_db_def zoomA_def split: prod.splits)

lemma emit_db: "emit op w = (r, w') \<Longrightarrow> w_db w' = w_db w"
  by (auto simp: emit_def)

lemma deliver_settles:
  assumes "deliver V ch n nid a tag w = (Inr u, w')"
  shows "all_status (we_db V) nid {''SENT''} (w_db w')"
proof -
  obtain w1 w2 w3 where m: "on_db (markSent (we_db V) nid) w1 = (Inr (), w2)"
      "on_db (incrementAttemptCount (we_db V) nid) w2 = (Inr (), w3)" and e: "emit (Ack tag) w3 = (Inr u, w')"
    using assms by (auto simp: deliver_def Let_def bindA_Inr_conv seqA_Inr_conv)
  have "w_db w2 = rewrite_rows (we_db V) (set_status Sent) nid (pop_fault (w_db w1))"
    by (rule ms.upd_Inr [OF on_db_Inr [OF m(1)]])
  moreover have "w_db w3 = rewrite_rows (we_db V) bump_count nid (pop_fault (w_db w2))"
    by (rule ic.upd_Inr [OF on_db_Inr [OF m(2)]])
  moreover have "all_status (we_db V) nid {''SENT''}
      (rewrite_rows (we_db V) (set_status Sent) nid (pop_fault (w_db w1)))"
    using all_status_set [of "we_db V" nid Sent] by simp
  ultimately show ?thesis
    unfolding emit_db [OF e] by (simp add: all_status_bump)
qed

lemma dead_letter_settles:
  assumes "dead_letter V ch nid a body ex w = (Inr u, w')"
  shows "all_status (we_db V) nid {''DEAD_LETTERED''} (w_db w') \<and>
    Publish '''' (dlq ch) (dlq_message body) \<in> set (w_ops w')"
proof -
  obtain w1 where m: "on_db (markDeadLettered (we_db V) nid) w1 = (Inr (), w')"
      "Publish '''' (dlq ch) (dlq_message body) \<in> set (w_ops w1)"
    using assms by (auto simp: dead_letter_def Let_def seqA_Inr_conv emit_def newEnvelope_def dlq_message_def)
  have "w_db w' = rewrite_rows (we_db V) (set_status DeadLettered) nid (pop_fault (w_db w1))"
    by (rule md.upd_Inr [OF on_db_Inr [OF m(1)]])
  moreover have "w_ops w' = w_ops w1"
    using emitsD [OF emits_on_db m(1)] by simp
  ultimately show ?thesis
    using m(2) all_status_set [of "we_db V" nid DeadLettered] by simp
qed

lemma schedule_retry_settles:
  assumes "schedule_retry V ch nid a p ex w = (Inr u, w')" "a \<le> maxRetries config"
  shows "\<exists>op\<in>set (w_ops w'). is_retry (we_json V) ch config nid a p op"
  using assms
  by (auto simp: schedule_retry_def Let_def seqA_Inr_conv bindA_Inr_conv emit_def is_retry_def
      newEnvelope_def message_def)

definition settled ::
  "('j, 'p) worker_env \<Rightarrow> Channel \<Rightarrow> Config \<Rightarrow> string \<Rightarrow> string \<Rightarrow> int \<Rightarrow> 8 word \<Rightarrow> 'p world \<Rightarrow> bool"
where
  "settled V ch config body nid a p w \<longleftrightarrow>
     all_status (we_db V) nid {''SENT'', ''CANCELLED''} (w_db w) \<or>
     (all_status (we_db V) nid {''DEAD_LETTERED''} (w_db w) \<and>
        Publish '''' (dlq ch) (dlq_message body) \<in> set (w_ops w)) \<or>
     (\<exists>op\<in>set (w_ops w). is_retry (we_json V) ch config nid a p op)"

lemma settled_emit:
  "settled V ch config body nid a p w \<Longrightarrow> emit op w = (r, w') \<Longrightarrow> settled V ch config body nid a p w'"
  by (auto simp: settled_def emit_def)

lemma on_failure_settles:
  assumes "on_failure V ch config nid a p body tag ex w = (Inr u, w')"
  shows "settled V ch config body nid a p w'"
proof -
  obtain w1 w2 where b: "(if isTransient ex \<and> \<not> a > maxRetries config
        then schedule_retry V ch nid a p ex else dead_letter V ch nid a body ex) w1 = (Inr (), w2)"
    and e: "emit (Ack tag) w2 = (Inr u, w')"
    using assms by (auto simp: on_failure_def Let_def seqA_Inr_conv)
  have "settled V ch config body nid a p w2"
  proof (cases "isTransient ex \<and> \<not> a > maxRetries config")
    case True
    with b show ?thesis
      using schedule_retry_settles [of V ch nid a p ex w1 "()" w2 config] by (simp add: settled_def)
  next
    case False
    with b have "dead_letter V ch nid a body ex w1 = (Inr (), w2)" by (metis (mono_tags))
    from dead_letter_settles [OF this] show ?thesis by (simp add: settled_def)
  qed
  then show ?thesis using settled_emit e by blast
qed

text \<open>A message is skipped when its notification has been read as settled (or absent).\<close>

lemma lookup_skips:
  assumes "key_inv E d" "findById E nid d = (Inr x, d')"
    and "\<And>n. x = Some n \<Longrightarrow> n_status n = Cancelled \<or> n_status n = Sent"
  shows "all_status E nid {''SENT'', ''CANCELLED''} d'"
proof -
  have d': "d' = pop_fault d" using findById_state [of E nid d] assms(2) by simp
  have "all_status E nid {''SENT'', ''CANCELLED''} d"
  proof (cases x)
    case None
    then have "select_by_id E nid d = None" using assms(2) findById_None by blast
    then show ?thesis by (auto simp: all_status_def select_by_id_def find_None_conv)
  next
    case (Some n)
    then obtain row where row: "select_by_id E nid d = Some row" "rowToNotification row = Inr n"
      using assms(2) findById_Some by blast
    have "row \<in> set (notifications d)" using select_by_id_SomeD [OF row(1)] by simp
    then have "enum_row row" using assms(1) by (simp add: key_inv_def list_all_iff)
    then have "r_status row \<in> {''SENT'', ''CANCELLED''}"
      using rowToNotification_fields(4) [OF row(2)] assms(3) [OF Some] by (auto simp: enum_row_def)
    moreover have "row = r" if "r \<in> set (notifications d)" "same_key E (r_id r) nid" for r
      using select_by_id_unique [OF assms(1) that] row(1) by simp
    ultimately show ?thesis unfolding all_status_def by metis
  qed
  then show ?thesis by (simp add: d')
qed

lemma onMessage_settles:
  assumes "key_inv (we_db V) (w_db w)" "decode (we_json V) body = Inr (nid, a, p)"
    and "onMessage V ch config body tag w = (Inr u, w')"
  shows "settled V ch config body nid a p w'"
proof -
  let ?E = "we_db V"
  obtain o1 d1 where f: "findById ?E nid (w_db w) = (o1, d1)" by (cases "findById ?E nid (w_db w)")
  then have d1: "d1 = pop_fault (w_db w)" using findById_state [of ?E nid "w_db w"] by simp
  show ?thesis
  proof (cases "\<exists>n. o1 = Inr (Some n) \<and> deliverable n")
    case True
    then obtain n where n: "o1 = Inr (Some n)" "deliverable n" by blast
    then have "process V ch config n nid a p body tag (w\<lparr>w_db := d1\<rparr>) = (Inr u, w')"
      using onMessage_found [OF assms(2), of w n d1] f assms(3) by simp
    then obtain w2 where c: "catchA (deliver V ch n nid a tag)
        (\<lambda>ex. if is_ProviderException ex then on_failure V ch config nid a p body tag ex else throwA ex) w2
        = (Inr u, w')"
      by (auto simp: seqA_Inr_conv)
    obtain r3 w3 where d: "deliver V ch n nid a tag w2 = (r3, w3)"
      by (cases "deliver V ch n nid a tag w2")
    show ?thesis
    proof (cases r3)
      case (Inl ex)
      with c d have "on_failure V ch config nid a p body tag ex w3 = (Inr u, w')"
        by (auto simp: catchA_Inl split: if_splits)
      then show ?thesis by (rule on_failure_settles)
    next
      case (Inr x)
      with c d have "deliver V ch n nid a tag w2 = (Inr x, w')" by (simp add: catchA_Inr)
      from deliver_settles [OF this] show ?thesis by (auto simp: settled_def all_status_def)
    qed
  next
    case False
    have nf: "fst (onMessage V ch config body tag w) = (case o1 of Inl e \<Rightarrow> Inl e | Inr x \<Rightarrow> Inr ())"
      and "snd (onMessage V ch config body tag w) =
        (case o1 of Inl e \<Rightarrow> w\<lparr>w_db := d1\<rparr> | Inr x \<Rightarrow> w\<lparr>w_db := d1, w_ops := w_ops w @ [Ack tag]\<rparr>)"
      using False by (intro onMessage_not_found [OF assms(2) f]; blast)+
    then obtain x where x: "o1 = Inr x" "w_db w' = d1"
      using assms(3) by (cases o1) auto
    have "\<And>n. x = Some n \<Longrightarrow> n_status n = Cancelled \<or> n_status n = Sent"
      using False x by (auto simp: deliverable_def)
    from lookup_skips [OF assms(1) f [unfolded x(1)] this] show ?thesis
      by (simp add: settled_def x(2))
  qed
qed

section \<open>What one connection does\<close>

lemma ascii_hex: "c \<in> set hex_digits \<Longrightarrow> (of_char c :: nat) < 128"
  by (auto simp: hex_digits_def)

lemma ascii_uuid4: assumes "valid_draws u" shows "ascii (uuid4 u)"
proof -
  have h: "(of_char (hex_char (hexDraw u i)) :: nat) < 128" if "i < 30" for i
    using valid_drawsD(1,2) [OF assms that] hex_char_in_digits ascii_hex by blast
  have v: "(of_char (hex_char (variantDraw u)) :: nat) < 128"
    using valid_drawsD(3,4) [OF assms] hex_char_in_digits [of "variantDraw u"] ascii_hex by simp
  show ?thesis using h v by (auto simp: ascii_def uuid4_eq)
qed

text \<open>A message announcing a row, as the API publishes it.\<close>

definition announcement :: "'j json_lib \<Rightarrow> notification_row \<Rightarrow> amqp_op \<Rightarrow> bool" where
  "announcement J row op \<longleftrightarrow> (\<exists>c msg pr. r_channel row = toString_Channel c \<and>
     decode J msg = Inr (r_id row, 1, pr) \<and> op = Publish exchangeName (routingKey c) (message msg pr))"

lemma deliveryMessage_prints:
  assumes "json_laws J" "ascii (n_id n)"
  shows "\<exists>msg. j_dump J (deliveryMessage J n) = Inr msg"
  unfolding deliveryMessage_def
  by (rule json_dump_flat [OF assms(1)]) (use assms(2) in \<open>auto simp: ascii_def ascii_scalar_def\<close>)

lemma announcement_saved:
  assumes "json_laws J" "j_dump J (deliveryMessage J n) = Inr msg"
    and "r_id row = n_id n" "r_channel row = toString_Channel (n_channel n)"
  shows "announcement J row (Publish exchangeName (routingKey (n_channel n))
    (message msg (priorityWeight (n_priority n))))"
  using decode_deliveryMessage [OF assms(1,2)] assms(3,4) unfolding announcement_def by auto

lemma request_effect:
  assumes "json_laws (he_json V)" "valid_draws (he_id_draws V)"
    and "handleConnection V input w = (r, w')"
  obtains (quiet) "same_tables (h_db w') (h_db w)" "pub_ops (h_publisher w') = pub_ops (h_publisher w)"
  | (again) row op where "same_tables (h_db w') (h_db w)" "row \<in> set (notifications (h_db w))"
      "announcement (he_json V) row op" "pub_ops (h_publisher w') = pub_ops (h_publisher w) @ [op]"
  | (fresh) row op where "notifications (h_db w') = notifications (h_db w) @ [row]"
      "r_status row = ''PENDING''" "announcement (he_json V) row op"
      "pub_ops (h_publisher w') = pub_ops (h_publisher w) @ [op]"
proof (cases input)
  case None
  with assms(3) show ?thesis by (intro quiet) (simp_all add: handleConnection_def)
next
  case (Some req)
  obtain r1 w1 where d: "dispatch V req w = (r1, w1)" by (cases "dispatch V req w")
  have s: "h_db w' = h_db w1" "h_publisher w' = h_publisher w1"
    using handleConnection_state [of V req w w'] assms(3) Some d by simp_all
  show ?thesis
  proof (cases "is_post req")
    case False
    then have "quiet (h_db w) (h_publisher w) w1"
      using preservesD [OF dispatch_quiet [OF False] _ d, of "h_db w" "h_publisher w"]
      by (simp add: quiet_def)
    then show ?thesis by (intro quiet) (simp_all add: s quiet_def)
  next
    case True
    with d have "post_notification V req w = (r1, w1)" by (simp add: dispatch_post)
    then show ?thesis
    proof (cases rule: post_cases)
      case bad
      then show ?thesis by (intro quiet) (simp_all add: s)
    next
      case (unsaved n ex d)
      from unsaved(2) have "same_tables d (h_db w)" by (cases rule: insertWithOutbox_cases) simp_all
      then show ?thesis by (intro quiet) (simp_all add: s unsaved)
    next
      case (unprintable n saved ex d)
      from unprintable(2) have "same_tables d (h_db w)"
      proof (cases rule: insertWithOutbox_cases)
        case (fresh m)
        then have "ascii (n_id saved)" using ascii_uuid4 [OF assms(2)] by simp
        then show ?thesis using deliveryMessage_prints [OF assms(1)] unprintable(3) by fastforce
      qed simp_all
      then show ?thesis by (intro quiet) (simp_all add: s unprintable)
    next
      case (published n saved msg d)
      let ?op = "Publish exchangeName (routingKey (n_channel saved))
          (message msg (priorityWeight (n_priority saved)))"
      have pub: "pub_ops (h_publisher w') = pub_ops (h_publisher w) @ [?op]"
        by (simp add: s published(5))
      have db: "h_db w' = d" by (simp add: s published(5))
      note ann = announcement_saved [OF assms(1) published(3)]
      from published(2) show ?thesis
      proof (cases rule: insertWithOutbox_cases)
        case (existing row m)
        have "row \<in> set (notifications (h_db w))"
          using select_by_key_SomeD [OF existing(3)] by simp
        moreover have "announcement (he_json V) row ?op"
          by (rule ann) (use existing rowToNotification_fields [OF existing(4)] in simp_all)
        ultimately show ?thesis using again existing(2) pub by (simp add: db)
      next
        case (fresh m)
        have "announcement (he_json V) (inserted_row m (db_now (h_db w))) ?op"
          by (rule ann) (use fresh in \<open>simp_all add: inserted_row_def newRow_def\<close>)
        moreover have "r_status (inserted_row m (db_now (h_db w))) = ''PENDING''"
          by (simp add: inserted_row_def newRow_def)
        ultimately show ?thesis using that(3) fresh(3) pub by (simp add: db with_inserted_def)
      qed simp
    qed
  qed
qed

section \<open>The step relation\<close>

record sys =
  s_db :: database
  s_router :: "MockProvider ProviderRouter"
  s_queues :: "string \<Rightarrow> string list"
  s_dropped :: "amqp_op list"

text \<open>The broker puts a published body at the end of every queue it is routed to.\<close>

definition put :: "string \<Rightarrow> string \<Rightarrow> (string \<Rightarrow> string list) \<Rightarrow> string \<Rightarrow> string list" where
  "put body q Q = Q(q := Q q @ [body])"

fun broker_op :: "(string \<Rightarrow> string \<Rightarrow> string list) \<Rightarrow> amqp_op \<Rightarrow> (string \<Rightarrow> string list) \<Rightarrow> string \<Rightarrow> string list" where
  "broker_op rt (Publish x k env) Q = fold (put (env_body env)) (rt x k) Q"
| "broker_op rt _ Q = Q"

definition broker_ops :: "(string \<Rightarrow> string \<Rightarrow> string list) \<Rightarrow> amqp_op list \<Rightarrow> (string \<Rightarrow> string list) \<Rightarrow> string \<Rightarrow> string list" where
  "broker_ops rt ops Q = fold (broker_op rt) ops Q"

text \<open>The fixed surroundings of a run: server, JSON library, broker and configuration.\<close>

record 'j deployment =
  dp_db :: db_env
  dp_json :: "'j json_lib"
  dp_route :: broker
  dp_config :: Config

abbreviation routes :: "'j deployment \<Rightarrow> string \<Rightarrow> string \<Rightarrow> string list" where
  "routes D \<equiv> dp_route D (declareAll (dp_config D))"

text \<open>
  The operations a handler issues reach the broker in order, but a lost connection or a killed
  process may cut them off: each step chooses how many (\<open>k\<close>) arrive. What the publisher of
  the HTTP server loses is kept in the ghost \<open>s_dropped\<close>, so that a process killed between
  the commit of a submission and its publish is the step with \<open>k = 0\<close>; a message whose
  acknowledgement does not arrive stays in its queue. A process killed before a statement has
  the tables of the run in which that statement fails: no handler executes another statement
  on them after a failed one, other than the rollback that the server does by itself when the
  connection goes away.
\<close>

inductive sys_step :: "'j deployment \<Rightarrow> sys \<Rightarrow> sys \<Rightarrow> bool" for D where
  request: "handleConnection V input \<lparr>h_db = s_db s, h_publisher = pb, h_responses = rs\<rparr> = (r, w') \<Longrightarrow>
    he_db V = dp_db D \<Longrightarrow> he_json V = dp_json D \<Longrightarrow> valid_draws (he_id_draws V) \<Longrightarrow>
    pub_ops (h_publisher w') = pub_ops pb @ ops \<Longrightarrow>
    sys_step D s (s\<lparr>s_db := h_db w', s_queues := broker_ops (routes D) (take k ops) (s_queues s),
      s_dropped := s_dropped s @ drop k ops\<rparr>)"
| deliver: "s_queues s (mainQueue ch) = xs @ body # ys \<Longrightarrow>
    we_db V = dp_db D \<Longrightarrow> we_json V = dp_json D \<Longrightarrow>
    onMessage V ch (dp_config D) body tag \<lparr>w_db = s_db s, w_router = s_router s, w_ops = []\<rparr> = (r, w') \<Longrightarrow>
    ops = take k (w_ops w') \<Longrightarrow>
    Q = (if Ack tag \<in> set ops then (s_queues s)(mainQueue ch := xs @ ys) else s_queues s) \<Longrightarrow>
    sys_step D s (s\<lparr>s_db := w_db w', s_router := w_router w',
      s_queues := broker_ops (routes D) ops Q\<rparr>)"
| expire: "s_queues s q = xs @ body # ys \<Longrightarrow>
    message_ttl (declareAll (dp_config D)) q = Some ttl \<Longrightarrow>
    dead_letter_target (declareAll (dp_config D)) q = Some (x, k) \<Longrightarrow>
    sys_step D s (s\<lparr>s_queues := broker_op (routes D) (Publish x k (newEnvelope body))
      ((s_queues s)(q := xs @ ys))\<rparr>)"
| restart: "sys_step D s (s\<lparr>s_router :=
    newRouter (cbFailureThreshold (dp_config D)) (cbOpenDurationMs (dp_config D))\<rparr>)"
| environment: "sys_step D s (s\<lparr>s_db := (s_db s)\<lparr>db_faults := fs, db_now := now\<rparr>\<rparr>)"

definition sys_init :: "'j deployment \<Rightarrow> sys" where
  "sys_init D = \<lparr>s_db = db_empty,
     s_router = newRouter (cbFailureThreshold (dp_config D)) (cbOpenDurationMs (dp_config D)),
     s_queues = (\<lambda>_. []), s_dropped = []\<rparr>"

inductive sys_reach :: "'j deployment \<Rightarrow> sys \<Rightarrow> bool" for D where
  init: "sys_reach D (sys_init D)"
| step: "sys_reach D s \<Longrightarrow> sys_step D s s' \<Longrightarrow> sys_reach D s'"

section \<open>The broker only adds\<close>

lemma put_mono: "set (Q q) \<subseteq> set (put b q' Q q)"
  by (auto simp: put_def)

lemma fold_put_mono: "set (Q q) \<subseteq> set (fold (put b) qs Q q)"
  by (induction qs arbitrary: Q) (use put_mono in \<open>fastforce+\<close>)

lemma fold_put_mem: "q \<in> set qs \<Longrightarrow> b \<in> set (fold (put b) qs Q q)"
proof (induction qs arbitrary: Q)
  case (Cons x qs)
  show ?case
  proof (cases "x = q")
    case True
    then have "b \<in> set (put b x Q q)" by (simp add: put_def)
    then show ?thesis using fold_put_mono [of "put b x Q" q b qs] by auto
  qed (use Cons in auto)
qed simp

lemma broker_op_mono: "set (Q q) \<subseteq> set (broker_op rt op Q q)"
  by (cases op) (simp_all add: fold_put_mono)

lemma broker_ops_mono: "set (Q q) \<subseteq> set (broker_ops rt ops Q q)"
  unfolding broker_ops_def
proof (induction ops arbitrary: Q)
  case (Cons op ops)
  then show ?case using broker_op_mono [of Q q rt op] by fastforce
qed simp

lemma broker_ops_Nil [simp]: "broker_ops rt [] Q = Q"
  by (simp add: broker_ops_def)

lemma broker_ops_Cons [simp]: "broker_ops rt (op # ops) Q = broker_ops rt ops (broker_op rt op Q)"
  by (simp add: broker_ops_def)

lemma broker_ops_append [simp]: "broker_ops rt (xs @ ys) Q = broker_ops rt ys (broker_ops rt xs Q)"
  by (simp add: broker_ops_def)

lemma broker_ops_mem:
  "Publish x k env \<in> set ops \<Longrightarrow> q \<in> set (rt x k) \<Longrightarrow> env_body env \<in> set (broker_ops rt ops Q q)"
proof (induction ops arbitrary: Q)
  case (Cons op ops)
  show ?case
  proof (cases "op = Publish x k env")
    case True
    then have "env_body env \<in> set (broker_op rt op Q q)"
      using Cons.prems fold_put_mem by simp
    then show ?thesis using broker_ops_mono [of "broker_op rt op Q" q rt ops] by auto
  qed (use Cons in auto)
qed simp

lemma broker_op_one: "rt x k = [q] \<Longrightarrow> broker_op rt (Publish x k env) Q = put (env_body env) q Q"
  by simp

section \<open>The invariant\<close>

text \<open>The queues on which a message is still on its way to a worker of channel \<open>ch\<close>.\<close>

definition live :: "'j deployment \<Rightarrow> Channel \<Rightarrow> string \<Rightarrow> bool" where
  "live D ch q \<longleftrightarrow> q = mainQueue ch \<or>
     (\<exists>a. 1 \<le> a \<and> a \<le> int (length (retryDelaysMs (dp_config D))) \<and> q = retryQueue ch a)"

definition good_msg :: "'j deployment \<Rightarrow> database \<Rightarrow> Channel \<Rightarrow> string \<Rightarrow> bool" where
  "good_msg D d ch body \<longleftrightarrow> (\<exists>nid a p. decode (dp_json D) body = Inr (nid, a, p) \<and>
     1 \<le> a \<and> a \<le> max 1 (maxRetries (dp_config D) + 1) \<and>
     (\<exists>row\<in>set (notifications d). r_id row = nid \<and> r_channel row = toString_Channel ch))"

definition waiting :: "'j deployment \<Rightarrow> (string \<Rightarrow> string list) \<Rightarrow> notification_row \<Rightarrow> bool" where
  "waiting D Q row \<longleftrightarrow> (\<exists>ch q body a p. r_channel row = toString_Channel ch \<and> live D ch q \<and>
     body \<in> set (Q q) \<and> decode (dp_json D) body = Inr (r_id row, a, p))"

definition parked :: "'j deployment \<Rightarrow> (string \<Rightarrow> string list) \<Rightarrow> notification_row \<Rightarrow> bool" where
  "parked D Q row \<longleftrightarrow> (\<exists>ch body a p. r_channel row = toString_Channel ch \<and>
     body \<in> set (Q (dlq ch)) \<and> decode (dp_json D) body = Inr (r_id row, a, p))"

text \<open>The announcement of a row that is still PENDING did not reach the broker.\<close>

definition stranded :: "'j deployment \<Rightarrow> amqp_op list \<Rightarrow> notification_row \<Rightarrow> bool" where
  "stranded D L row \<longleftrightarrow>
     r_status row = ''PENDING'' \<and> (\<exists>op. op \<in> set L \<and> announcement (dp_json D) row op)"

definition row_ok ::
  "'j deployment \<Rightarrow> amqp_op list \<Rightarrow> (string \<Rightarrow> string list) \<Rightarrow> notification_row \<Rightarrow> bool" where
  "row_ok D L Q row \<longleftrightarrow>
     r_status row \<in> {''PENDING'', ''PROCESSING'', ''SENT'', ''DEAD_LETTERED''} \<and>
     (r_status row = ''SENT'' \<or> waiting D Q row \<or> r_status row = ''DEAD_LETTERED'' \<and> parked D Q row \<or>
      stranded D L row)"

text \<open>Every message on its way is good.\<close>

definition queues_good :: "'j deployment \<Rightarrow> database \<Rightarrow> (string \<Rightarrow> string list) \<Rightarrow> bool" where
  "queues_good D d Q \<longleftrightarrow> (\<forall>ch q body. live D ch q \<longrightarrow> body \<in> set (Q q) \<longrightarrow> good_msg D d ch body)"

definition sys_inv :: "'j deployment \<Rightarrow> sys \<Rightarrow> bool" where
  "sys_inv D s \<longleftrightarrow> schema_inv (dp_db D) (s_db s) \<and> router_inv (s_router s) \<and>
     queues_good D (s_db s) (s_queues s) \<and>
     (\<forall>row\<in>set (notifications (s_db s)). row_ok D (s_dropped s) (s_queues s) row)"

text \<open>What is assumed of a deployment: the documented behaviour of its two libraries, and a
  retry ladder with a rung for every retry, attempt numbers within an int.\<close>

definition deployable :: "'j deployment \<Rightarrow> bool" where
  "deployable D \<longleftrightarrow> json_laws (dp_json D) \<and> broker_laws (dp_route D) \<and>
     maxRetries (dp_config D) \<le> int (length (retryDelaysMs (dp_config D))) \<and>
     int32_range (maxRetries (dp_config D) + 1)"

lemma live_simps [simp]:
  "live D ch (mainQueue c) \<longleftrightarrow> c = ch" "\<not> live D ch (dlq c)"
  "live D ch (retryQueue c a) \<longleftrightarrow>
     c = ch \<and> 1 \<le> a \<and> a \<le> int (length (retryDelaysMs (dp_config D)))"
  by (auto simp: live_def)

lemma route_queue:
  assumes "broker_laws (dp_route D)"
  shows "routes D '''' (dlq ch) = [dlq ch]"
    and "live D ch (retryQueue ch a) \<Longrightarrow> routes D '''' (retryQueue ch a) = [retryQueue ch a]"
    and "routes D exchangeName (routingKey ch) = [mainQueue ch]"
  using assms by (simp_all add: route_default declared_queue_iff route_main)

lemma waiting_mono:
  "waiting D Q row \<Longrightarrow> (\<And>ch q. live D ch q \<Longrightarrow> set (Q q) \<subseteq> set (Q' q)) \<Longrightarrow> waiting D Q' row"
  unfolding waiting_def by blast

lemma parked_mono:
  "parked D Q row \<Longrightarrow> (\<And>ch. set (Q (dlq ch)) \<subseteq> set (Q' (dlq ch))) \<Longrightarrow> parked D Q' row"
  unfolding parked_def by blast

lemma row_ok_mono:
  assumes "row_ok D L Q row" "\<And>q. set (Q q) \<subseteq> set (Q' q)" "set L \<subseteq> set L'"
  shows "row_ok D L' Q' row"
  using assms waiting_mono [of D Q row Q'] parked_mono [of D Q row Q']
  unfolding row_ok_def stranded_def by blast

text \<open>Rows stay, with their identity and channel.\<close>

definition keeps_rows :: "database \<Rightarrow> database \<Rightarrow> bool" where
  "keeps_rows d d' \<longleftrightarrow> (\<forall>row\<in>set (notifications d).
     \<exists>row'\<in>set (notifications d'). r_id row' = r_id row \<and> r_channel row' = r_channel row)"

lemma good_msg_rows: "good_msg D d ch body \<Longrightarrow> keeps_rows d d' \<Longrightarrow> good_msg D d' ch body"
  unfolding good_msg_def keeps_rows_def by metis

lemma key_inv_unique:
  assumes "key_inv E d" "row \<in> set (notifications d)" "row' \<in> set (notifications d)"
    and "same_key E (r_id row) (r_id row')"
  shows "row = row'"
proof -
  have "Some row = Some row'"
    using select_by_id_unique [OF assms(1,2,4)] select_by_id_unique [OF assms(1,3) same_key_refl] by simp
  then show ?thesis by simp
qed

lemma row_ok_broker: "row_ok D L Q row \<Longrightarrow> row_ok D (L @ L') (broker_ops rt ops Q) row"
  by (erule row_ok_mono) (use broker_ops_mono in auto)

lemma good_msg_channel:
  assumes "good_msg D d ch body" "decode (dp_json D) body = Inr (r_id row, a, p)"
    and "key_inv E d" "row \<in> set (notifications d)"
  shows "r_channel row = toString_Channel ch"
proof -
  obtain row' where r: "row' \<in> set (notifications d)" "r_id row' = r_id row" "r_channel row' = toString_Channel ch"
    using assms(1,2) by (auto simp: good_msg_def)
  have "Some row' = Some row"
    using select_by_id_unique [OF assms(3) r(1), of "r_id row"]
      select_by_id_unique [OF assms(3,4), of "r_id row"] r(2) by (metis same_key_refl)
  then show ?thesis using r(3) by simp
qed

lemma queues_goodI:
  "(\<And>ch q body. live D ch q \<Longrightarrow> body \<in> set (Q q) \<Longrightarrow> good_msg D d ch body) \<Longrightarrow> queues_good D d Q"
  by (simp add: queues_good_def)

lemma queues_goodD: "queues_good D d Q \<Longrightarrow> live D ch q \<Longrightarrow> body \<in> set (Q q) \<Longrightarrow> good_msg D d ch body"
  unfolding queues_good_def by blast

lemma queues_good_put:
  assumes "queues_good D d Q" and "\<And>ch. live D ch q \<Longrightarrow> good_msg D d ch b"
  shows "queues_good D d (put b q Q)"
proof (rule queues_goodI)
  fix ch q' body assume l: "live D ch q'" and m: "body \<in> set (put b q Q q')"
  show "good_msg D d ch body"
  proof (cases "q' = q \<and> body = b")
    case True
    with l assms(2) show ?thesis by blast
  next
    case False
    with m have "body \<in> set (Q q')" by (auto simp: put_def split: if_splits)
    then show ?thesis by (rule queues_goodD [OF assms(1) l])
  qed
qed

lemma queues_good_less:
  assumes "queues_good D d Q" and "\<And>q. set (Q' q) \<subseteq> set (Q q)" shows "queues_good D d Q'"
  by (rule queues_goodI) (use assms queues_goodD in blast)

lemma queues_good_rows: "queues_good D d Q \<Longrightarrow> keeps_rows d d' \<Longrightarrow> queues_good D d' Q"
  by (rule queues_goodI) (blast intro: good_msg_rows queues_goodD)

section \<open>The invariant is kept by every step\<close>

lemma sys_invI:
  "schema_inv (dp_db D) (s_db s) \<Longrightarrow> router_inv (s_router s) \<Longrightarrow> queues_good D (s_db s) (s_queues s) \<Longrightarrow>
   (\<And>row. row \<in> set (notifications (s_db s)) \<Longrightarrow> row_ok D (s_dropped s) (s_queues s) row) \<Longrightarrow> sys_inv D s"
  by (simp add: sys_inv_def)

lemma sys_inv_init: "sys_inv D (sys_init D)"
proof (rule sys_invI)
  fix row assume "row \<in> set (notifications (s_db (sys_init D)))"
  then show "row_ok D (s_dropped (sys_init D)) (s_queues (sys_init D)) row" by (simp add: sys_init_def db_empty_def)
qed (simp_all add: sys_init_def schema_inv_empty router_inv_new queues_good_def)

lemma waitingI:
  "r_channel row = toString_Channel ch \<Longrightarrow> live D ch q \<Longrightarrow> body \<in> set (Q q) \<Longrightarrow>
   decode (dp_json D) body = Inr (r_id row, a, p) \<Longrightarrow> waiting D Q row"
  unfolding waiting_def by blast

subsection \<open>Requests\<close>

lemma announce_good:
  assumes "deployable D" "announcement (dp_json D) row op" "row \<in> set (notifications d)"
    and "queues_good D d Q"
  shows "queues_good D d (broker_ops (routes D) [op] Q) \<and>
    waiting D (broker_ops (routes D) [op] Q) row"
proof -
  obtain c msg pr where c: "r_channel row = toString_Channel c"
    "decode (dp_json D) msg = Inr (r_id row, 1, pr)"
    "op = Publish exchangeName (routingKey c) (message msg pr)"
    using assms(2) by (auto simp: announcement_def)
  have b: "broker_laws (dp_route D)" using assms(1) by (simp add: deployable_def)
  have q: "broker_ops (routes D) [op] Q = put msg (mainQueue c) Q"
    using route_queue(3) [OF b, of c] by (simp add: c(3) message_def)
  have "good_msg D d c msg"
    unfolding good_msg_def using c(1,2) assms(3) by (intro exI conjI bexI) auto
  then have "queues_good D d (put msg (mainQueue c) Q)"
    by (intro queues_good_put [OF assms(4)]) simp
  moreover have "waiting D (put msg (mainQueue c) Q) row"
    by (rule waitingI [where q = "mainQueue c" and body = msg, OF c(1) _ _ c(2)]) (simp_all add: put_def)
  ultimately show ?thesis unfolding q by blast
qed

lemma sys_inv_request:
  assumes dep: "deployable D" and inv: "sys_inv D s"
    and h: "handleConnection V input \<lparr>h_db = s_db s, h_publisher = pb, h_responses = rs\<rparr> = (r, w')"
    and V: "he_db V = dp_db D" "he_json V = dp_json D" "valid_draws (he_id_draws V)"
    and ops: "pub_ops (h_publisher w') = pub_ops pb @ ops"
  shows "sys_inv D (s\<lparr>s_db := h_db w', s_queues := broker_ops (routes D) (take k ops) (s_queues s),
      s_dropped := s_dropped s @ drop k ops\<rparr>)"
proof -
  let ?w = "\<lparr>h_db = s_db s, h_publisher = pb, h_responses = rs\<rparr>"
  have laws: "json_laws (he_json V)" using dep V(2) by (simp add: deployable_def)
  have i: "schema_inv (dp_db D) (s_db s)" "router_inv (s_router s)" "queues_good D (s_db s) (s_queues s)"
    and rows: "\<And>row. row \<in> set (notifications (s_db s)) \<Longrightarrow> row_ok D (s_dropped s) (s_queues s) row"
    using inv by (simp_all add: sys_inv_def)
  have sch: "schema_inv (dp_db D) (h_db w')"
    using handleConnection_schema [OF _ h] i(1) V(1) by simp
  have grow: "row_ok D (s_dropped s @ drop k ops) (broker_ops (routes D) (take k ops) (s_queues s)) row"
    if "row \<in> set (notifications (s_db s))" for row
    by (rule row_ok_broker) (rule rows [OF that])
  from laws V(3) h show ?thesis
  proof (cases rule: request_effect)
    case quiet
    then have "ops = []" and n: "notifications (h_db w') = notifications (s_db s)"
      using ops by (simp_all add: same_tables_def)
    then have "queues_good D (h_db w') (broker_ops (routes D) (take k ops) (s_queues s))"
      using queues_good_rows [OF i(3), of "h_db w'"] by (auto simp: keeps_rows_def)
    with sch i(2) grow n show ?thesis by (intro sys_invI) simp_all
  next
    case (again row op)
    then have o: "ops = [op]" and n: "notifications (h_db w') = notifications (s_db s)"
      using ops by (simp_all add: same_tables_def)
    have "queues_good D (h_db w') (s_queues s)"
      by (rule queues_good_rows [OF i(3)]) (auto simp: keeps_rows_def n)
    with announce_good [OF dep, of row op "h_db w'" "s_queues s"] again(2,3) V(2)
    have "queues_good D (h_db w') (broker_ops (routes D) (take k ops) (s_queues s))"
      by (cases k) (simp_all add: o n)
    with sch i(2) grow n show ?thesis by (intro sys_invI) simp_all
  next
    case (fresh row op)
    then have o: "ops = [op]" and n: "notifications (h_db w') = notifications (s_db s) @ [row]"
      using ops by simp_all
    have "queues_good D (h_db w') (s_queues s)"
      by (rule queues_good_rows [OF i(3)]) (auto simp: keeps_rows_def n)
    with announce_good [OF dep, of row op "h_db w'" "s_queues s"] fresh(3) V(2)
    have q: "queues_good D (h_db w') (broker_ops (routes D) (take k ops) (s_queues s))"
      and "0 < k \<Longrightarrow> waiting D (broker_ops (routes D) (take k ops) (s_queues s)) row"
      by (cases k; simp add: o n)+
    moreover have "stranded D (s_dropped s @ drop k ops) row" if "k = 0"
      using fresh(2,3) V(2) that by (auto simp: stranded_def o)
    ultimately have "row_ok D (s_dropped s @ drop k ops) (broker_ops (routes D) (take k ops) (s_queues s)) row"
      using fresh(2) by (cases k) (simp_all add: row_ok_def)
    with sch i(2) grow n q show ?thesis by (intro sys_invI) auto
  qed
qed

subsection \<open>Expiry\<close>

lemma rung_of_target:
  assumes "dead_letter_target (declareAll config) q = Some (x, k)"
  shows "\<exists>ch a. 1 \<le> a \<and> a \<le> int (length (retryDelaysMs config)) \<and> q = retryQueue ch a \<and>
    x = exchangeName \<and> k = routingKey ch"
proof -
  obtain t where t: "queue_args (declareAll config) q = Some t"
    using assms by (auto simp: dead_letter_target_def split: option.splits)
  then have "q \<in> set (declared_queues (declareAll config))"
    using declared_queue_find [of q "declareAll config"] by (auto simp: queue_args_def)
  then obtain c where "q \<in> set (channel_queues config c)"
    by (auto simp: declared_all)
  then consider "q = mainQueue c" | "q = dlq c"
    | a where "1 \<le> a" "a \<le> int (length (retryDelaysMs config))" "q = retryQueue c a"
    unfolding set_channel_queues by blast
  then show ?thesis
  proof cases
    case 3
    from rung_declared [OF 3(1,2), of c] obtain t where
      "queue_args (declareAll config) q = Some (map_of t)"
      and m: "map_of t = [''x-dead-letter-routing-key'' \<mapsto> TString (routingKey c),
                ''x-dead-letter-exchange'' \<mapsto> TString exchangeName,
                ''x-message-ttl'' \<mapsto> TInt (retryDelaysMs config ! nat (a - 1))]"
      using queue_args_declared 3(3) by metis
    then have "x = exchangeName \<and> k = routingKey c"
      using assms by (simp add: dead_letter_target_def)
    with 3 show ?thesis by blast
  qed (use assms in \<open>simp_all add: plain_queues_target\<close>)
qed

lemma set_remove: "set (xs @ ys) \<subseteq> set (xs @ b # ys)"
  by auto

lemma take_less: "Q q0 = xs @ b # ys \<Longrightarrow> set ((Q(q0 := xs @ ys)) q) \<subseteq> set (Q q)"
  by auto

lemma take_keeps: "Q q0 = xs @ b # ys \<Longrightarrow> m \<in> set (Q q) \<Longrightarrow> m \<noteq> b \<Longrightarrow> m \<in> set ((Q(q0 := xs @ ys)) q)"
  by auto

text \<open>An expired message moves to the main queue of its channel; nothing else changes.\<close>

lemma expire_moves:
  assumes dep: "deployable D" and inv: "schema_inv (dp_db D) d" "queues_good D d Q"
    and q: "Q q = xs @ body # ys" and t: "dead_letter_target (declareAll (dp_config D)) q = Some (x, k)"
    and Q': "Q' = broker_op (routes D) (Publish x k (newEnvelope body)) (Q(q := xs @ ys))"
  shows "queues_good D d Q'"
    and "row \<in> set (notifications d) \<Longrightarrow> waiting D Q row \<Longrightarrow> waiting D Q' row"
    and "parked D Q row' \<Longrightarrow> parked D Q' row'" and "set (Q (dlq c)) \<subseteq> set (Q' (dlq c))"
proof -
  obtain ch a where a: "1 \<le> a" "a \<le> int (length (retryDelaysMs (dp_config D)))" "q = retryQueue ch a"
    and x: "x = exchangeName" "k = routingKey ch"
    using rung_of_target [OF t] by blast
  have b: "broker_laws (dp_route D)" using dep by (simp add: deployable_def)
  let ?Q = "Q(q := xs @ ys)"
  have Q: "Q' = put body (mainQueue ch) ?Q"
    using route_queue(3) [OF b, of ch] by (simp add: Q' x newEnvelope_def)
  have good: "good_msg D d ch body"
    by (rule queues_goodD [OF inv(2), of ch q]) (use a q in simp_all)
  have "queues_good D d ?Q"
    by (rule queues_good_less [OF inv(2)]) (rule take_less [where Q = Q, OF q])
  then show "queues_good D d Q'"
    unfolding Q by (rule queues_good_put) (use good in simp)
  show dl: "set (Q (dlq c)) \<subseteq> set (Q' (dlq c))" for c
    unfolding Q using a(3) by (auto simp: put_def)
  then show "parked D Q' row'" if "parked D Q row'"
    by (rule parked_mono [OF that])
  show "waiting D Q' row" if r: "row \<in> set (notifications d)" and w: "waiting D Q row"
  proof -
    obtain c q' m a' p where m: "r_channel row = toString_Channel c" "live D c q'" "m \<in> set (Q q')"
      "decode (dp_json D) m = Inr (r_id row, a', p)"
      using w unfolding waiting_def by blast
    show ?thesis
    proof (cases "m = body")
      case True
      have "c = ch"
        using good_msg_channel [OF good _ key_inv_schema [OF inv(1)] r] m True by simp
      then show ?thesis unfolding Q
        by (intro waitingI [where q = "mainQueue ch" and body = body and a = a' and p = p, OF m(1)])
          (use m True in \<open>simp_all add: put_def\<close>)
    next
      case False
      have "m \<in> set (?Q q')" by (rule take_keeps [where Q = Q, OF q m(3) False])
      then have "m \<in> set (Q' q')" unfolding Q using put_mono [of ?Q q'] by blast
      then show ?thesis by (rule waitingI [OF m(1,2) _ m(4)])
    qed
  qed
qed

lemma sys_inv_expire:
  assumes dep: "deployable D" and inv: "sys_inv D s" and q: "s_queues s q = xs @ body # ys"
    and t: "dead_letter_target (declareAll (dp_config D)) q = Some (x, k)"
  shows "sys_inv D (s\<lparr>s_queues := broker_op (routes D) (Publish x k (newEnvelope body))
      ((s_queues s)(q := xs @ ys))\<rparr>)"
proof -
  have i: "schema_inv (dp_db D) (s_db s)" "queues_good D (s_db s) (s_queues s)"
    using inv by (simp_all add: sys_inv_def)
  note moves = expire_moves [OF dep i q t refl]
  show ?thesis using inv moves by (intro sys_invI) (auto simp: sys_inv_def row_ok_def)
qed

subsection \<open>Deliveries\<close>

lemma broker_ops_snoc_ack [simp]: "broker_ops rt (pubs @ [Ack tag]) Q = broker_ops rt pubs Q"
  by simp

lemma outgoing_no_ack: "outgoing J ch config body pubs \<Longrightarrow> Ack tag \<notin> set pubs"
  by (auto simp: outgoing_def is_retry_def)

lemma outgoing_take: "outgoing J ch config body pubs \<Longrightarrow> outgoing J ch config body (take k pubs)"
  by (cases k) (auto simp: outgoing_def)

text \<open>
  What reaches the broker: everything, and the handler has returned, or a legal message at
  most and no acknowledgement.
\<close>

lemma handled_take:
  assumes "handled J ch config body tag r ops"
  obtains (acked) pubs where "Ack tag \<in> set (take k ops)" "r = Inr ()" "take k ops = ops"
      "outgoing J ch config body pubs" "ops = pubs @ [Ack tag]"
  | (cut) "Ack tag \<notin> set (take k ops)" "outgoing J ch config body (take k ops)"
proof (cases r)
  case (Inl e)
  then have "outgoing J ch config body ops" using assms by (simp add: handled_def)
  then show ?thesis using outgoing_take [THEN outgoing_no_ack] by (intro cut outgoing_take)
next
  case (Inr u)
  then obtain pubs where p: "ops = pubs @ [Ack tag]" "outgoing J ch config body pubs"
    using assms by (auto simp: handled_def)
  show ?thesis
  proof (cases "length pubs < k")
    case True
    then show ?thesis using p Inr by (intro acked [of pubs]) simp_all
  next
    case False
    then have "take k ops = take k pubs" by (simp add: p(1))
    then show ?thesis using outgoing_take [OF p(2), of k] outgoing_no_ack by (intro cut) simp_all
  qed
qed

lemma handled_broker:
  assumes "handled J ch config body tag r ops"
  obtains pubs where "outgoing J ch config body pubs" "broker_ops rt (take k ops) Q = broker_ops rt pubs Q"
  using assms
proof (cases rule: handled_take [where k = k])
  case (acked pubs)
  then show ?thesis by (intro that [of pubs]) (simp_all del: broker_ops_append)
next
  case cut
  then show ?thesis by (intro that) simp_all
qed

lemma rows_step_keeps: "rows_step E nid d d' \<Longrightarrow> keeps_rows d d'"
  unfolding keeps_rows_def rows_step_def by (auto dest!: list_all2_left simp: row_step_def)

lemma rows_step_back:
  assumes "rows_step E nid d d'" "row' \<in> set (notifications d')"
  obtains row where "row \<in> set (notifications d)" "row_step E nid row row'"
  using list_all2_right [OF assms(1) [unfolded rows_step_def] assms(2)] by blast

text \<open>A retry carries the next attempt number and goes to a declared rung.\<close>

lemma retry_decodes:
  assumes dep: "deployable D" and r: "is_retry (dp_json D) ch (dp_config D) nid a p op" "1 \<le> a"
  obtains payload where "op = Publish '''' (retryQueue ch a) (message payload p)" "a \<le> maxRetries (dp_config D)"
    "decode (dp_json D) payload = Inr (nid, a + 1, p)" "live D ch (retryQueue ch a)"
    "broker_op (routes D) op Q = put payload (retryQueue ch a) Q"
proof -
  have b: "broker_laws (dp_route D)" and laws: "json_laws (dp_json D)"
    and rng: "maxRetries (dp_config D) \<le> int (length (retryDelaysMs (dp_config D)))"
      "int32_range (maxRetries (dp_config D) + 1)"
    using dep by (simp_all add: deployable_def)
  obtain payload where pay: "j_dump (dp_json D) (retryBody (dp_json D) nid a p) = Inr payload"
    "op = Publish [] (retryQueue ch a) (message payload p)" "a \<le> maxRetries (dp_config D)"
    using r(1) by (auto simp: is_retry_def)
  have l: "live D ch (retryQueue ch a)" using r(2) pay(3) rng(1) by simp
  have "int32_range (a + 1)" using r(2) pay(3) rng(2) by (simp add: int32_range_def)
  then have "decode (dp_json D) payload = Inr (nid, a + 1, p)"
    using decode_delivery [OF laws] pay(1) unfolding retryBody_fields by blast
  with pay l route_queue(2) [OF b l] show ?thesis by (intro that [of payload]) (simp_all add: message_def)
qed

text \<open>The messages a handler publishes keep the live queues good.\<close>

lemma outgoing_good:
  assumes dep: "deployable D" and good: "queues_good D d Q" "good_msg D d ch body"
    and out: "outgoing (dp_json D) ch (dp_config D) body pubs"
  shows "queues_good D d (broker_ops (routes D) pubs Q)"
proof -
  have b: "broker_laws (dp_route D)" using dep by (simp add: deployable_def)
  consider "pubs = []" | "pubs = [Publish '''' (dlq ch) (dlq_message body)]"
    | nid a p op where "decode (dp_json D) body = Inr (nid, a, p)" "pubs = [op]"
        "is_retry (dp_json D) ch (dp_config D) nid a p op"
    using out unfolding outgoing_def by blast
  then show ?thesis
  proof cases
    case 2
    then have "broker_ops (routes D) pubs Q = put body (dlq ch) Q"
      using route_queue(1) [OF b] by (simp add: dlq_message_def)
    then show ?thesis using queues_good_put [OF good(1), of "dlq ch" body] by simp
  next
    case (3 nid a p op)
    obtain row where row: "1 \<le> a" "row \<in> set (notifications d)" "r_id row = nid"
      "r_channel row = toString_Channel ch"
      using good(2) 3(1) by (auto simp: good_msg_def)
    obtain payload where pay: "a \<le> maxRetries (dp_config D)" "decode (dp_json D) payload = Inr (nid, a + 1, p)"
      "broker_op (routes D) op Q = put payload (retryQueue ch a) Q"
      by (rule retry_decodes [OF dep 3(3) row(1)])
    then have "good_msg D d ch payload" unfolding good_msg_def using row by auto
    then have "queues_good D d (put payload (retryQueue ch a) Q)"
      by (intro queues_good_put [OF good(1)]) simp
    then show ?thesis by (simp add: 3(2) pay(3))
  qed (use good in simp)
qed

text \<open>A published retry waits on its rung.\<close>

lemma retry_waits:
  assumes dep: "deployable D" and r: "op \<in> set ops" "is_retry (dp_json D) ch (dp_config D) nid a p op" "1 \<le> a"
    and row: "r_id row = nid" "r_channel row = toString_Channel ch"
  shows "waiting D (broker_ops (routes D) ops Q) row"
proof -
  obtain payload where pay: "op = Publish '''' (retryQueue ch a) (message payload p)"
    "decode (dp_json D) payload = Inr (nid, a + 1, p)" "live D ch (retryQueue ch a)"
    by (rule retry_decodes [OF dep r(2,3)])
  have "broker_laws (dp_route D)" using dep by (simp add: deployable_def)
  then have "payload \<in> set (broker_ops (routes D) ops Q (retryQueue ch a))"
    using broker_ops_mem [OF r(1) [unfolded pay(1)], of "retryQueue ch a" "routes D" Q]
      route_queue(2) [OF _ pay(3)] by (simp add: message_def)
  then show ?thesis by (rule waitingI [OF row(2) pay(3) _ pay(2) [folded row(1)]])
qed

text \<open>A row whose message has been settled is still accounted for.\<close>

lemma settled_row_ok:
  assumes dep: "deployable D" and V: "we_db V = dp_db D" "we_json V = dp_json D"
    and s: "settled V ch (dp_config D) body nid a p w'"
    and dec: "decode (dp_json D) body = Inr (nid, a, p)" and a: "1 \<le> a"
    and row: "row \<in> set (notifications (w_db w'))" "r_id row = nid" "r_channel row = toString_Channel ch"
      "r_status row \<in> {''PENDING'', ''PROCESSING'', ''SENT'', ''DEAD_LETTERED''}"
  shows "row_ok D L (broker_ops (routes D) (w_ops w') Q) row"
proof -
  have b: "broker_laws (dp_route D)" using dep by (simp add: deployable_def)
  have st: "all_status (we_db V) nid S (w_db w') \<Longrightarrow> r_status row \<in> S" for S
    using row(1,2) by (auto simp: all_status_def)
  consider "r_status row = ''SENT''"
    | "r_status row = ''DEAD_LETTERED''" "Publish '''' (dlq ch) (dlq_message body) \<in> set (w_ops w')"
    | op where "op \<in> set (w_ops w')" "is_retry (dp_json D) ch (dp_config D) nid a p op"
    using s st [of "{''SENT'', ''CANCELLED''}"] st [of "{''DEAD_LETTERED''}"] row(4) V
    unfolding settled_def by auto
  then show ?thesis
  proof cases
    case 1
    then show ?thesis by (simp add: row_ok_def)
  next
    case 2
    then have "body \<in> set (broker_ops (routes D) (w_ops w') Q (dlq ch))"
      using broker_ops_mem [OF 2(2), of "dlq ch" "routes D" Q] route_queue(1) [OF b]
      by (simp add: dlq_message_def)
    then have "parked D (broker_ops (routes D) (w_ops w') Q) row"
      unfolding parked_def using row(2,3) dec by blast
    with 2(1) show ?thesis by (simp add: row_ok_def)
  next
    case (3 op)
    from retry_waits [OF dep 3 a row(2,3)] show ?thesis using row(4) by (simp add: row_ok_def)
  qed
qed

lemma sys_inv_deliver:
  assumes dep: "deployable D" and inv: "sys_inv D s"
    and q: "s_queues s (mainQueue ch) = xs @ body # ys"
    and V: "we_db V = dp_db D" "we_json V = dp_json D"
    and m: "onMessage V ch (dp_config D) body tag \<lparr>w_db = s_db s, w_router = s_router s, w_ops = []\<rparr> = (r, w')"
    and ops: "ops = take k (w_ops w')"
    and Q: "Q = (if Ack tag \<in> set ops then (s_queues s)(mainQueue ch := xs @ ys) else s_queues s)"
  shows "sys_inv D (s\<lparr>s_db := w_db w', s_router := w_router w',
      s_queues := broker_ops (routes D) ops Q\<rparr>)"
proof -
  let ?w = "\<lparr>w_db = s_db s, w_router = s_router s, w_ops = []\<rparr>"
  let ?Q' = "broker_ops (routes D) ops Q"
  have i: "schema_inv (dp_db D) (s_db s)" "router_inv (s_router s)" "queues_good D (s_db s) (s_queues s)"
    and rows: "\<And>row. row \<in> set (notifications (s_db s)) \<Longrightarrow> row_ok D (s_dropped s) (s_queues s) row"
    using inv by (simp_all add: sys_inv_def)
  have key: "key_inv (we_db V) (w_db ?w)" using i(1) by (simp add: V key_inv_schema)
  have good: "good_msg D (s_db s) ch body"
    by (rule queues_goodD [OF i(3), of ch "mainQueue ch"]) (simp_all add: q)
  then obtain nid a p row0 where dec: "decode (dp_json D) body = Inr (nid, a, p)" and a: "1 \<le> a"
    and row0: "row0 \<in> set (notifications (s_db s))" "r_id row0 = nid" "r_channel row0 = toString_Channel ch"
    by (auto simp: good_msg_def)
  have decV: "decode (we_json V) body = Inr (nid, a, p)" using dec V by simp
  have st: "rows_step (dp_db D) nid (s_db s) (w_db w')"
    using onMessage_steps [OF key decV m] by (simp add: V)
  have keeps: "keeps_rows (s_db s) (w_db w')" by (rule rows_step_keeps [OF st])
  have winv: "world_inv (dp_db D) w'"
    using preservesD [OF world_inv_onMessage [OF V(1)] _ m] i by (simp add: world_inv_def)
  have h: "handled (dp_json D) ch (dp_config D) body tag r (w_ops w')"
    using emitsD [OF emits_onMessage m] V by auto
  have less: "set (Q q') \<subseteq> set (s_queues s q')" for q'
    unfolding Q using take_less [where Q = "s_queues s", OF q] by simp
  have keep: "b \<in> set (?Q' q')" if "b \<in> set (s_queues s q')" "b \<noteq> body \<or> Ack tag \<notin> set ops \<or> q' \<noteq> mainQueue ch" for b q'
  proof -
    have "b \<in> set (Q q')"
      using that take_keeps [where Q = "s_queues s", OF q, of b q'] by (auto simp: Q)
    then show ?thesis using broker_ops_mono [of Q q' "routes D" ops] by blast
  qed
  have "queues_good D (w_db w') ?Q'"
  proof -
    obtain pubs where p: "outgoing (dp_json D) ch (dp_config D) body pubs"
      "broker_ops (routes D) ops Q = broker_ops (routes D) pubs Q"
      unfolding ops by (rule handled_broker [OF h])
    have "queues_good D (w_db w') Q"
      by (rule queues_good_less [OF queues_good_rows [OF i(3) keeps] less])
    from outgoing_good [OF dep this good_msg_rows [OF good keeps] p(1)] show ?thesis
      unfolding p(2) .
  qed
  moreover have "row_ok D (s_dropped s) ?Q' row'" if mem: "row' \<in> set (notifications (w_db w'))" for row'
  proof -
    obtain row where row: "row \<in> set (notifications (s_db s))" "row_step (dp_db D) nid row row'"
      using rows_step_back [OF st mem] .
    have id: "r_id row' = r_id row" "r_channel row' = r_channel row"
      using row(2) by (simp_all add: row_step_def)
    have ok: "row_ok D (s_dropped s) (s_queues s) row" by (rule rows [OF row(1)])
    have status: "r_status row' \<in> {''PENDING'', ''PROCESSING'', ''SENT'', ''DEAD_LETTERED''}"
      using ok row(2) by (auto simp: row_ok_def row_step_def)
    show ?thesis
    proof (cases "r_id row = nid")
      case True
      then have ch: "r_channel row = toString_Channel ch"
        using good_msg_channel [OF good _ key_inv_schema [OF i(1)] row(1)] dec by simp
      from h show ?thesis
      proof (cases rule: handled_take [where k = k])
        case cut
        then have "body \<in> set (?Q' (mainQueue ch))" by (intro keep) (simp_all add: q ops)
        then have "waiting D ?Q' row'"
          by (rule waitingI [where q = "mainQueue ch" and a = a and p = p, rotated 2])
            (use id ch dec True in simp_all)
        then show ?thesis using status by (simp add: row_ok_def)
      next
        case (acked pubs)
        have "settled V ch (dp_config D) body nid a p w'"
          by (rule onMessage_settles [OF key decV m [unfolded acked(2)]])
        from settled_row_ok [OF dep V this dec a mem] show ?thesis
          using id ch True status by (simp add: ops acked(3))
      qed
    next
      case False
      then have "\<not> same_key (dp_db D) (r_id row) nid"
        using row0 row(1) key_inv_unique [OF key_inv_schema [OF i(1)], of row row0] by auto
      then have same: "row' = row" using row(2) by (simp add: row_step_def)
      have w: "waiting D ?Q' row" if w: "waiting D (s_queues s) row"
      proof -
        obtain c q' b a' p' where b: "r_channel row = toString_Channel c" "live D c q'"
          "b \<in> set (s_queues s q')" "decode (dp_json D) b = Inr (r_id row, a', p')"
          using w unfolding waiting_def by blast
        then have "b \<noteq> body" using dec False by auto
        then have "b \<in> set (?Q' q')" by (intro keep b(3)) simp
        then show ?thesis by (rule waitingI [OF b(1,2) _ b(4)])
      qed
      have p: "parked D ?Q' row" if "parked D (s_queues s) row"
        by (rule parked_mono [OF that]) (auto intro: keep)
      show ?thesis using ok w p unfolding same by (auto simp: row_ok_def)
    qed
  qed
  ultimately show ?thesis
    using winv by (intro sys_invI) (simp_all add: world_inv_def)
qed

lemma sys_inv_environment:
  "sys_inv D s \<Longrightarrow> sys_inv D (s\<lparr>s_db := (s_db s)\<lparr>db_faults := fs, db_now := now\<rparr>\<rparr>)"
  by (auto simp: sys_inv_def schema_inv_def key_inv_def outbox_inv_def queues_good_def good_msg_def)

lemma sys_inv_restart: "sys_inv D s \<Longrightarrow> sys_inv D (s\<lparr>s_router := newRouter th dur\<rparr>)"
  by (simp add: sys_inv_def router_inv_new)

lemma sys_inv_step:
  assumes "deployable D" "sys_inv D s" "sys_step D s s'" shows "sys_inv D s'"
  using assms(3)
proof cases
  case (request V pb rs input r w' ops k)
  show ?thesis unfolding request(1)
    by (rule sys_inv_request [OF assms(1,2) request(2-6)])
next
  case (deliver ch xs body ys V tag r w' ops k Q)
  show ?thesis unfolding deliver(1)
    by (rule sys_inv_deliver [OF assms(1,2) deliver(2-7)])
next
  case (expire q xs body ys ttl x k)
  show ?thesis unfolding expire(1)
    by (rule sys_inv_expire [OF assms(1,2) expire(2,4)])
next
  case restart
  show ?thesis unfolding restart(1) by (rule sys_inv_restart [OF assms(2)])
next
  case (environment fs now)
  show ?thesis unfolding environment(1) by (rule sys_inv_environment [OF assms(2)])
qed

lemma sys_inv_reach: "sys_reach D s \<Longrightarrow> deployable D \<Longrightarrow> sys_inv D s"
  by (induction rule: sys_reach.induct) (auto intro: sys_inv_init sys_inv_step)

text \<open>One outbox event per row, in the order of the rows.\<close>

lemma filter_map_distinct:
  "map f xs = map g ys \<Longrightarrow> distinct (map (h \<circ> g) ys) \<Longrightarrow> y \<in> set ys \<Longrightarrow>
   \<exists>x. filter (\<lambda>x. h (f x) = h (g y)) xs = [x] \<and> f x = g y"
proof (induction xs arbitrary: ys)
  case (Cons x xs)
  then obtain z zs where ys: "ys = z # zs" "f x = g z" "map f xs = map g zs" by (cases ys) auto
  have none: "filter (\<lambda>x. h (f x) = h (g z)) xs = []"
  proof -
    have "h (f x') \<noteq> h (g z)" if "x' \<in> set xs" for x'
    proof -
      have "f x' \<in> set (map g zs)" using that ys(3) by (metis imageI list.set_map)
      moreover have "h (g z) \<notin> h ` set (map g zs)"
        using Cons.prems(2) ys(1) by (simp add: image_image)
      ultimately show ?thesis by (metis imageI)
    qed
    then show ?thesis by (simp add: filter_empty_conv)
  qed
  show ?case
  proof (cases "y = z")
    case True
    with none ys show ?thesis by simp
  next
    case False
    then have y: "y \<in> set zs" using Cons.prems(3) ys(1) by simp
    moreover have "h (g z) \<notin> h ` set (map g zs)"
      using Cons.prems(2) ys(1) by (simp add: image_image)
    ultimately have "h (g y) \<noteq> h (g z)" by (metis imageI list.set_map)
    with Cons.IH [OF ys(3) _ y] Cons.prems(2) ys(1,2) show ?thesis by simp
  qed
qed simp

lemma outbox_single:
  assumes "schema_inv E d" "row \<in> set (notifications d)"
  shows "\<exists>e. filter (\<lambda>e. o_notification_id e = r_id row) (outbox_events d) = [e] \<and>
    o_event_type e = ''NOTIFICATION_CREATED'' \<and> o_status e = ''PENDING''"
proof -
  have m: "map outbox_key (outbox_events d) = map outbox_of (notifications d)"
    using assms(1) by (simp add: schema_inv_def outbox_inv_def)
  have "distinct (map (collation E) (map r_id (notifications d)))"
    using assms(1) by (simp add: schema_inv_def key_inv_def)
  then have "distinct (map (fst \<circ> outbox_of) (notifications d))"
    by (auto simp: distinct_map outbox_of_def comp_def inj_on_def)
  from filter_map_distinct [OF m this assms(2)] show ?thesis
    by (auto simp: outbox_key_def outbox_of_def)
qed

section \<open>A run for witnesses\<close>

definition sample_deployment :: "string deployment" where
  "sample_deployment = \<lparr>dp_db = plain_env, dp_json = chunk_json, dp_route = simple_broker,
     dp_config = Config_default\<rparr>"

lemma deployable_sample: "deployable sample_deployment"
  by (simp add: deployable_def sample_deployment_def json_laws_chunk_json broker_laws_simple
      Config_default_def int32_range_def)

definition sample_queued :: sys where
  "sample_queued = \<lparr>s_db = sample_db, s_router = newRouter 5 30000,
     s_queues = put (chunk_obj (delivery_fields chunk_json (n_id sample_saved) 1 5)) (mainQueue Sms) (\<lambda>_. []), s_dropped = []\<rparr>"

text \<open>After one submission the notification is stored and its message waits in the main queue.\<close>

lemma sample_submitted: "sys_reach sample_deployment sample_queued"
proof -
  let ?msg = "chunk_obj (delivery_fields chunk_json (n_id sample_saved) 1 5)"
  have n: "n_channel sample_saved = Sms" "n_priority sample_saved = High"
    by (simp_all add: sample_saved_def sample_notification_def)
  have m: "j_dump (he_json sample_http) (deliveryMessage (he_json sample_http) sample_saved) = Inr ?msg"
    by (simp add: sample_http_def deliveryMessage_def chunk_dump delivery_fields_def n)
  have o: "j_dump (he_json sample_http) (notificationToJson (he_json sample_http) sample_saved) =
      Inr (chunk_obj [(''id'', j_str chunk_json (n_id sample_saved)),
        (''idempotencyKey'', j_str chunk_json (n_idempotencyKey sample_saved)),
        (''channel'', j_str chunk_json (toString_Channel (n_channel sample_saved))),
        (''priority'', j_str chunk_json (toString_Priority (n_priority sample_saved))),
        (''recipient'', j_str chunk_json (n_recipient sample_saved)),
        (''subject'', j_str chunk_json (n_subject sample_saved)),
        (''status'', j_str chunk_json (toString_NotificationStatus (n_status sample_saved))),
        (''attemptCount'', j_num chunk_json (n_attemptCount sample_saved))])"
    by (simp add: sample_http_def notificationToJson_def chunk_dump)
  have laws: "json_laws (he_json sample_http)" by (simp add: sample_http_def json_laws_chunk_json)
  have p: "parse_submission sample_http (rq_body (sample_request ''b'')) = Inr sample_notification"
    using sample_parse [of "''b''"] sample_body_b by simp
  have ins: "insertWithOutbox (he_db sample_http) (he_id_draws sample_http) sample_notification
      (h_db (http_at db_empty)) = (Inr sample_saved, sample_db)"
    using sample_insert by (simp add: sample_http_def http_at_def)
  obtain w' where w: "handleConnection sample_http (Some (sample_request ''b'')) (http_at db_empty) = (Inr (), w')"
    "h_db w' = sample_db"
    "pub_ops (h_publisher w') = pub_ops (h_publisher (http_at db_empty)) @
       [Publish exchangeName (routingKey Sms) (message ?msg 5)]"
    using post_publishes [OF laws sample_is_post p ins m o] n by auto
  have dr: "valid_draws (he_id_draws sample_http)"
    by (simp add: sample_http_def valid_draws_def zero_draws_def)
  have "sys_step sample_deployment (sys_init sample_deployment)
     ((sys_init sample_deployment)\<lparr>s_db := h_db w', s_queues := broker_ops (routes sample_deployment)
       (take 1 [Publish exchangeName (routingKey Sms) (message ?msg 5)]) (s_queues (sys_init sample_deployment)),
       s_dropped := s_dropped (sys_init sample_deployment) @
         drop 1 [Publish exchangeName (routingKey Sms) (message ?msg 5)]\<rparr>)"
    by (rule sys_step.request [where k = 1 and V = sample_http and pb = "newPublisher Config_default" and rs = "[]"
          and input = "Some (sample_request ''b'')" and r = "Inr ()"])
      (use w dr in \<open>simp_all add: http_at_def sys_init_def sample_http_def sample_deployment_def\<close>)
  moreover have "broker_op (routes sample_deployment) (Publish exchangeName (routingKey Sms) (message ?msg 5))
      (\<lambda>_. []) = put ?msg (mainQueue Sms) (\<lambda>_. [])"
    using route_main [OF broker_laws_simple, of Config_default Sms]
    by (simp add: sample_deployment_def message_def)
  ultimately have "sys_step sample_deployment (sys_init sample_deployment) sample_queued"
    by (simp add: w(2) sys_init_def sample_queued_def del: broker_op.simps)
      (simp add: sample_deployment_def Config_default_def)
  then show ?thesis by (rule sys_reach.step [OF sys_reach.init])
qed

section \<open>Properties\<close>

text \<open>C7: no accepted notification is lost. In every reachable state of the service, after any
  interleaving of submissions, deliveries, expiries, restarts, database faults, lost
  connections and kills of the process between its operations, every stored notification is
  SENT, or has a delivery message for it waiting in the main queue or on a rung of the retry
  ladder of its own channel, or is DEAD_LETTERED with its message parked in its channel's
  dead-letter queue, or it is still PENDING because the publish of its own submission never
  reached the broker; the last is impossible when no publish of the HTTP server was lost. In
  every case exactly its outbox event, still PENDING, is stored beside it, from which it can
  be recovered. This needs a ladder with a rung for every retry (\<open>deployable\<close>).\<close>

theorem no_notification_lost:
  assumes "deployable D" "sys_reach D s" "row \<in> set (notifications (s_db s))"
  shows "(r_status row = ''SENT'' \<or> waiting D (s_queues s) row \<or>
      (r_status row = ''DEAD_LETTERED'' \<and> parked D (s_queues s) row) \<or>
      (r_status row = ''PENDING'' \<and>
        (\<exists>op. op \<in> set (s_dropped s) \<and> announcement (dp_json D) row op))) \<and>
    (\<exists>e. filter (\<lambda>e. o_notification_id e = r_id row) (outbox_events (s_db s)) = [e] \<and>
      o_event_type e = ''NOTIFICATION_CREATED'' \<and> o_status e = ''PENDING'')"
proof -
  have inv: "sys_inv D s" by (rule sys_inv_reach [OF assms(2,1)])
  then have "row_ok D (s_dropped s) (s_queues s) row" using assms(3) by (simp add: sys_inv_def)
  then show ?thesis
    using outbox_single [OF _ assms(3)] inv by (auto simp: sys_inv_def row_ok_def stranded_def)
qed

theorem no_notification_lost_witness:
  "waiting sample_deployment (s_queues sample_queued) (inserted_row sample_saved 0)"
proof -
  have m: "inserted_row sample_saved 0 \<in> set (notifications (s_db sample_queued))"
    by (simp add: sample_queued_def sample_db_def)
  have "s_dropped sample_queued = []" and "r_status (inserted_row sample_saved 0) = ''PENDING''"
    by (simp_all add: sample_queued_def inserted_row_def newRow_def)
  with no_notification_lost [OF deployable_sample sample_submitted m] show ?thesis by simp
qed

text \<open>C10: nothing foreign is in flight. In every reachable state the database satisfies the
  schema invariant (keys unique, one outbox event per notification), every notification's
  status is PENDING, PROCESSING, SENT or DEAD_LETTERED, and every message in a main or retry
  queue decodes to a stored notification of that queue's channel with an attempt number
  between 1 and \<open>maxRetries + 1\<close>.\<close>

theorem in_flight_well_formed:
  assumes "deployable D" "sys_reach D s"
  shows "schema_inv (dp_db D) (s_db s) \<and>
    list_all (\<lambda>row. r_status row \<in> {''PENDING'', ''PROCESSING'', ''SENT'', ''DEAD_LETTERED''})
      (notifications (s_db s)) \<and>
    (\<forall>ch q. live D ch q \<longrightarrow> list_all (\<lambda>body. \<exists>nid a p. decode (dp_json D) body = Inr (nid, a, p) \<and>
       1 \<le> a \<and> a \<le> max 1 (maxRetries (dp_config D) + 1) \<and>
       (\<exists>row. row \<in> set (notifications (s_db s)) \<and> r_id row = nid \<and> r_channel row = toString_Channel ch))
      (s_queues s q))"
proof -
  have inv: "sys_inv D s" by (rule sys_inv_reach [OF assms(2,1)])
  have "good_msg D (s_db s) ch body" if "live D ch q" "body \<in> set (s_queues s q)" for ch q body
    using inv that unfolding sys_inv_def queues_good_def by blast
  then show ?thesis
    using inv by (auto simp: sys_inv_def row_ok_def list_all_iff good_msg_def) blast
qed

theorem in_flight_well_formed_witness:
  "list_all (\<lambda>body. \<exists>nid a p. decode chunk_json body = Inr (nid, a, p) \<and> 1 \<le> a \<and> a \<le> 4)
     (s_queues sample_queued (mainQueue Sms))"
proof -
  have l: "live sample_deployment Sms (mainQueue Sms)" by simp
  have "list_all (\<lambda>body. \<exists>nid a p. decode (dp_json sample_deployment) body = Inr (nid, a, p) \<and>
       1 \<le> a \<and> a \<le> max 1 (maxRetries (dp_config sample_deployment) + 1) \<and>
       (\<exists>row. row \<in> set (notifications (s_db sample_queued)) \<and> r_id row = nid \<and>
          r_channel row = toString_Channel Sms)) (s_queues sample_queued (mainQueue Sms))"
    using in_flight_well_formed [OF deployable_sample sample_submitted] l by blast
  then show ?thesis
    by (fastforce simp: list_all_iff sample_deployment_def Config_default_def)
qed

end
