(* ===== verification/Handler.thy ===== *)
theory Handler
  imports Worker
begin

text \<open>
  The message handler of Worker.cpp in single steps. Between two database statements, before
  and after the provider call and between two operations on the channel, other threads run;
  this theory cuts \<open>onMessage\<close> at exactly these points, as a machine whose program counter
  holds the handler's local variables, and shows that the machine run alone is \<open>onMessage\<close>.
\<close>

section \<open>The machine\<close>

text \<open>The straight-line parts of the handler are lists of these operations.\<close>

datatype handler_op =
    Record DeliveryAttempt
  | MarkSent string
  | Increment string
  | PublishRetry string int "8 word"
  | PublishDlq string
  | MarkDeadLettered string
  | AckMessage

text \<open>
  \<open>Begin\<close>: a message has arrived; \<open>Lookup\<close>: it has been decoded; \<open>Claim\<close>: its notification
  has been read and is to be delivered; \<open>Calling\<close>: it has been marked PROCESSING; \<open>Sending\<close>:
  the breaker has admitted the request and the provider is working on it; \<open>Reporting\<close>: it has
  answered, or thrown, and the breaker is about to be told; \<open>Todo\<close>: what
  remains after the provider call (or of a message to be dropped); \<open>Threw\<close>: an exception has
  left the handler.
\<close>

datatype handler_pc =
    Begin
  | Lookup string int "8 word"
  | Claim string int "8 word" Notification
  | Calling string int "8 word" Notification
  | Sending string int "8 word" Notification
  | Reporting string int "8 word" Notification "exn + ProviderResult"
  | Todo "handler_op list"
  | Threw exn

definition op_act :: "('j, 'p) worker_env \<Rightarrow> Channel \<Rightarrow> nat \<Rightarrow> handler_op \<Rightarrow> ('p world, unit) act" where
  "op_act V ch tag op =
     (case op of
        Record attempt \<Rightarrow> on_db (record_attempt (we_db V) attempt)
      | MarkSent nid \<Rightarrow> on_db (markSent (we_db V) nid)
      | Increment nid \<Rightarrow> on_db (incrementAttemptCount (we_db V) nid)
      | PublishRetry nid a p \<Rightarrow>
          bindA (liftE (j_dump (we_json V) (retryBody (we_json V) nid a p)))
            (\<lambda>payload. emit (Publish '''' (retryQueue ch a) (message payload p)))
      | PublishDlq body \<Rightarrow> emit (Publish '''' (dlq ch) (dlq_message body))
      | MarkDeadLettered nid \<Rightarrow> on_db (markDeadLettered (we_db V) nid)
      | AckMessage \<Rightarrow> emit (Ack tag))"

definition success_ops :: "Channel \<Rightarrow> string \<Rightarrow> int \<Rightarrow> ProviderResult \<Rightarrow> handler_op list" where
  "success_ops ch nid a result =
     [Record ((newAttempt ch nid a)\<lparr>a_status := Success, a_providerRef := Some (providerRef result)\<rparr>),
      MarkSent nid, Increment nid, AckMessage]"

definition failure_ops ::
  "Channel \<Rightarrow> Config \<Rightarrow> string \<Rightarrow> int \<Rightarrow> 8 word \<Rightarrow> string \<Rightarrow> exn \<Rightarrow> handler_op list" where
  "failure_ops ch config nid a p body ex =
     (let exhausted = a > maxRetries config
      in if isTransient ex \<and> \<not> exhausted
         then [Increment nid,
               Record ((newAttempt ch nid a)\<lparr>a_status := TransientFailure, a_errorMessage := Some (what ex)\<rparr>),
               PublishRetry nid a p, AckMessage]
         else [Increment nid,
               Record ((newAttempt ch nid a)
                 \<lparr>a_status := (if isTransient ex then TransientFailure else PermanentFailure),
                  a_errorMessage := Some (what ex)\<rparr>),
               PublishDlq body, MarkDeadLettered nid, AckMessage])"

fun handler_step ::
  "('j, 'p) worker_env \<Rightarrow> Channel \<Rightarrow> Config \<Rightarrow> string \<Rightarrow> nat \<Rightarrow> handler_pc \<Rightarrow> 'p world \<Rightarrow> handler_pc \<times> 'p world"
where
  "handler_step V ch config body tag Begin w =
     (case decode (we_json V) body of
        Inl ex \<Rightarrow> (Todo [AckMessage], w)
      | Inr (nid, a, p) \<Rightarrow> (Lookup nid a p, w))"
| "handler_step V ch config body tag (Lookup nid a p) w =
     (case on_db (findById (we_db V) nid) w of
        (Inl ex, w') \<Rightarrow> (Threw ex, w')
      | (Inr None, w') \<Rightarrow> (Todo [AckMessage], w')
      | (Inr (Some n), w') \<Rightarrow>
          (if n_status n = Cancelled \<or> n_status n = Sent then Todo [AckMessage] else Claim nid a p n, w'))"
| "handler_step V ch config body tag (Claim nid a p n) w =
     (case on_db (markProcessing (we_db V) nid) w of
        (Inl ex, w') \<Rightarrow> (Threw ex, w')
      | (Inr u, w') \<Rightarrow> (Calling nid a p n, w'))"
| "handler_step V ch config body tag (Calling nid a p n) w =
     (case on_router (router_admit (we_t1 V) n) w of
        (Inl ex, w') \<Rightarrow>
          (if is_ProviderException ex then Todo (failure_ops ch config nid a p body ex) else Threw ex, w')
      | (Inr u, w') \<Rightarrow> (Sending nid a p n, w'))"
| "handler_step V ch config body tag (Sending nid a p n) w =
     (case on_router (router_call (we_provider V) n) w of
        (outcome, w') \<Rightarrow> (Reporting nid a p n outcome, w'))"
| "handler_step V ch config body tag (Reporting nid a p n outcome) w =
     (case on_router (router_report (we_t2 V) n outcome) w of
        (Inl ex, w') \<Rightarrow>
          (if is_ProviderException ex then Todo (failure_ops ch config nid a p body ex) else Threw ex, w')
      | (Inr result, w') \<Rightarrow> (Todo (success_ops ch nid a result), w'))"
| "handler_step V ch config body tag (Todo []) w = (Todo [], w)"
| "handler_step V ch config body tag (Todo (op # ops)) w =
     (case op_act V ch tag op w of
        (Inl ex, w') \<Rightarrow> (Threw ex, w')
      | (Inr u, w') \<Rightarrow> (Todo ops, w'))"
| "handler_step V ch config body tag (Threw ex) w = (Threw ex, w)"

text \<open>Running it alone, for a number of steps, and what it has then come to.\<close>

fun handler_run ::
  "('j, 'p) worker_env \<Rightarrow> Channel \<Rightarrow> Config \<Rightarrow> string \<Rightarrow> nat \<Rightarrow> nat \<Rightarrow> handler_pc \<Rightarrow> 'p world \<Rightarrow>
   handler_pc \<times> 'p world"
where
  "handler_run V ch config body tag 0 pc w = (pc, w)"
| "handler_run V ch config body tag (Suc k) pc w =
     (case handler_step V ch config body tag pc w of (pc', w') \<Rightarrow> handler_run V ch config body tag k pc' w')"

definition finished :: "exn + unit \<Rightarrow> handler_pc" where
  "finished r = (case r of Inl ex \<Rightarrow> Threw ex | Inr u \<Rightarrow> Todo [])"

section \<open>The machine run alone is the handler\<close>

lemma run_Threw [simp]: "handler_run V ch config body tag k (Threw ex) w = (Threw ex, w)"
  by (induction k) simp_all

lemma run_done [simp]: "handler_run V ch config body tag k (Todo []) w = (Todo [], w)"
  by (induction k) simp_all

text \<open>A straight-line part is the sequence of its operations.\<close>

fun ops_act :: "('j, 'p) worker_env \<Rightarrow> Channel \<Rightarrow> nat \<Rightarrow> handler_op list \<Rightarrow> ('p world, unit) act" where
  "ops_act V ch tag [] = returnA ()"
| "ops_act V ch tag (op # ops) = seqA (op_act V ch tag op) (ops_act V ch tag ops)"

lemma run_Todo:
  "length ops \<le> k \<Longrightarrow> ops_act V ch tag ops w = (r, w') \<Longrightarrow>
   handler_run V ch config body tag k (Todo ops) w = (finished r, w')"
proof (induction ops arbitrary: k w)
  case (Cons op ops)
  then obtain j where k: "k = Suc j" "length ops \<le> j" by (cases k) auto
  obtain r1 w1 where s: "op_act V ch tag op w = (r1, w1)" by (cases "op_act V ch tag op w")
  with Cons.prems(2) have "case r1 of Inl ex \<Rightarrow> r = Inl ex \<and> w' = w1
      | Inr u \<Rightarrow> ops_act V ch tag ops w1 = (r, w')"
    by (cases r1) (auto simp: seqA_Inl seqA_Inr)
  then show ?case
    using s k Cons.IH [OF k(2), of w1] by (cases r1) (auto simp: finished_def)
qed (auto simp: finished_def)

lemma seqA_returnA: "seqA m (returnA ()) = m"
  by (auto simp: seqA_def bindA_def fun_eq_iff split: prod.splits sum.splits)

lemma seqA_assoc: "seqA (seqA l m) n = seqA l (seqA m n)"
  by (auto simp: seqA_def bindA_def fun_eq_iff split: prod.splits sum.splits)

lemma seqA_bindA: "seqA (bindA m f) n = bindA m (\<lambda>x. seqA (f x) n)"
  by (auto simp: seqA_def bindA_def fun_eq_iff split: prod.splits sum.splits)

lemma newEnvelope_message:
  "newEnvelope b\<lparr>env_persistent := True\<rparr> = dlq_message b"
  "dlq_message b\<lparr>env_priority := Some p\<rparr> = message b p"
  by (simp_all add: newEnvelope_def message_def dlq_message_def)

lemma deliver_ops:
  "deliver V ch n nid a tag =
     bindA (on_router (router_send (we_provider V) (we_t1 V) (we_t2 V) n))
       (\<lambda>result. ops_act V ch tag (success_ops ch nid a result))"
  by (simp add: deliver_def success_ops_def op_act_def seqA_returnA Let_def)

lemma on_failure_ops:
  "on_failure V ch config nid a p body tag ex = ops_act V ch tag (failure_ops ch config nid a p body ex)"
  by (simp add: on_failure_def schedule_retry_def dead_letter_def failure_ops_def op_act_def
      seqA_returnA seqA_assoc seqA_bindA Let_def newEnvelope_message)

text \<open>A statement throws database errors only, so the handler's catch concerns the provider call.\<close>

lemma execute_throws:
  assumes "execute stmt d = (Inl ex, d')" "\<And>e d. stmt d = Inl e \<Longrightarrow> \<not> is_ProviderException e"
  shows "\<not> is_ProviderException ex"
  using assms by (auto simp: execute_def split: list.splits option.splits sum.splits prod.splits)

lemma success_throws:
  "on_db (record_attempt E att) w = (Inl ex, w') \<Longrightarrow> \<not> is_ProviderException ex"
  "on_db (markSent E nid) w = (Inl ex, w') \<Longrightarrow> \<not> is_ProviderException ex"
  "on_db (incrementAttemptCount E nid) w = (Inl ex, w') \<Longrightarrow> \<not> is_ProviderException ex"
  unfolding on_db_def zoomA_def record_attempt_def markSent_def incrementAttemptCount_def
  by (auto split: prod.splits elim!: execute_throws
      simp: upsert_attempt_def update_status_def update_attempt_count_def Let_def split: if_splits)

lemma seqA_Inl_conv:
  "seqA m n s = (Inl e, u) \<longleftrightarrow> m s = (Inl e, u) \<or> (\<exists>x t. m s = (Inr x, t) \<and> n t = (Inl e, u))"
  by (auto simp: seqA_def bindA_def split: prod.splits sum.splits)

lemma success_ops_throw:
  assumes "ops_act V ch tag (success_ops ch nid a result) w = (Inl ex, w')"
  shows "\<not> is_ProviderException ex"
  using assms by (auto simp: success_ops_def op_act_def seqA_Inl_conv emit_eq dest: success_throws)

lemma run_step:
  "handler_run V ch config body tag (Suc k) pc w =
     (case handler_step V ch config body tag pc w of (pc', w') \<Rightarrow> handler_run V ch config body tag k pc' w')"
  by simp

lemma on_router_split:
  "on_router (router_send prov t1 t2 n) w =
     (case on_router (router_admit t1 n) w of
        (Inl ex, w') \<Rightarrow> (Inl ex, w')
      | (Inr u, w') \<Rightarrow>
          (case on_router (router_call prov n) w' of
             (outcome, w'') \<Rightarrow> on_router (router_report t2 n outcome) w''))"
  by (auto simp: router_send_split on_router_def zoomA_def seqA_def bindA_def split: prod.splits sum.splits)

text \<open>From the provider's answer on, given how the call through the router came out.\<close>

lemma answer_run:
  assumes "on_router (router_send (we_provider V) (we_t1 V) (we_t2 V) n) w = (r1, w1)"
    and "catchA (deliver V ch n nid a tag)
      (\<lambda>ex. if is_ProviderException ex then on_failure V ch config nid a p body tag ex else throwA ex) w = (r, w')"
    and "5 \<le> k"
  shows "handler_run V ch config body tag k
      (case r1 of
         Inl ex \<Rightarrow> if is_ProviderException ex then Todo (failure_ops ch config nid a p body ex) else Threw ex
       | Inr result \<Rightarrow> Todo (success_ops ch nid a result)) w1 = (finished r, w')"
proof (cases r1)
  case (Inl ex)
  with assms(1,2) have m: "(if is_ProviderException ex then on_failure V ch config nid a p body tag ex
      else throwA ex) w1 = (r, w')"
    by (simp add: deliver_ops catchA_def bindA_Inl)
  have "length (failure_ops ch config nid a p body ex) \<le> k"
    using assms(3) by (simp add: failure_ops_def Let_def)
  then show ?thesis using run_Todo m Inl by (auto simp: on_failure_ops finished_def split: if_splits)
next
  case (Inr result)
  obtain r2 w2 where o: "ops_act V ch tag (success_ops ch nid a result) w1 = (r2, w2)"
    by (cases "ops_act V ch tag (success_ops ch nid a result) w1")
  then have d: "deliver V ch n nid a tag w = (r2, w2)" using assms(1) Inr by (simp add: deliver_ops bindA_Inr)
  have "(r, w') = (r2, w2)"
  proof (cases r2)
    case (Inl ex)
    with success_ops_throw o have "\<not> is_ProviderException ex" by blast
    with d Inl assms(2) show ?thesis by (simp add: catchA_Inl)
  qed (use d assms(2) in \<open>simp add: catchA_Inr\<close>)
  moreover have "length (success_ops ch nid a result) \<le> k" using assms(3) by (simp add: success_ops_def)
  ultimately show ?thesis using run_Todo o Inr by simp
qed

lemma call_run:
  assumes "catchA (deliver V ch n nid a tag)
      (\<lambda>ex. if is_ProviderException ex then on_failure V ch config nid a p body tag ex else throwA ex) w = (r, w')"
    and "8 \<le> k"
  shows "handler_run V ch config body tag k (Calling nid a p n) w = (finished r, w')"
proof -
  obtain j where k: "k = Suc (Suc (Suc j))" "5 \<le> j"
    by (rule that [of "k - 3"]) (use assms(2) in auto)
  obtain r1 w1 where ad: "on_router (router_admit (we_t1 V) n) w = (r1, w1)"
    by (cases "on_router (router_admit (we_t1 V) n) w")
  show ?thesis
  proof (cases r1)
    case (Inl ex)
    with ad have "on_router (router_send (we_provider V) (we_t1 V) (we_t2 V) n) w = (Inl ex, w1)"
      by (simp add: on_router_split)
    from answer_run [OF this assms(1), of "Suc (Suc j)"] show ?thesis using ad Inl k by simp
  next
    case (Inr u)
    obtain oc w2 where c: "on_router (router_call (we_provider V) n) w1 = (oc, w2)"
      by (cases "on_router (router_call (we_provider V) n) w1")
    obtain r2 w3 where d: "on_router (router_report (we_t2 V) n oc) w2 = (r2, w3)"
      by (cases "on_router (router_report (we_t2 V) n oc) w2")
    with ad c Inr have "on_router (router_send (we_provider V) (we_t1 V) (we_t2 V) n) w = (r2, w3)"
      by (simp add: on_router_split)
    from answer_run [OF this assms(1) k(2)] show ?thesis using ad Inr c d k
      by (cases r2) simp_all
  qed
qed

lemma ack_run:
  "0 < k \<Longrightarrow> handler_run V ch config body tag k (Todo [AckMessage]) w =
     (finished (Inr ()), w\<lparr>w_ops := w_ops w @ [Ack tag]\<rparr>)"
  by (rule run_Todo) (simp_all add: op_act_def seqA_returnA emit_eq)

text \<open>The part after the lookup has found a notification to deliver.\<close>

definition attempt_act ::
  "('j, 'p) worker_env \<Rightarrow> Channel \<Rightarrow> Config \<Rightarrow> string \<Rightarrow> nat \<Rightarrow> string \<Rightarrow> int \<Rightarrow> 8 word \<Rightarrow> Notification \<Rightarrow>
   ('p world, unit) act" where
  "attempt_act V ch config body tag nid a p n =
     seqA (on_db (markProcessing (we_db V) nid))
       (catchA (deliver V ch n nid a tag)
         (\<lambda>ex. if is_ProviderException ex then on_failure V ch config nid a p body tag ex else throwA ex))"

lemma claim_run:
  "handler_run V ch config body tag (k + 9) (Claim nid a p n) w =
     (case attempt_act V ch config body tag nid a p n w of (r, w') \<Rightarrow> (finished r, w'))"
proof -
  obtain o2 w2 where g: "on_db (markProcessing (we_db V) nid) w = (o2, w2)"
    by (cases "on_db (markProcessing (we_db V) nid) w")
  show ?thesis
  proof (cases o2)
    case (Inl ex)
    with g show ?thesis by (simp add: attempt_act_def seqA_Inl finished_def eval_nat_numeral)
  next
    case (Inr u)
    with g have "handler_run V ch config body tag (k + 9) (Claim nid a p n) w =
        handler_run V ch config body tag (k + 8) (Calling nid a p n) w2"
      by (simp add: eval_nat_numeral)
    then show ?thesis using g Inr
      by (auto simp: attempt_act_def seqA_Inr intro: call_run split: prod.split)
  qed
qed

lemma lookup_run:
  assumes f: "on_db (findById (we_db V) nid) w = (o1, w1)"
  shows "handler_run V ch config body tag (k + 10) (Lookup nid a p) w =
     (case o1 of Inl ex \<Rightarrow> (Threw ex, w1)
      | Inr None \<Rightarrow> (Todo [], w1\<lparr>w_ops := w_ops w1 @ [Ack tag]\<rparr>)
      | Inr (Some n) \<Rightarrow>
          if n_status n = Cancelled \<or> n_status n = Sent then (Todo [], w1\<lparr>w_ops := w_ops w1 @ [Ack tag]\<rparr>)
          else (case attempt_act V ch config body tag nid a p n w1 of (r, w') \<Rightarrow> (finished r, w')))"
proof -
  have e: "k + 10 = Suc (k + 9)" by simp
  have "handler_run V ch config body tag (k + 10) (Lookup nid a p) w =
      (case handler_step V ch config body tag (Lookup nid a p) w of (pc', w') \<Rightarrow>
         handler_run V ch config body tag (k + 9) pc' w')"
    by (simp only: e handler_run.simps(2))
  then show ?thesis using f
    by (auto simp: claim_run ack_run finished_def split: sum.splits option.splits)
qed

text \<open>C9: the handler cut at every point where another thread can run is the handler. Run
  alone for eleven steps (its longest path: decode, lookup, claim, admission, call, report, five operations) or
  more, the machine has done to database, breakers and channel exactly what \<open>onMessage\<close> does,
  under every outcome of the statements and the provider, and has finished with its result.\<close>

theorem handler_machine_refines:
  "handler_run V ch config body tag (k + 11) Begin w =
     (case onMessage V ch config body tag w of (r, w') \<Rightarrow> (finished r, w'))"
proof (cases "decode (we_json V) body")
  case (Inl ex)
  have "handler_run V ch config body tag (k + 11) Begin w =
      handler_run V ch config body tag (k + 10) (Todo [AckMessage]) w"
    by (simp add: Inl eval_nat_numeral)
  with Inl show ?thesis by (simp add: onMessage_def emit_eq ack_run finished_def)
next
  case (Inr m)
  obtain nid a p where m: "m = (nid, a, p)" by (cases m)
  obtain o1 w1 where f: "on_db (findById (we_db V) nid) w = (o1, w1)"
    by (cases "on_db (findById (we_db V) nid) w")
  have "handler_run V ch config body tag (k + 11) Begin w =
      handler_run V ch config body tag (k + 10) (Lookup nid a p) w"
    by (simp add: Inr m eval_nat_numeral)
  then show ?thesis using f
    by (auto simp: lookup_run onMessage_def Inr m bindA_def emit_eq finished_def attempt_act_def
        split: sum.splits option.splits)
qed

section \<open>The machine among other threads\<close>

text \<open>
  Between two of its steps the rest of the system may have changed the world in any way, and
  clock, provider and parameters of the next step are arbitrary: each step is given the
  environment and the world it finds.
\<close>

fun steps_among ::
  "Channel \<Rightarrow> Config \<Rightarrow> string \<Rightarrow> nat \<Rightarrow> (('j, 'p) worker_env \<times> 'p world) list \<Rightarrow> handler_pc \<Rightarrow> handler_pc"
where
  "steps_among ch config body tag [] pc = pc"
| "steps_among ch config body tag ((V, w) # ws) pc =
     steps_among ch config body tag ws (fst (handler_step V ch config body tag pc w))"

text \<open>How many steps a handler has left at most.\<close>

fun fuel_left :: "handler_pc \<Rightarrow> nat" where
  "fuel_left Begin = 11"
| "fuel_left (Lookup nid a p) = 10"
| "fuel_left (Claim nid a p n) = 9"
| "fuel_left (Calling nid a p n) = 8"
| "fuel_left (Sending nid a p n) = 7"
| "fuel_left (Reporting nid a p n outcome) = 6"
| "fuel_left (Todo ops) = length ops"
| "fuel_left (Threw ex) = 0"

lemma ops_length:
  "length (success_ops ch nid a result) = 4" "length (failure_ops ch config nid a p body ex) \<le> 5"
  by (simp_all add: success_ops_def failure_ops_def Let_def)

lemma failure_ops_less: "length (failure_ops ch config nid a p body ex) < 6"
  "length (failure_ops ch config nid a p body ex) < 8"
  using ops_length(2) [of ch config nid a p body ex] by simp_all

lemma step_uses_fuel:
  "fuel_left (fst (handler_step V ch config body tag pc w)) \<le> fuel_left pc - 1"
proof (cases pc)
  case (Todo ops)
  then show ?thesis by (cases ops) (auto split: prod.splits sum.splits)
next
  case (Calling nid a p n)
  then show ?thesis using failure_ops_less(2) [of ch config nid a p body]
    by (auto simp: less_Suc_eq_le [symmetric] eval_nat_numeral split: prod.splits sum.splits)
next
  case (Reporting nid a p n outcome)
  then show ?thesis using failure_ops_less(1) [of ch config nid a p body]
    by (auto simp: ops_length less_Suc_eq_le [symmetric] eval_nat_numeral split: prod.splits sum.splits)
qed (auto split: prod.splits sum.splits option.splits)

lemma steps_use_fuel: "fuel_left (steps_among ch config body tag ws pc) \<le> fuel_left pc - length ws"
proof (induction ws arbitrary: pc)
  case (Cons vw ws)
  obtain V w where "vw = (V, w)" by (cases vw)
  with Cons [of "fst (handler_step V ch config body tag pc w)"] step_uses_fuel [of V ch config body tag pc w]
  show ?case by simp
qed simp

text \<open>C16: no handler loops. Waiting for a pooled session aside (theory \<open>Database\<close>), however the
  steps of the other threads fall between its own, whatever state of database, breakers and channel they
  leave it and however statements and provider come out, a handler is at its end after eleven
  steps of its own: it has run to completion or an exception has left it.\<close>

theorem handler_ends_among_threads:
  assumes "11 \<le> length ws"
  shows "steps_among ch config body tag ws Begin = Todo [] \<or>
    (\<exists>ex. steps_among ch config body tag ws Begin = Threw ex)"
proof -
  have "fuel_left (steps_among ch config body tag ws Begin) = 0"
    using steps_use_fuel [of ch config body tag ws Begin] assms by simp
  then show ?thesis by (cases "steps_among ch config body tag ws Begin") auto
qed

theorem handler_ends_among_threads_witness:
  "let w = \<lparr>w_db = db_empty, w_router = newRouter 5 30000, w_ops = []\<rparr>;
       V = \<lparr>we_db = plain_env, we_json = chunk_json, we_provider = (\<lambda>_ _. Inl (OutOfRange [])), we_t1 = 0, we_t2 = 0\<rparr>
   in steps_among Sms Config_default ''{}'' 1 (replicate 11 (V, w)) Begin = Todo [] \<or>
      (\<exists>ex. steps_among Sms Config_default ''{}'' 1 (replicate 11 (V, w)) Begin = Threw ex)"
  unfolding Let_def by (rule handler_ends_among_threads) simp

end
