(* ===== verification/Threads.thy ===== *)
theory Threads
  imports System Handler
begin

text \<open>
  The service with its threads interleaved at the level of single statements: every worker
  runs the machine of \<open>Handler\<close> on the message it holds, every HTTP thread the statements of
  a submission, and between any two steps any other thread may run, a parked message may
  expire, the environment may fail the next statements, and any thread may die. \<open>System\<close>
  treats handlers as atomic and connections as lossy; here handlers interleave, and what a
  thread issues on its channel reaches the broker at once.
\<close>

section \<open>States and steps\<close>

text \<open>A worker waits, or holds an unacknowledged message of a main queue.\<close>

datatype worker_slot = Free | Busy Channel string nat handler_pc

text \<open>
  An HTTP thread during \<open>POST /api/notifications\<close>: the submission has been parsed; its
  idempotency key has been found absent; the notification to announce is stored (now or
  before). The other routes only read and are left out.
\<close>

datatype post_slot = NoPost | Parsed Notification | Absent Notification | Stored Notification

record tsys =
  t_db :: database
  t_router :: "MockProvider ProviderRouter"
  t_queues :: "string \<Rightarrow> string list"
  t_workers :: "nat \<Rightarrow> worker_slot"
  t_posts :: "nat \<Rightarrow> post_slot"
  t_lost :: "string list"

text \<open>
  \<open>t_lost\<close> is a ghost: the notifications whose announcement was lost when the HTTP thread died
  between the commit and the publish. A worker's death (of its connection or of the process,
  which kills all threads one after the other) returns its message to the queue; a handler
  that has thrown takes no further step and waits for that. One step of a worker is one step
  of the handler machine; its environment (clock, provider's answer) is chosen anew each time.
\<close>

inductive tsys_step :: "'j deployment \<Rightarrow> tsys \<Rightarrow> tsys \<Rightarrow> bool" for D where
  take_message: "t_queues s (mainQueue ch) = xs @ body # ys \<Longrightarrow> t_workers s i = Free \<Longrightarrow>
    tsys_step D s (s\<lparr>t_queues := (t_queues s)(mainQueue ch := xs @ ys),
      t_workers := (t_workers s)(i := Busy ch body tag Begin)\<rparr>)"
| work: "t_workers s i = Busy ch body tag pc \<Longrightarrow> we_db V = dp_db D \<Longrightarrow> we_json V = dp_json D \<Longrightarrow>
    handler_step V ch (dp_config D) body tag pc \<lparr>w_db = t_db s, w_router = t_router s, w_ops = []\<rparr> = (pc', w') \<Longrightarrow>
    tsys_step D s (s\<lparr>t_db := w_db w', t_router := w_router w',
      t_queues := broker_ops (routes D) (w_ops w') (t_queues s),
      t_workers := (t_workers s)(i := (if Ack tag \<in> set (w_ops w') then Free else Busy ch body tag pc'))\<rparr>)"
| worker_dies: "t_workers s i = Busy ch body tag pc \<Longrightarrow>
    tsys_step D s (s\<lparr>t_queues := (t_queues s)(mainQueue ch := body # t_queues s (mainQueue ch)),
      t_workers := (t_workers s)(i := Free)\<rparr>)"
| parse: "t_posts s i = NoPost \<Longrightarrow> he_db V = dp_db D \<Longrightarrow> he_json V = dp_json D \<Longrightarrow>
    parse_submission V content = Inr n \<Longrightarrow>
    tsys_step D s (s\<lparr>t_posts := (t_posts s)(i := Parsed n)\<rparr>)"
| check: "t_posts s i = Parsed n \<Longrightarrow>
    findByIdempotencyKey (dp_db D) (n_idempotencyKey n) (t_db s) = (r, d') \<Longrightarrow>
    tsys_step D s (s\<lparr>t_db := d', t_posts := (t_posts s)(i :=
      (case r of Inl ex \<Rightarrow> NoPost | Inr (Some m) \<Rightarrow> Stored m | Inr None \<Rightarrow> Absent n))\<rparr>)"
| insert: "t_posts s i = Absent n \<Longrightarrow> valid_draws u \<Longrightarrow>
    insertTransaction (dp_db D) u n (t_db s) = (r, d') \<Longrightarrow>
    tsys_step D s (s\<lparr>t_db := d', t_posts := (t_posts s)(i :=
      (case r of Inl ex \<Rightarrow> NoPost | Inr m \<Rightarrow> Stored m))\<rparr>)"
| publish: "t_posts s i = Stored m \<Longrightarrow> j_dump (dp_json D) (deliveryMessage (dp_json D) m) = Inr msg \<Longrightarrow>
    tsys_step D s (s\<lparr>t_queues := broker_op (routes D) (Publish exchangeName (routingKey (n_channel m))
        (message msg (priorityWeight (n_priority m)))) (t_queues s),
      t_posts := (t_posts s)(i := NoPost)\<rparr>)"
| post_dies: "t_posts s i = p \<Longrightarrow>
    tsys_step D s (s\<lparr>t_posts := (t_posts s)(i := NoPost),
      t_lost := (case p of Stored m \<Rightarrow> n_id m # t_lost s | _ \<Rightarrow> t_lost s)\<rparr>)"
| expire: "t_queues s q = xs @ body # ys \<Longrightarrow>
    message_ttl (declareAll (dp_config D)) q = Some ttl \<Longrightarrow>
    dead_letter_target (declareAll (dp_config D)) q = Some (x, k) \<Longrightarrow>
    tsys_step D s (s\<lparr>t_queues := broker_op (routes D) (Publish x k (newEnvelope body))
      ((t_queues s)(q := xs @ ys))\<rparr>)"
| new_router: "tsys_step D s (s\<lparr>t_router :=
    newRouter (cbFailureThreshold (dp_config D)) (cbOpenDurationMs (dp_config D))\<rparr>)"
| environment: "tsys_step D s (s\<lparr>t_db := (t_db s)\<lparr>db_faults := fs, db_now := now\<rparr>\<rparr>)"

definition tsys_init :: "'j deployment \<Rightarrow> tsys" where
  "tsys_init D = \<lparr>t_db = db_empty,
     t_router = newRouter (cbFailureThreshold (dp_config D)) (cbOpenDurationMs (dp_config D)),
     t_queues = (\<lambda>_. []), t_workers = (\<lambda>_. Free), t_posts = (\<lambda>_. NoPost), t_lost = []\<rparr>"

inductive tsys_reach :: "'j deployment \<Rightarrow> tsys \<Rightarrow> bool" for D where
  init: "tsys_reach D (tsys_init D)"
| step: "tsys_reach D s \<Longrightarrow> tsys_step D s s' \<Longrightarrow> tsys_reach D s'"

section \<open>What one step does to the rows\<close>

text \<open>
  Unlike a whole handler (\<open>row_step\<close>), a single statement may move a row away from SENT: the
  thread that issues it decided on an older reading.
\<close>

definition row_touch :: "db_env \<Rightarrow> string \<Rightarrow> notification_row \<Rightarrow> notification_row \<Rightarrow> bool" where
  "row_touch E nid r r' \<longleftrightarrow> r_id r' = r_id r \<and> r_channel r' = r_channel r \<and>
     (\<not> same_key E (r_id r) nid \<longrightarrow> r' = r) \<and>
     r_status r' \<in> {r_status r, ''PROCESSING'', ''SENT'', ''DEAD_LETTERED''}"

definition touched :: "db_env \<Rightarrow> string \<Rightarrow> database \<Rightarrow> database \<Rightarrow> bool" where
  "touched E nid d d' \<longleftrightarrow> list_all2 (row_touch E nid) (notifications d) (notifications d')"

lemma row_touch_refl [simp]: "row_touch E nid r r"
  by (simp add: row_touch_def)

lemma touched_same: "notifications d' = notifications d \<Longrightarrow> touched E nid d d'"
  by (simp add: touched_def list_all2_refl)

lemma touched_rewrite:
  "(\<And>r. row_touch E nid r (f r) \<or> \<not> same_key E (r_id r) nid) \<Longrightarrow>
   touched E nid d (rewrite_rows E f nid (pop_fault d))"
  by (auto simp: touched_def rewrite_rows_def list_all2_map2 intro!: list.rel_refl_strong)

lemma touched_back:
  assumes "touched E nid d d'" "row' \<in> set (notifications d')"
  obtains row where "row \<in> set (notifications d)" "row_touch E nid row row'"
  using list_all2_right [OF assms(1) [unfolded touched_def] assms(2)] by blast

lemma touched_keeps: "touched E nid d d' \<Longrightarrow> keeps_rows d d'"
  unfolding keeps_rows_def touched_def by (auto dest!: list_all2_left simp: row_touch_def)

lemma touched_update:
  assumes "row_update E upd f" "upd nid d = (r, d')"
    and "f = set_status Processing \<or> f = set_status Sent \<or> f = set_status DeadLettered \<or> f = bump_count"
  shows "touched E nid d d'"
proof -
  have "d' = pop_fault d \<or> d' = rewrite_rows E f nid (pop_fault d)"
    using row_update.upd_outcome [OF assms(1), of nid d] assms(2) by auto
  moreover have "row_touch E nid q (f q) \<or> \<not> same_key E (r_id q) nid" for q
    using assms(3) by (auto simp: row_touch_def set_status_def bump_count_def)
  ultimately show ?thesis using touched_same [of "pop_fault d" d] touched_rewrite [of E nid f d] by auto
qed

lemma on_dbE:
  assumes "on_db m w = (r, w')"
  shows "m (w_db w) = (r, w_db w') \<and> w_router w' = w_router w \<and> w_ops w' = w_ops w"
  using assms by (auto simp: on_db_def zoomA_def split: prod.splits)

section \<open>What one step of a handler does\<close>

text \<open>The operation after which the message is no longer needed.\<close>

fun settling :: "handler_op \<Rightarrow> bool" where
  "settling (MarkSent nid) = True"
| "settling (PublishRetry nid a p) = True"
| "settling (MarkDeadLettered nid) = True"
| "settling _ = False"

text \<open>A handler answers for its notification until it has settled it or decided to skip it.\<close>

fun active :: "handler_pc \<Rightarrow> bool" where
  "active (Todo ops) = list_ex settling ops"
| "active _ = True"

text \<open>
  What remains to be done concerns the message's own notification, acknowledges last, and
  marks it DEAD_LETTERED only when the body is in the dead-letter queue (\<open>K\<close>) or will be.
\<close>

fun ops_ok :: "Config \<Rightarrow> string \<Rightarrow> int \<Rightarrow> 8 word \<Rightarrow> string \<Rightarrow> bool \<Rightarrow> handler_op list \<Rightarrow> bool" where
  "ops_ok config nid a p body K [] = True"
| "ops_ok config nid a p body K (op # ops) =
     (ops_ok config nid a p body (K \<or> op = PublishDlq body) ops \<and>
      (case op of
         Record att \<Rightarrow> True
       | MarkSent i \<Rightarrow> i = nid
       | Increment i \<Rightarrow> i = nid
       | PublishRetry i b q \<Rightarrow> i = nid \<and> b = a \<and> q = p \<and> a \<le> maxRetries config
       | PublishDlq b \<Rightarrow> b = body
       | MarkDeadLettered i \<Rightarrow> i = nid \<and> K
       | AckMessage \<Rightarrow> ops = []))"

definition pc_ok :: "'j json_lib \<Rightarrow> Config \<Rightarrow> bool \<Rightarrow> string \<Rightarrow> handler_pc \<Rightarrow> bool" where
  "pc_ok J config K body pc \<longleftrightarrow>
     (case pc of
        Begin \<Rightarrow> True
      | Lookup nid a p \<Rightarrow> decode J body = Inr (nid, a, p)
      | Claim nid a p n \<Rightarrow> decode J body = Inr (nid, a, p)
      | Calling nid a p n \<Rightarrow> decode J body = Inr (nid, a, p)
      | Sending nid a p n \<Rightarrow> decode J body = Inr (nid, a, p)
      | Reporting nid a p n outcome \<Rightarrow> decode J body = Inr (nid, a, p)
      | Todo ops \<Rightarrow> (\<exists>nid a p. decode J body = Inr (nid, a, p) \<and> ops_ok config nid a p body K ops)
      | Threw ex \<Rightarrow> True)"

lemma ops_ok_mono:
  "ops_ok config nid a p body K ops \<Longrightarrow> (K \<Longrightarrow> K') \<Longrightarrow> ops_ok config nid a p body K' ops"
proof (induction ops arbitrary: K K')
  case (Cons op ops)
  have "ops_ok config nid a p body (K' \<or> op = PublishDlq body) ops"
    by (rule Cons.IH [of "K \<or> op = PublishDlq body"]) (use Cons.prems in auto)
  then show ?case using Cons.prems by (cases op) simp_all
qed simp

lemma pc_ok_mono: "pc_ok J config K body pc \<Longrightarrow> (K \<Longrightarrow> K') \<Longrightarrow> pc_ok J config K' body pc"
  by (cases pc) (auto simp: pc_ok_def intro: ops_ok_mono)

lemma success_ops_ok: "ops_ok config nid a p body K (success_ops ch nid a result)"
  by (simp add: success_ops_def)

lemma failure_ops_ok: "ops_ok config nid a p body K (failure_ops ch config nid a p body ex)"
  by (simp add: failure_ops_def Let_def)

text \<open>Every update of the machine touches the message's own row only.\<close>

lemmas update_touches =
  touched_update [OF mp.row_update_axioms] touched_update [OF ms.row_update_axioms]
  touched_update [OF md.row_update_axioms] touched_update [OF ic.row_update_axioms]

lemma op_act_touches:
  assumes "op_act V ch tag op w = (r, w')" "ops_ok config nid a p body K (op # ops)"
  shows "touched (we_db V) nid (w_db w) (w_db w')"
proof (cases op)
  case (Record att)
  with assms(1) show ?thesis by (auto simp: op_act_def dest!: on_dbE record_frame intro: touched_same)
next
  case (PublishRetry i b q)
  with assms(1) show ?thesis
    by (auto simp: op_act_def bindA_def emit_eq intro!: touched_same split: sum.splits)
qed (use assms in \<open>auto simp: op_act_def emit_eq dest!: on_dbE intro: update_touches touched_same\<close>)

lemma handler_step_touches:
  assumes "handler_step V ch config body tag pc w = (pc', w')" "pc_ok (we_json V) config K body pc"
    and "decode (we_json V) body = Inr (nid, a, p)"
  shows "touched (we_db V) nid (w_db w) (w_db w')"
proof (cases pc)
  case (Lookup i b q)
  obtain r w1 where f: "on_db (findById (we_db V) i) w = (r, w1)" by (cases "on_db (findById (we_db V) i) w")
  then have "w_db w1 = pop_fault (w_db w)"
    using on_dbE [OF f] findById_state [of "we_db V" i "w_db w"] by simp
  moreover have "w' = w1" using assms(1) f Lookup by (auto split: sum.splits option.splits if_splits)
  ultimately show ?thesis by (simp add: touched_same)
next
  case (Claim i b q n)
  with assms show ?thesis
    by (auto simp: pc_ok_def dest!: on_dbE intro: update_touches split: prod.splits sum.splits)
next
  case (Calling i b q n)
  with assms(1) have "w_db w' = w_db w"
    by (auto simp: on_router_def zoomA_def split: prod.splits sum.splits if_splits)
  then show ?thesis by (simp add: touched_same)
next
  case (Sending i b q n)
  with assms(1) have "w_db w' = w_db w"
    by (auto simp: on_router_def zoomA_def split: prod.splits sum.splits if_splits)
  then show ?thesis by (simp add: touched_same)
next
  case (Reporting i b q n outcome)
  with assms(1) have "w_db w' = w_db w"
    by (auto simp: on_router_def zoomA_def split: prod.splits sum.splits if_splits)
  then show ?thesis by (simp add: touched_same)
next
  case (Todo ops)
  show ?thesis
  proof (cases ops)
    case (Cons op rest)
    obtain r w1 where o: "op_act V ch tag op w = (r, w1)" by (cases "op_act V ch tag op w")
    then have "w' = w1" using assms(1) Todo Cons by (auto split: sum.splits)
    moreover have "ops_ok config nid a p body K (op # rest)"
      using assms(2,3) Todo Cons by (simp add: pc_ok_def)
    ultimately show ?thesis using op_act_touches [OF o] by simp
  qed (use assms(1) Todo in \<open>simp add: touched_same\<close>)
qed (use assms(1) in \<open>auto simp: touched_same split: sum.splits prod.splits\<close>)

text \<open>What it issues on the channel: a legal message, or the acknowledgement at the very end.\<close>

lemma op_act_emits:
  assumes "op_act V ch tag op w = (r, w')" "ops_ok config nid a p body K (op # ops)"
    and "decode (we_json V) body = Inr (nid, a, p)" "w_ops w = []"
  shows "op = AckMessage \<and> ops = [] \<and> w_ops w' = [Ack tag] \<or>
    op \<noteq> AckMessage \<and> outgoing (we_json V) ch config body (w_ops w')"
proof (cases op)
  case (PublishRetry i b q)
  with assms show ?thesis
    by (auto simp: op_act_def outgoing_def is_retry_def bindA_def emit_eq split: sum.splits)
qed (use assms in \<open>auto simp: op_act_def outgoing_def emit_eq dest!: on_dbE\<close>)

lemma handler_step_emits:
  assumes "handler_step V ch config body tag pc w = (pc', w')" "pc_ok (we_json V) config K body pc"
    and "w_ops w = []"
  shows "pc = Todo [AckMessage] \<and> w_ops w' = [Ack tag] \<or>
    outgoing (we_json V) ch config body (w_ops w')"
proof (cases "\<exists>op ops. pc = Todo (op # ops)")
  case True
  then obtain op ops nid a p where t: "pc = Todo (op # ops)" "decode (we_json V) body = Inr (nid, a, p)"
    "ops_ok config nid a p body K (op # ops)"
    using assms(2) by (auto simp: pc_ok_def)
  obtain r w1 where o: "op_act V ch tag op w = (r, w1)" by (cases "op_act V ch tag op w")
  then have "w' = w1" using assms(1) t(1) by (auto split: sum.splits)
  then show ?thesis using op_act_emits [OF o t(3,2) assms(3)] t(1) by auto
next
  case False
  then have "pc = Todo ops \<Longrightarrow> ops = []" for ops by (cases ops) auto
  then have "w_ops w' = []"
    using assms(1,3)
    by (cases pc) (auto simp: on_router_def zoomA_def dest!: on_dbE
        split: prod.splits sum.splits option.splits if_splits)
  then show ?thesis by (simp add: outgoing_def)
qed

text \<open>The next program counter is legal again.\<close>

lemma handler_step_ok:
  assumes "handler_step V ch config body tag pc w = (pc', w')" "pc_ok (we_json V) config K body pc"
    and "decode (we_json V) body = Inr m"
    and "K \<Longrightarrow> K'" and "Publish '''' (dlq ch) (dlq_message body) \<in> set (w_ops w') \<Longrightarrow> K'"
  shows "pc_ok (we_json V) config K' body pc'"
proof (cases pc)
  case (Calling i b q n)
  with assms(1,2) show ?thesis
    by (auto simp: pc_ok_def success_ops_ok failure_ops_ok split: prod.splits sum.splits if_splits)
next
  case (Reporting i b q n outcome)
  with assms(1,2) show ?thesis
    by (auto simp: pc_ok_def success_ops_ok failure_ops_ok split: prod.splits sum.splits if_splits)
next
  case (Todo ops)
  then obtain nid a p where t: "decode (we_json V) body = Inr (nid, a, p)" "ops_ok config nid a p body K ops"
    using assms(2) by (auto simp: pc_ok_def)
  show ?thesis
  proof (cases ops)
    case Nil
    with assms(1) Todo t show ?thesis by (auto simp: pc_ok_def)
  next
    case (Cons op rest)
    obtain r w1 where o: "op_act V ch tag op w = (r, w1)" by (cases "op_act V ch tag op w")
    have "K' " if "op = PublishDlq body"
      using that o assms(1,5) Todo Cons by (auto simp: op_act_def emit_eq)
    then have "ops_ok config nid a p body K' rest"
      using t(2) Cons assms(4) ops_ok_mono [of config nid a p body "K \<or> op = PublishDlq body" rest K'] by auto
    then show ?thesis using assms(1) Todo Cons o t(1) by (auto simp: pc_ok_def split: sum.splits)
  qed
qed (use assms in \<open>auto simp: pc_ok_def split: prod.splits sum.splits option.splits if_splits\<close>)

text \<open>
  When a handler stops answering for its notification, the notification has been settled:
  it was read SENT (or CANCELLED), has been marked SENT, has been marked DEAD_LETTERED with
  the body parked, or its retry has just been published.
\<close>

definition let_go ::
  "('j, 'p) worker_env \<Rightarrow> Channel \<Rightarrow> Config \<Rightarrow> string \<Rightarrow> int \<Rightarrow> 8 word \<Rightarrow> bool \<Rightarrow> 'p world \<Rightarrow> bool" where
  "let_go V ch config nid a p K w \<longleftrightarrow>
     all_status (we_db V) nid {''SENT'', ''CANCELLED''} (w_db w) \<or>
     all_status (we_db V) nid {''DEAD_LETTERED''} (w_db w) \<and> K \<or>
     (\<exists>op\<in>set (w_ops w). is_retry (we_json V) ch config nid a p op)"

lemma settling_lets_go:
  assumes "op_act V ch tag op w = (Inr u, w')" "settling op" "ops_ok config nid a p body K (op # ops)"
  shows "let_go V ch config nid a p K w'"
proof -
  consider "op = MarkSent nid" | "op = PublishRetry nid a p" "a \<le> maxRetries config"
    | "op = MarkDeadLettered nid" "K"
    using assms(2,3) by (cases op) auto
  then show ?thesis
  proof cases
    case 1
    then have "markSent (we_db V) nid (w_db w) = (Inr u, w_db w')"
      using assms(1) by (auto simp: op_act_def dest: on_dbE)
    from ms.upd_Inr [OF this] show ?thesis
      using all_status_set [of "we_db V" nid Sent "pop_fault (w_db w)"]
      by (simp add: let_go_def all_status_def)
  next
    case 2
    then show ?thesis
      using assms(1) by (auto simp: op_act_def let_go_def is_retry_def bindA_def emit_eq split: sum.splits)
  next
    case 3
    then have "markDeadLettered (we_db V) nid (w_db w) = (Inr u, w_db w')"
      using assms(1) by (auto simp: op_act_def dest: on_dbE)
    from md.upd_Inr [OF this] show ?thesis
      using all_status_set [of "we_db V" nid DeadLettered "pop_fault (w_db w)"] 3(2)
      by (simp add: let_go_def all_status_def)
  qed
qed

lemma active_ops [simp]:
  "active (Todo (success_ops ch nid a result))" "active (Todo (failure_ops ch config nid a p body ex))"
  by (simp_all add: success_ops_def failure_ops_def Let_def)

lemma handler_step_lets_go:
  assumes "handler_step V ch config body tag pc w = (pc', w')" "pc_ok (we_json V) config K body pc"
    and "key_inv (we_db V) (w_db w)" "decode (we_json V) body = Inr (nid, a, p)"
    and "active pc" "\<not> active pc'"
  shows "let_go V ch config nid a p K w'"
proof (cases pc)
  case Begin
  with assms show ?thesis by auto
next
  case (Lookup i b q)
  then have i: "i = nid" using assms(2,4) by (simp add: pc_ok_def)
  obtain r w1 where f: "on_db (findById (we_db V) nid) w = (r, w1)" by (cases "on_db (findById (we_db V) nid) w")
  have w': "w' = w1" using assms(1) f Lookup i by (auto split: sum.splits option.splits if_splits)
  obtain x where x: "r = Inr x" "\<And>n. x = Some n \<Longrightarrow> n_status n = Cancelled \<or> n_status n = Sent"
    using assms(1,6) f Lookup i by (auto split: sum.splits option.splits if_splits)
  from lookup_skips [OF assms(3), where nid = nid and x = x and d' = "w_db w1", OF _ x(2)] show ?thesis
    using on_dbE [OF f] by (simp add: let_go_def w' x(1))
next
  case (Claim i b q n)
  with assms(1,6) show ?thesis by (auto split: prod.splits sum.splits)
next
  case (Calling i b q n)
  with assms(1,6) active_ops show ?thesis by (auto split: prod.splits sum.splits if_splits)
next
  case (Sending i b q n)
  with assms(1,6) show ?thesis by (auto split: prod.splits)
next
  case (Reporting i b q n outcome)
  with assms(1,6) active_ops show ?thesis by (auto split: prod.splits sum.splits if_splits)
next
  case (Todo ops)
  then obtain op rest where o: "ops = op # rest" using assms(5) by (cases ops) auto
  obtain r w1 where e: "op_act V ch tag op w = (r, w1)" by (cases "op_act V ch tag op w")
  then obtain u where u: "r = Inr u" "w' = w1" "pc' = Todo rest"
    using assms(1,6) Todo o by (auto split: sum.splits)
  then have "settling op" using assms(5,6) Todo o by simp
  moreover have "ops_ok config nid a p body K (op # rest)" using assms(2,4) Todo o by (simp add: pc_ok_def)
  ultimately show ?thesis using settling_lets_go e u by metis
next
  case (Threw ex)
  with assms(1,6) show ?thesis by auto
qed

text \<open>A handler that no longer answers for its notification leaves its status alone.\<close>

lemma inactive_step:
  assumes "handler_step V ch config body tag pc w = (pc', w')" "\<not> active pc"
  shows "list_all2 (\<lambda>r r'. r_id r' = r_id r \<and> r_channel r' = r_channel r \<and> r_status r' = r_status r)
    (notifications (w_db w)) (notifications (w_db w'))"
proof -
  let ?R = "\<lambda>r r'. r_id r' = r_id r \<and> r_channel r' = r_channel r \<and> r_status r' = r_status r"
  have same: "list_all2 ?R xs xs" for xs by (simp add: list_all2_refl)
  obtain ops where t: "pc = Todo ops" using assms(2) by (cases pc) auto
  show ?thesis
  proof (cases ops)
    case (Cons op rest)
    obtain r w1 where o: "op_act V ch tag op w = (r, w1)" by (cases "op_act V ch tag op w")
    have w': "w' = w1" using assms(1) t Cons o by (auto split: sum.splits)
    show ?thesis
    proof (cases op)
      case (Record att)
      then show ?thesis using o same by (auto simp: op_act_def w' dest!: on_dbE record_frame)
    next
      case (Increment nid)
      then have "incrementAttemptCount (we_db V) nid (w_db w) = (r, w_db w1)"
        using o by (auto simp: op_act_def dest: on_dbE)
      then have "w_db w1 = pop_fault (w_db w) \<or>
          w_db w1 = rewrite_rows (we_db V) bump_count nid (pop_fault (w_db w))"
        using ic.upd_outcome [of "we_db V" nid "w_db w"] by auto
      then show ?thesis
        using same by (auto simp: w' rewrite_rows_def bump_count_def list_all2_map2)
    next
      case (PublishDlq b)
      then show ?thesis using o same by (auto simp: op_act_def w' emit_eq)
    next
      case AckMessage
      then show ?thesis using o same by (auto simp: op_act_def w' emit_eq)
    qed (use assms(2) t Cons in simp_all)
  qed (use assms(1) t same in simp)
qed

section \<open>The invariant\<close>

text \<open>Somewhere a handler still answers for the row.\<close>

definition answered :: "'j deployment \<Rightarrow> (nat \<Rightarrow> worker_slot) \<Rightarrow> notification_row \<Rightarrow> bool" where
  "answered D W row \<longleftrightarrow> (\<exists>i ch body tag pc a p. W i = Busy ch body tag pc \<and> active pc \<and>
     r_channel row = toString_Channel ch \<and> decode (dp_json D) body = Inr (r_id row, a, p))"

text \<open>Its first announcement is still to be published, or was lost with its thread.\<close>

definition unannounced :: "(nat \<Rightarrow> post_slot) \<Rightarrow> string list \<Rightarrow> notification_row \<Rightarrow> bool" where
  "unannounced P L row \<longleftrightarrow> r_id row \<in> set L \<or> (\<exists>i m. P i = Stored m \<and> n_id m = r_id row)"

definition trow_ok ::
  "'j deployment \<Rightarrow> (string \<Rightarrow> string list) \<Rightarrow> (nat \<Rightarrow> worker_slot) \<Rightarrow> (nat \<Rightarrow> post_slot) \<Rightarrow> string list \<Rightarrow>
   notification_row \<Rightarrow> bool" where
  "trow_ok D Q W P L row \<longleftrightarrow>
     r_status row \<in> {''PENDING'', ''PROCESSING'', ''SENT'', ''DEAD_LETTERED''} \<and>
     (r_status row = ''SENT'' \<or> waiting D Q row \<or> answered D W row \<or>
      r_status row = ''DEAD_LETTERED'' \<and> parked D Q row \<or>
      r_status row = ''PENDING'' \<and> unannounced P L row)"

definition workers_ok ::
  "'j deployment \<Rightarrow> database \<Rightarrow> (string \<Rightarrow> string list) \<Rightarrow> (nat \<Rightarrow> worker_slot) \<Rightarrow> bool" where
  "workers_ok D d Q W \<longleftrightarrow> (\<forall>i ch body tag pc. W i = Busy ch body tag pc \<longrightarrow>
     good_msg D d ch body \<and> pc_ok (dp_json D) (dp_config D) (body \<in> set (Q (dlq ch))) body pc)"

definition posts_ok :: "database \<Rightarrow> (nat \<Rightarrow> post_slot) \<Rightarrow> bool" where
  "posts_ok d P \<longleftrightarrow> (\<forall>i m. P i = Stored m \<longrightarrow>
     (\<exists>row\<in>set (notifications d). r_id row = n_id m \<and> r_channel row = toString_Channel (n_channel m)))"

definition core_inv :: "'j deployment \<Rightarrow> tsys \<Rightarrow> bool" where
  "core_inv D s \<longleftrightarrow> schema_inv (dp_db D) (t_db s) \<and> queues_good D (t_db s) (t_queues s) \<and>
     workers_ok D (t_db s) (t_queues s) (t_workers s) \<and> posts_ok (t_db s) (t_posts s)"

definition tsys_inv :: "'j deployment \<Rightarrow> tsys \<Rightarrow> bool" where
  "tsys_inv D s \<longleftrightarrow> core_inv D s \<and> (\<forall>row\<in>set (notifications (t_db s)).
     trow_ok D (t_queues s) (t_workers s) (t_posts s) (t_lost s) row)"

text \<open>
  What a step may do to the account of a row, whatever the row's status is: afterwards the row
  is on its way or answered for or has just been settled; or nobody had to do with it, its
  status is unchanged, and it is parked or unannounced if it was.
\<close>

definition settled_row :: "'j deployment \<Rightarrow> tsys \<Rightarrow> notification_row \<Rightarrow> bool" where
  "settled_row D s row \<longleftrightarrow> waiting D (t_queues s) row \<or> answered D (t_workers s) row \<or>
     r_status row \<in> {''SENT'', ''CANCELLED''} \<or>
     r_status row = ''DEAD_LETTERED'' \<and> parked D (t_queues s) row"

definition follows :: "'j deployment \<Rightarrow> tsys \<Rightarrow> tsys \<Rightarrow> notification_row \<Rightarrow> notification_row \<Rightarrow> bool" where
  "follows D s s' row row' \<longleftrightarrow> r_id row' = r_id row \<and> r_channel row' = r_channel row \<and>
     r_status row' \<in> {r_status row, ''PROCESSING'', ''SENT'', ''DEAD_LETTERED''} \<and>
     (settled_row D s' row' \<or>
      r_status row' = r_status row \<and>
      \<not> waiting D (t_queues s) row \<and> \<not> answered D (t_workers s) row \<and>
      (parked D (t_queues s) row \<longrightarrow> parked D (t_queues s') row') \<and>
      (unannounced (t_posts s) (t_lost s) row \<longrightarrow> unannounced (t_posts s') (t_lost s') row'))"

text \<open>A step keeps the core of the invariant and accounts for every row.\<close>

definition accounted :: "'j deployment \<Rightarrow> tsys \<Rightarrow> tsys \<Rightarrow> notification_row \<Rightarrow> bool" where
  "accounted D s s' row' \<longleftrightarrow>
     r_status row' = ''PENDING'' \<and> unannounced (t_posts s') (t_lost s') row' \<or>
     (\<exists>row\<in>set (notifications (t_db s)). follows D s s' row row')"

definition accounts :: "'j deployment \<Rightarrow> tsys \<Rightarrow> tsys \<Rightarrow> bool" where
  "accounts D s s' \<longleftrightarrow> core_inv D s' \<and> (\<forall>row'\<in>set (notifications (t_db s')). accounted D s s' row')"

lemma accountsI:
  "schema_inv (dp_db D) (t_db s') \<Longrightarrow> queues_good D (t_db s') (t_queues s') \<Longrightarrow>
   workers_ok D (t_db s') (t_queues s') (t_workers s') \<Longrightarrow> posts_ok (t_db s') (t_posts s') \<Longrightarrow>
   (\<And>row'. row' \<in> set (notifications (t_db s')) \<Longrightarrow> accounted D s s' row') \<Longrightarrow> accounts D s s'"
  by (simp add: accounts_def core_inv_def)

lemma core_invD:
  assumes "core_inv D s"
  shows "schema_inv (dp_db D) (t_db s)" "key_inv (dp_db D) (t_db s)" "queues_good D (t_db s) (t_queues s)"
    and "workers_ok D (t_db s) (t_queues s) (t_workers s)" "posts_ok (t_db s) (t_posts s)"
  using assms by (simp_all add: core_inv_def key_inv_schema)

text \<open>An account is moved when each of its kinds goes at most to another one.\<close>

lemma same_ids:
  assumes "r_id row' = r_id row" "r_channel row' = r_channel row"
  shows "waiting D Q row' = waiting D Q row" "answered D W row' = answered D W row"
    "parked D Q row' = parked D Q row" "unannounced P L row' = unannounced P L row"
  using assms by (simp_all add: waiting_def parked_def answered_def unannounced_def)

lemma followsI:
  assumes "r_id row' = r_id row" "r_channel row' = r_channel row" "r_status row' = r_status row"
    and "waiting D (t_queues s) row \<Longrightarrow> waiting D (t_queues s') row \<or> answered D (t_workers s') row"
    and "answered D (t_workers s) row \<Longrightarrow> answered D (t_workers s') row \<or> waiting D (t_queues s') row"
    and "parked D (t_queues s) row \<Longrightarrow> parked D (t_queues s') row"
    and "unannounced (t_posts s) (t_lost s) row \<Longrightarrow>
      unannounced (t_posts s') (t_lost s') row \<or> waiting D (t_queues s') row"
  shows "follows D s s' row row'"
  using assms(3-7) unfolding follows_def settled_row_def same_ids [OF assms(1,2)] assms(1,2) by auto

lemma accounted_move:
  assumes "row \<in> set (notifications (t_db s))"
    and "waiting D (t_queues s) row \<Longrightarrow> waiting D Q row \<or> answered D W row"
    and "answered D (t_workers s) row \<Longrightarrow> answered D W row \<or> waiting D Q row"
    and "parked D (t_queues s) row \<Longrightarrow> parked D Q row"
    and "unannounced (t_posts s) (t_lost s) row \<Longrightarrow> unannounced P L row \<or> waiting D Q row"
    and "t_queues s' = Q" "t_workers s' = W" "t_posts s' = P" "t_lost s' = L"
  shows "accounted D s s' row"
  using followsI [OF refl refl refl, of D s row s'] assms unfolding accounted_def by blast

lemma tsys_inv_accounts:
  assumes "tsys_inv D s" "accounts D s s'" shows "tsys_inv D s'"
proof -
  have "trow_ok D (t_queues s') (t_workers s') (t_posts s') (t_lost s') row'"
    if "row' \<in> set (notifications (t_db s'))" for row'
  proof -
    have "accounted D s s' row'" using assms(2) that by (simp add: accounts_def)
    then consider "r_status row' = ''PENDING''" "unannounced (t_posts s') (t_lost s') row'"
      | row where "row \<in> set (notifications (t_db s))" "follows D s s' row row'"
      unfolding accounted_def by blast
    then show ?thesis
    proof cases
      case 1
      then show ?thesis by (simp add: trow_ok_def)
    next
      case (2 row)
      have "trow_ok D (t_queues s) (t_workers s) (t_posts s) (t_lost s) row"
        using assms(1) 2(1) by (simp add: tsys_inv_def)
      with 2(2) show ?thesis by (auto simp: trow_ok_def follows_def settled_row_def)
    qed
  qed
  then show ?thesis using assms(2) by (simp add: tsys_inv_def accounts_def)
qed

lemma answered_other:
  assumes "answered D W row" "W i = Busy ch body tag pc"
    and "\<not> active pc \<or> (\<exists>nid a p. decode (dp_json D) body = Inr (nid, a, p) \<and> nid \<noteq> r_id row)"
  shows "answered D (W(i := x)) row"
proof -
  obtain j c b t q a p where j: "W j = Busy c b t q" "active q" "r_channel row = toString_Channel c"
    "decode (dp_json D) b = Inr (r_id row, a, p)"
    using assms(1) unfolding answered_def by blast
  then have "j \<noteq> i" using assms(2,3) by auto
  then have "(W(i := x)) j = Busy c b t q" using j(1) by simp
  then show ?thesis unfolding answered_def using j(2-4) by blast
qed

lemma answered_free:
  assumes "answered D W row" "W i = Free" shows "answered D (W(i := x)) row"
proof -
  obtain j c b t q a p where j: "W j = Busy c b t q" "active q" "r_channel row = toString_Channel c"
    "decode (dp_json D) b = Inr (r_id row, a, p)"
    using assms(1) unfolding answered_def by blast
  then have "(W(i := x)) j = Busy c b t q" using assms(2) by auto
  then show ?thesis unfolding answered_def using j(2-4) by blast
qed

lemma answeredI:
  "W i = Busy ch body tag pc \<Longrightarrow> active pc \<Longrightarrow> r_channel row = toString_Channel ch \<Longrightarrow>
   decode (dp_json D) body = Inr (r_id row, a, p) \<Longrightarrow> answered D W row"
  unfolding answered_def by blast

lemma unannounced_other:
  "unannounced P L row \<Longrightarrow> (\<And>m. P i = Stored m \<Longrightarrow> n_id m \<noteq> r_id row) \<Longrightarrow> unannounced (P(i := x)) L row"
  unfolding unannounced_def by (metis fun_upd_other)

lemma workers_okD:
  "workers_ok D d Q W \<Longrightarrow> W i = Busy ch body tag pc \<Longrightarrow>
   good_msg D d ch body \<and> pc_ok (dp_json D) (dp_config D) (body \<in> set (Q (dlq ch))) body pc"
  unfolding workers_ok_def by blast

lemma workers_ok_mono:
  assumes "workers_ok D d Q W" "keeps_rows d d'" "\<And>c. set (Q (dlq c)) \<subseteq> set (Q' (dlq c))"
    and "\<And>ch body tag pc. x = Busy ch body tag pc \<Longrightarrow>
      good_msg D d' ch body \<and> pc_ok (dp_json D) (dp_config D) (body \<in> set (Q' (dlq ch))) body pc"
  shows "workers_ok D d' Q' (W(i := x))"
  unfolding workers_ok_def
proof (intro allI impI)
  fix j ch body tag pc assume j: "(W(i := x)) j = Busy ch body tag pc"
  show "good_msg D d' ch body \<and> pc_ok (dp_json D) (dp_config D) (body \<in> set (Q' (dlq ch))) body pc"
  proof (cases "j = i")
    case False
    then have "W j = Busy ch body tag pc" using j by simp
    from workers_okD [OF assms(1) this] show ?thesis
      using good_msg_rows [OF _ assms(2)] pc_ok_mono assms(3) by (metis subsetD)
  qed (use assms(4) j in simp)
qed

lemma workers_ok_same:
  "workers_ok D d Q W \<Longrightarrow> keeps_rows d d' \<Longrightarrow> (\<And>c. set (Q (dlq c)) \<subseteq> set (Q' (dlq c))) \<Longrightarrow>
   workers_ok D d' Q' W"
  using workers_ok_mono [of D d Q W d' Q' "W 0" 0] workers_okD [of D d Q W 0]
  by (metis fun_upd_triv good_msg_rows pc_ok_mono subsetD)

lemma posts_ok_mono:
  assumes "posts_ok d P" "keeps_rows d d'"
    and "\<And>m. x = Stored m \<Longrightarrow> \<exists>row\<in>set (notifications d'). r_id row = n_id m \<and>
      r_channel row = toString_Channel (n_channel m)"
  shows "posts_ok d' (P(i := x))"
  using assms unfolding posts_ok_def keeps_rows_def by (auto split: if_splits) metis

lemma posts_ok_same: "posts_ok d P \<Longrightarrow> keeps_rows d d' \<Longrightarrow> posts_ok d' P"
  unfolding posts_ok_def keeps_rows_def by metis

lemma keeps_rows_refl [simp]: "keeps_rows d d"
  by (auto simp: keeps_rows_def)

lemma core_inv_init: "core_inv D (tsys_init D)"
  by (simp add: core_inv_def tsys_init_def schema_inv_empty queues_good_def workers_ok_def posts_ok_def)

lemma tsys_inv_init: "tsys_inv D (tsys_init D)"
  using core_inv_init by (simp add: tsys_inv_def) (simp add: tsys_init_def db_empty_def)

section \<open>Every step keeps the invariant\<close>

lemma accounts_take:
  assumes inv: "core_inv D s" and q: "t_queues s (mainQueue ch) = xs @ body # ys" and i: "t_workers s i = Free"
  shows "accounts D s (s\<lparr>t_queues := (t_queues s)(mainQueue ch := xs @ ys),
    t_workers := (t_workers s)(i := Busy ch body tag Begin)\<rparr>)" (is "accounts D s ?s'")
proof -
  let ?Q = "(t_queues s)(mainQueue ch := xs @ ys)" and ?W = "(t_workers s)(i := Busy ch body tag Begin)"
  note I = core_invD [OF inv]
  have good: "good_msg D (t_db s) ch body"
    by (rule queues_goodD [OF I(3), of ch "mainQueue ch"]) (simp_all add: q)
  have "queues_good D (t_db s) ?Q"
    by (rule queues_good_less [OF I(3)]) (rule take_less [where Q = "t_queues s", OF q])
  moreover have "workers_ok D (t_db s) ?Q ?W"
    by (rule workers_ok_mono [OF I(4)]) (use good in \<open>auto simp: pc_ok_def\<close>)
  moreover have "accounted D s ?s' row"
    if row: "row \<in> set (notifications (t_db s))" for row
  proof (rule accounted_move [OF row, where Q = ?Q and W = ?W and P = "t_posts s" and L = "t_lost s"])
    assume "waiting D (t_queues s) row"
    then obtain c q' b a p where b: "r_channel row = toString_Channel c" "live D c q'"
      "b \<in> set (t_queues s q')" "decode (dp_json D) b = Inr (r_id row, a, p)"
      unfolding waiting_def by blast
    show "waiting D ?Q row \<or> answered D ?W row"
    proof (cases "b = body")
      case True
      then have "r_channel row = toString_Channel ch"
        using good_msg_channel [OF good _ I(2) row] b(4) by blast
      then have "answered D ?W row"
        by (rule answeredI [where i = i and pc = Begin and body = body and a = a and p = p, rotated 2])
          (use b(4) True in simp_all)
      then show ?thesis ..
    next
      case False
      have "b \<in> set (?Q q')" by (rule take_keeps [where Q = "t_queues s", OF q b(3) False])
      then show ?thesis using waitingI [OF b(1,2) _ b(4)] by blast
    qed
  next
    assume "answered D (t_workers s) row"
    then show "answered D ?W row \<or> waiting D ?Q row" using answered_free i by blast
  next
    assume "parked D (t_queues s) row"
    then show "parked D ?Q row" by (rule parked_mono) simp
  qed simp_all
  ultimately show ?thesis using I(1,5) by (intro accountsI) simp_all
qed

lemma accounts_worker_dies:
  assumes inv: "core_inv D s" and w: "t_workers s i = Busy ch body tag pc"
  shows "accounts D s (s\<lparr>t_queues := (t_queues s)(mainQueue ch := body # t_queues s (mainQueue ch)),
    t_workers := (t_workers s)(i := Free)\<rparr>)" (is "accounts D s ?s'")
proof -
  let ?Q = "(t_queues s)(mainQueue ch := body # t_queues s (mainQueue ch))" and ?W = "(t_workers s)(i := Free)"
  note I = core_invD [OF inv]
  have good: "good_msg D (t_db s) ch body" using workers_okD [OF I(4) w] by blast
  have more: "set (t_queues s q) \<subseteq> set (?Q q)" for q by auto
  have "queues_good D (t_db s) ?Q"
  proof (rule queues_goodI)
    fix c q b assume "live D c q" "b \<in> set (?Q q)"
    then show "good_msg D (t_db s) c b"
      using good queues_goodD [OF I(3), of c q b] by (auto split: if_splits)
  qed
  moreover have "workers_ok D (t_db s) ?Q ?W"
    by (rule workers_ok_mono [OF I(4)]) (use more in auto)
  moreover have "accounted D s ?s' row"
    if row: "row \<in> set (notifications (t_db s))" for row
  proof (rule accounted_move [OF row, where Q = ?Q and W = ?W and P = "t_posts s" and L = "t_lost s"])
    assume a: "answered D (t_workers s) row"
    show "answered D ?W row \<or> waiting D ?Q row"
    proof (cases "\<exists>a p. decode (dp_json D) body = Inr (r_id row, a, p)")
      case True
      then obtain a p where d: "decode (dp_json D) body = Inr (r_id row, a, p)" by blast
      have "r_channel row = toString_Channel ch" by (rule good_msg_channel [OF good d I(2) row])
      then have "waiting D ?Q row" by (rule waitingI [where q = "mainQueue ch", OF _ _ _ d]) simp_all
      then show ?thesis ..
    next
      case False
      then have "\<exists>nid a p. decode (dp_json D) body = Inr (nid, a, p) \<and> nid \<noteq> r_id row"
        using good by (auto simp: good_msg_def)
      then show ?thesis using answered_other [OF a w] by blast
    qed
  qed (use waiting_mono [where Q' = ?Q] parked_mono [where Q' = ?Q] more in \<open>blast, blast, blast, simp_all\<close>)
  ultimately show ?thesis using I(1,5) by (intro accountsI) simp_all
qed

text \<open>A row that only moved between accounts of the posts and the queues.\<close>

lemma accounts_check:
  assumes inv: "core_inv D s" and p: "t_posts s i = Parsed n"
    and f: "findByIdempotencyKey (dp_db D) (n_idempotencyKey n) (t_db s) = (r, d')"
  shows "accounts D s (s\<lparr>t_db := d', t_posts := (t_posts s)(i :=
      (case r of Inl ex \<Rightarrow> NoPost | Inr (Some m) \<Rightarrow> Stored m | Inr None \<Rightarrow> Absent n))\<rparr>)" (is "accounts D s ?s'")
proof -
  let ?x = "case r of Inl ex \<Rightarrow> NoPost | Inr (Some m) \<Rightarrow> Stored m | Inr None \<Rightarrow> Absent n"
  note I = core_invD [OF inv]
  have d': "d' = pop_fault (t_db s)"
    using findByIdempotencyKey_state [of "dp_db D" "n_idempotencyKey n" "t_db s"] f by simp
  then have n: "notifications d' = notifications (t_db s)" by simp
  then have keeps: "keeps_rows (t_db s) d'" by (auto simp: keeps_rows_def)
  have "schema_inv (dp_db D) d'" using I(1) by (simp add: d')
  moreover have "queues_good D d' (t_queues s)" by (rule queues_good_rows [OF I(3) keeps])
  moreover have "workers_ok D d' (t_queues s) (t_workers s)" by (rule workers_ok_same [OF I(4) keeps]) simp
  moreover have "posts_ok d' ((t_posts s)(i := ?x))"
  proof (rule posts_ok_mono [OF I(5) keeps])
    fix m assume "?x = Stored m"
    then have "r = Inr (Some m)" by (auto split: sum.splits option.splits)
    with f obtain row where "select_by_key (dp_db D) (n_idempotencyKey n) (t_db s) = Some row"
      "rowToNotification row = Inr m"
      using findByIdempotencyKey_SomeD by blast
    then show "\<exists>row\<in>set (notifications d'). r_id row = n_id m \<and> r_channel row = toString_Channel (n_channel m)"
      using select_by_key_SomeD rowToNotification_fields n by metis
  qed
  moreover have "unannounced ((t_posts s)(i := ?x)) (t_lost s) row"
    if "unannounced (t_posts s) (t_lost s) row" for row
    by (rule unannounced_other [OF that]) (simp add: p)
  then have "accounted D s ?s' row" if "row \<in> set (notifications d')" for row
    by (intro accounted_move [OF that [unfolded n]]) auto
  ultimately show ?thesis by (intro accountsI) simp_all
qed

lemma accounts_insert:
  assumes inv: "core_inv D s" and p: "t_posts s i = Absent n"
    and f: "insertTransaction (dp_db D) u n (t_db s) = (r, d')"
  shows "accounts D s (s\<lparr>t_db := d', t_posts := (t_posts s)(i :=
      (case r of Inl ex \<Rightarrow> NoPost | Inr m \<Rightarrow> Stored m))\<rparr>)" (is "accounts D s ?s'")
proof -
  let ?x = "case r of Inl ex \<Rightarrow> NoPost | Inr m \<Rightarrow> Stored m"
  let ?P = "(t_posts s)(i := ?x)"
  note I = core_invD [OF inv]
  have sch: "schema_inv (dp_db D) d'" by (rule preservesD [OF insertTransaction_preserves I(1) f])
  have u: "unannounced ?P (t_lost s) row" if "unannounced (t_posts s) (t_lost s) row" for row
    by (rule unannounced_other [OF that]) (simp add: p)
  have old: "accounted D s ?s' row" if "row \<in> set (notifications (t_db s))" for row
    by (rule accounted_move [OF that]) (use u in auto)
  have rows: "notifications d' = notifications (t_db s) \<and> (\<forall>m. ?x \<noteq> Stored m) \<or>
    (\<exists>m. ?x = Stored m \<and> notifications d' = notifications (t_db s) @ [inserted_row m (db_now (t_db s))])"
    using insertTransaction_outcome [OF f] by (auto simp: Let_def same_tables_def with_inserted_def)
  then have keeps: "keeps_rows (t_db s) d'" by (auto simp: keeps_rows_def)
  have new: "r_id (inserted_row m t) = n_id m" "r_channel (inserted_row m t) = toString_Channel (n_channel m)"
    "r_status (inserted_row m t) = ''PENDING''" for m t
    by (simp_all add: inserted_row_def newRow_def)
  have "queues_good D d' (t_queues s)" by (rule queues_good_rows [OF I(3) keeps])
  moreover have "workers_ok D d' (t_queues s) (t_workers s)" by (rule workers_ok_same [OF I(4) keeps]) simp
  moreover have "posts_ok d' ?P"
    by (rule posts_ok_mono [OF I(5) keeps]) (use rows new in auto)
  moreover have "accounted D s ?s' row" if row: "row \<in> set (notifications d')" for row
  proof (cases "row \<in> set (notifications (t_db s))")
    case False
    then obtain m where m: "?x = Stored m" "row = inserted_row m (db_now (t_db s))" using rows row by auto
    have "?P i = Stored m" by (simp add: m(1))
    then have "unannounced ?P (t_lost s) row" unfolding unannounced_def using new(1) m(2) by metis
    then show ?thesis using new(3) m(2) by (simp add: accounted_def)
  qed (rule old)
  ultimately show ?thesis using sch by (intro accountsI) simp_all
qed

lemma accounts_publish:
  assumes dep: "deployable D" and inv: "core_inv D s" and p: "t_posts s i = Stored m"
    and msg: "j_dump (dp_json D) (deliveryMessage (dp_json D) m) = Inr msg"
  shows "accounts D s (s\<lparr>t_queues := broker_op (routes D) (Publish exchangeName (routingKey (n_channel m))
        (message msg (priorityWeight (n_priority m)))) (t_queues s),
      t_posts := (t_posts s)(i := NoPost)\<rparr>)" (is "accounts D s ?s'")
proof -
  let ?op = "Publish exchangeName (routingKey (n_channel m)) (message msg (priorityWeight (n_priority m)))"
  let ?Q = "broker_op (routes D) ?op (t_queues s)" and ?P = "(t_posts s)(i := NoPost)"
  note I = core_invD [OF inv]
  have laws: "json_laws (dp_json D)" using dep by (simp add: deployable_def)
  obtain row0 where row0: "row0 \<in> set (notifications (t_db s))" "r_id row0 = n_id m"
    "r_channel row0 = toString_Channel (n_channel m)"
    using I(5) p unfolding posts_ok_def by blast
  have "announcement (dp_json D) row0 ?op" by (rule announcement_saved [OF laws msg row0(2,3)])
  from announce_good [OF dep this row0(1) I(3)]
  have q: "queues_good D (t_db s) ?Q" and w: "waiting D ?Q row0" by simp_all
  have more: "set (t_queues s q) \<subseteq> set (?Q q)" for q by (rule broker_op_mono)
  have "workers_ok D (t_db s) ?Q (t_workers s)" by (rule workers_ok_same [OF I(4)]) (simp_all only: keeps_rows_refl more)
  moreover have "posts_ok (t_db s) ?P" by (rule posts_ok_mono [OF I(5)]) simp_all
  moreover have "accounted D s ?s' row"
    if row: "row \<in> set (notifications (t_db s))" for row
  proof (rule accounted_move [OF row, where Q = ?Q and W = "t_workers s" and P = ?P and L = "t_lost s"])
    assume u: "unannounced (t_posts s) (t_lost s) row"
    show "unannounced ?P (t_lost s) row \<or> waiting D ?Q row"
    proof (cases "r_id row = n_id m")
      case True
      then have "row = row0" using key_inv_unique [OF I(2) row row0(1)] row0(2) by simp
      then show ?thesis using w by simp
    next
      case False
      then show ?thesis by (intro disjI1 unannounced_other [OF u]) (simp add: p)
    qed
  qed (use waiting_mono [where Q' = ?Q] parked_mono [where Q' = ?Q] more in \<open>blast, blast, blast, simp_all\<close>)
  ultimately show ?thesis using I(1) q by (intro accountsI) simp_all
qed

lemma accounts_post_dies:
  assumes inv: "core_inv D s" and p: "t_posts s i = p"
  shows "accounts D s (s\<lparr>t_posts := (t_posts s)(i := NoPost),
      t_lost := (case p of Stored m \<Rightarrow> n_id m # t_lost s | _ \<Rightarrow> t_lost s)\<rparr>)" (is "accounts D s ?s'")
proof -
  let ?P = "(t_posts s)(i := NoPost)" and ?L = "case p of Stored m \<Rightarrow> n_id m # t_lost s | _ \<Rightarrow> t_lost s"
  note I = core_invD [OF inv]
  have u: "unannounced ?P ?L row" if un: "unannounced (t_posts s) (t_lost s) row" for row
  proof -
    consider "r_id row \<in> set (t_lost s)" | j m where "t_posts s j = Stored m" "n_id m = r_id row"
      using un unfolding unannounced_def by blast
    then show ?thesis
    proof cases
      case 1
      then have "r_id row \<in> set ?L" by (cases p) simp_all
      then show ?thesis unfolding unannounced_def ..
    next
      case (2 j m)
      then show ?thesis
      proof (cases "j = i")
        case True
        with 2 p have "r_id row \<in> set ?L" by simp
        then show ?thesis unfolding unannounced_def ..
      next
        case False
        with 2 have "?P j = Stored m" by simp
        with 2(2) show ?thesis unfolding unannounced_def by blast
      qed
    qed
  qed
  have "posts_ok (t_db s) ?P" by (rule posts_ok_mono [OF I(5)]) simp_all
  moreover have "accounted D s ?s' row" if "row \<in> set (notifications (t_db s))" for row
    by (rule accounted_move [OF that]) (use u in auto)
  ultimately show ?thesis using I by (intro accountsI) simp_all
qed

lemma accounts_expire:
  assumes dep: "deployable D" and inv: "core_inv D s" and q: "t_queues s q = xs @ body # ys"
    and t: "dead_letter_target (declareAll (dp_config D)) q = Some (x, k)"
  shows "accounts D s (s\<lparr>t_queues := broker_op (routes D) (Publish x k (newEnvelope body))
      ((t_queues s)(q := xs @ ys))\<rparr>)" (is "accounts D s ?s'")
proof -
  note I = core_invD [OF inv]
  let ?Q = "broker_op (routes D) (Publish x k (newEnvelope body)) ((t_queues s)(q := xs @ ys))"
  note moves = expire_moves [OF dep I(1,3) q t refl]
  have "workers_ok D (t_db s) ?Q (t_workers s)"
    by (rule workers_ok_same [OF I(4) keeps_rows_refl moves(4)])
  moreover have "accounted D s ?s' row" if row: "row \<in> set (notifications (t_db s))" for row
    by (rule accounted_move [OF row, where Q = ?Q and W = "t_workers s" and P = "t_posts s" and L = "t_lost s"])
      (use moves(2) [OF row] moves(3) in \<open>blast, blast, blast, simp_all\<close>)
  ultimately show ?thesis
    using I(1,5) moves(1) by (intro accountsI) (simp_all del: broker_op.simps)
qed

text \<open>A worker's step: the tables keep their invariant, and every row is accounted for.\<close>

lemma schema_op_act: "we_db V = E \<Longrightarrow> preserves (\<lambda>w. schema_inv E (w_db w)) (op_act V ch tag op)"
proof -
  assume E: "we_db V = E"
  have db: "preserves (schema_inv E) m \<Longrightarrow> preserves (\<lambda>w. schema_inv E (w_db w)) (on_db m)" for m
    by (erule preserves_on_db) simp_all
  have em: "preserves (\<lambda>w. schema_inv E (w_db w)) (emit x)" for x
    by (simp add: preserves_def emit_eq)
  show ?thesis
    by (cases op) (simp_all add: op_act_def E db em record_preserves_schema updates_preserve_schema
        preserves_bindA preserves_liftE)
qed

lemma schema_handler_step:
  assumes "handler_step V ch config body tag pc w = (pc', w')" "schema_inv (we_db V) (w_db w)"
  shows "schema_inv (we_db V) (w_db w')"
proof (cases pc)
  case (Lookup nid a p)
  obtain r w1 where f: "on_db (findById (we_db V) nid) w = (r, w1)" by (cases "on_db (findById (we_db V) nid) w")
  then have "w_db w1 = pop_fault (w_db w)"
    using on_dbE [OF f] findById_state [of "we_db V" nid "w_db w"] by simp
  moreover have "w' = w1" using assms(1) f Lookup by (auto split: sum.splits option.splits if_splits)
  ultimately show ?thesis using assms(2) by simp
next
  case (Claim nid a p n)
  with assms show ?thesis
    by (auto dest!: on_dbE intro: preservesD [OF mp.preserves_schema_inv] split: prod.splits sum.splits)
next
  case (Calling nid a p n)
  with assms show ?thesis
    by (auto simp: on_router_def zoomA_def split: prod.splits sum.splits if_splits)
next
  case (Sending nid a p n)
  with assms show ?thesis
    by (auto simp: on_router_def zoomA_def split: prod.splits sum.splits if_splits)
next
  case (Reporting nid a p n outcome)
  with assms show ?thesis
    by (auto simp: on_router_def zoomA_def split: prod.splits sum.splits if_splits)
next
  case (Todo ops)
  then show ?thesis
    using assms preservesD [OF schema_op_act [OF refl]]
    by (cases ops) (auto split: prod.splits sum.splits)
qed (use assms in \<open>auto split: prod.splits sum.splits\<close>)

lemma rows_of_work:
  assumes dep: "deployable D" and inv: "core_inv D s" and w: "t_workers s i = Busy ch body tag pc"
    and V: "we_db V = dp_db D" "we_json V = dp_json D"
    and h: "handler_step V ch (dp_config D) body tag pc \<lparr>w_db = t_db s, w_router = t_router s, w_ops = []\<rparr> = (pc', w')"
    and Q': "Q' = broker_ops (routes D) (w_ops w') (t_queues s)"
    and ack: "Ack tag \<in> set (w_ops w') \<longrightarrow> \<not> active pc'"
    and row': "row' \<in> set (notifications (w_db w'))"
    and s': "t_queues s' = Q'" "t_posts s' = t_posts s" "t_lost s' = t_lost s"
      "t_workers s' = (t_workers s)(i := (if Ack tag \<in> set (w_ops w') then Free else Busy ch body tag pc'))"
  shows "accounted D s s' row'"
proof -
  let ?w = "\<lparr>w_db = t_db s, w_router = t_router s, w_ops = []\<rparr>"
  let ?x = "if Ack tag \<in> set (w_ops w') then Free else Busy ch body tag pc'"
  let ?W = "(t_workers s)(i := ?x)"
  note I = core_invD [OF inv]
  have more: "set (t_queues s q) \<subseteq> set (Q' q)" for q unfolding Q' by (rule broker_ops_mono)
  have good: "good_msg D (t_db s) ch body"
    and ok: "pc_ok (we_json V) (dp_config D) (body \<in> set (t_queues s (dlq ch))) body pc"
    using workers_okD [OF I(4) w] V by simp_all
  obtain nid a p where dec: "decode (dp_json D) body = Inr (nid, a, p)" and a: "1 \<le> a"
    using good by (auto simp: good_msg_def)
  have decV: "decode (we_json V) body = Inr (nid, a, p)" using dec V by simp
  have "touched (dp_db D) nid (t_db s) (w_db w')"
    using handler_step_touches [OF h ok decV] V by simp
  then obtain row where row: "row \<in> set (notifications (t_db s))" "row_touch (dp_db D) nid row row'"
    using row' by (rule touched_back)
  have id: "r_id row' = r_id row" "r_channel row' = r_channel row"
    using row(2) by (simp_all add: row_touch_def)
  have status: "r_status row' \<in> {r_status row, ''PROCESSING'', ''SENT'', ''DEAD_LETTERED''}"
    using row(2) by (simp add: row_touch_def)
  have settled: ?thesis if "settled_row D s' row'"
    using that row(1) id status unfolding accounted_def follows_def by blast
  have move: ?thesis if "r_status row' = r_status row" "answered D (t_workers s) row \<Longrightarrow> answered D ?W row"
  proof -
    have "follows D s s' row row'"
      by (rule followsI [OF id that(1)]; unfold s')
        (use that(2) waiting_mono [where Q' = Q'] parked_mono [where Q' = Q'] more in blast)+
    then show ?thesis using row(1) unfolding accounted_def by blast
  qed
  show ?thesis
  proof (cases "r_id row = nid")
    case False
    obtain row0 where row0: "row0 \<in> set (notifications (t_db s))" "r_id row0 = nid"
      using good dec by (auto simp: good_msg_def)
    then have "\<not> same_key (dp_db D) (r_id row) nid"
      using key_inv_unique [OF I(2) row(1) row0(1)] False by auto
    then have "row' = row" using row(2) by (simp add: row_touch_def)
    moreover have "answered D (t_workers s) row \<Longrightarrow> answered D ?W row"
      using answered_other [where W = "t_workers s" and i = i, OF _ w] dec False by blast
    ultimately show ?thesis by (intro move) auto
  next
    case True
    have ch: "r_channel row = toString_Channel ch"
      using good_msg_channel [OF good _ I(2) row(1)] dec True by simp
    have dec': "decode (dp_json D) body = Inr (r_id row', a, p)" using dec id True by simp
    show ?thesis
    proof (cases "active pc'")
      case active: True
      then have "?W i = Busy ch body tag pc'" using ack by simp
      then have "answered D ?W row'" by (rule answeredI [OF _ active _ dec']) (simp add: id ch)
      then show ?thesis by (intro settled) (simp add: settled_row_def s')
    next
      case inactive': False
      show ?thesis
      proof (cases "active pc")
        case True
        have "let_go V ch (dp_config D) nid a p (body \<in> set (t_queues s (dlq ch))) w'"
          by (rule handler_step_lets_go [OF h ok _ decV True inactive']) (use I(2) V in simp)
        moreover have "all_status (we_db V) nid S (w_db w') \<Longrightarrow> r_status row' \<in> S" for S
          using row' id \<open>r_id row = nid\<close> by (auto simp: all_status_def)
        ultimately consider "r_status row' \<in> {''SENT'', ''CANCELLED''}"
          | "r_status row' = ''DEAD_LETTERED''" "body \<in> set (t_queues s (dlq ch))"
          | op where "op \<in> set (w_ops w')" "is_retry (dp_json D) ch (dp_config D) nid a p op"
          unfolding let_go_def V by blast
        then show ?thesis
        proof cases
          case 1
          then show ?thesis by (intro settled) (auto simp: settled_row_def)
        next
          case 2
          then have "parked D Q' row'" using more dec' ch id unfolding parked_def by (metis subsetD)
          then show ?thesis using 2(1) by (intro settled) (simp add: settled_row_def s')
        next
          case (3 op)
          have "waiting D Q' row'"
            unfolding Q' by (rule retry_waits [OF dep 3 a]) (use id ch \<open>r_id row = nid\<close> in simp_all)
          then show ?thesis by (intro settled) (simp add: settled_row_def s')
        qed
      next
        case False
        obtain row2 where row2: "row2 \<in> set (notifications (t_db s))" "r_id row' = r_id row2"
          "r_channel row' = r_channel row2" "r_status row' = r_status row2"
          using list_all2_right [OF inactive_step [OF h False] row'] by auto
        have "same_key (dp_db D) (r_id row2) (r_id row)" by (simp add: id(1) [symmetric] row2(2))
        then have "row2 = row" by (rule key_inv_unique [OF I(2) row2(1) row(1)])
        then have st: "r_status row' = r_status row" using row2(4) by metis
        have "answered D (t_workers s) row \<Longrightarrow> answered D ?W row"
          using answered_other [where W = "t_workers s" and i = i, OF _ w] False by blast
        then show ?thesis by (rule move [OF st])
      qed
    qed
  qed
qed

lemma accounts_work:
  assumes dep: "deployable D" and inv: "core_inv D s" and w: "t_workers s i = Busy ch body tag pc"
    and V: "we_db V = dp_db D" "we_json V = dp_json D"
    and h: "handler_step V ch (dp_config D) body tag pc \<lparr>w_db = t_db s, w_router = t_router s, w_ops = []\<rparr> = (pc', w')"
  shows "accounts D s (s\<lparr>t_db := w_db w', t_router := w_router w',
      t_queues := broker_ops (routes D) (w_ops w') (t_queues s),
      t_workers := (t_workers s)(i := (if Ack tag \<in> set (w_ops w') then Free else Busy ch body tag pc'))\<rparr>)"
    (is "accounts D s ?s'")
proof -
  let ?Q = "broker_ops (routes D) (w_ops w') (t_queues s)"
  note I = core_invD [OF inv]
  have more: "set (t_queues s q) \<subseteq> set (?Q q)" for q by (rule broker_ops_mono)
  have good: "good_msg D (t_db s) ch body"
    and ok: "pc_ok (we_json V) (dp_config D) (body \<in> set (t_queues s (dlq ch))) body pc"
    using workers_okD [OF I(4) w] V by simp_all
  obtain nid a p where dec: "decode (we_json V) body = Inr (nid, a, p)"
    using good V by (auto simp: good_msg_def)
  have b: "broker_laws (dp_route D)" using dep by (simp add: deployable_def)
  have keeps: "keeps_rows (t_db s) (w_db w')"
    using touched_keeps [OF handler_step_touches [OF h ok dec]] by simp
  have e: "pc = Todo [AckMessage] \<and> w_ops w' = [Ack tag] \<or>
      outgoing (we_json V) ch (dp_config D) body (w_ops w')"
    using handler_step_emits [OF h ok] by simp
  have ack: "Ack tag \<in> set (w_ops w') \<longrightarrow> \<not> active pc'"
    using e
  proof
    assume "pc = Todo [AckMessage] \<and> w_ops w' = [Ack tag]"
    then show ?thesis using h by (auto simp: op_act_def emit_eq)
  next
    assume "outgoing (we_json V) ch (dp_config D) body (w_ops w')"
    then show ?thesis using outgoing_no_ack by blast
  qed
  have "queues_good D (w_db w') (t_queues s)" by (rule queues_good_rows [OF I(3) keeps])
  then have "queues_good D (w_db w') ?Q"
    using e outgoing_good [OF dep _ good_msg_rows [OF good keeps]] V by auto
  moreover have "workers_ok D (w_db w') ?Q
      ((t_workers s)(i := (if Ack tag \<in> set (w_ops w') then Free else Busy ch body tag pc')))"
  proof (rule workers_ok_mono [OF I(4) keeps more])
    fix c b t q assume "(if Ack tag \<in> set (w_ops w') then Free else Busy ch body tag pc') = Busy c b t q"
    then have q: "c = ch" "b = body" "q = pc'" by (auto split: if_splits)
    have "pc_ok (we_json V) (dp_config D) (body \<in> set (?Q (dlq ch))) body pc'"
    proof (rule handler_step_ok [OF h ok dec])
      assume "Publish [] (dlq ch) (dlq_message body) \<in> set (w_ops w')"
      from broker_ops_mem [OF this, of "dlq ch" "routes D" "t_queues s"]
      show "body \<in> set (?Q (dlq ch))" using route_queue(1) [OF b] by (simp add: dlq_message_def)
    qed (use more in auto)
    then show "good_msg D (w_db w') c b \<and>
        pc_ok (dp_json D) (dp_config D) (b \<in> set (?Q (dlq c))) b q"
      using good_msg_rows [OF good keeps] V q by simp
  qed
  moreover have "posts_ok (w_db w') (t_posts s)" by (rule posts_ok_same [OF I(5) keeps])
  moreover have "schema_inv (dp_db D) (w_db w')" using schema_handler_step [OF h] I(1) V by simp
  moreover have "accounted D s ?s' row'" if "row' \<in> set (notifications (w_db w'))" for row'
    by (rule rows_of_work [OF dep inv w V h refl ack that]) simp_all
  ultimately show ?thesis by (intro accountsI) simp_all
qed

lemma accounts_step:
  assumes "deployable D" "core_inv D s" "tsys_step D s s'" shows "accounts D s s'"
  using assms(3)
proof cases
  case take_message
  then show ?thesis using accounts_take [OF assms(2)] by simp
next
  case work
  then show ?thesis using accounts_work [OF assms(1,2)] by simp
next
  case worker_dies
  then show ?thesis using accounts_worker_dies [OF assms(2)] by simp
next
  case (parse i V content n)
  note I = core_invD [OF assms(2)]
  have "unannounced ((t_posts s)(i := Parsed n)) (t_lost s) row" if "unannounced (t_posts s) (t_lost s) row" for row
    by (rule unannounced_other [OF that]) (simp add: parse(2))
  then have "accounted D s s' row" if "row \<in> set (notifications (t_db s))" for row
    by (intro accounted_move [OF that]) (auto simp: parse(1))
  moreover have "posts_ok (t_db s) ((t_posts s)(i := Parsed n))" by (rule posts_ok_mono [OF I(5)]) simp_all
  ultimately show ?thesis using I by (intro accountsI) (simp_all add: parse(1))
next
  case check
  then show ?thesis using accounts_check [OF assms(2)] by simp
next
  case insert
  then show ?thesis using accounts_insert [OF assms(2)] by simp
next
  case publish
  then show ?thesis using accounts_publish [OF assms(1,2)] by (simp del: broker_op.simps)
next
  case (post_dies i p)
  show ?thesis unfolding post_dies(1) by (rule accounts_post_dies [OF assms(2) post_dies(2)])
next
  case expire
  then show ?thesis using accounts_expire [OF assms(1,2)] by (simp del: broker_op.simps)
next
  case new_router
  have "accounted D s s' row" if "row \<in> set (notifications (t_db s))" for row
    by (rule accounted_move [OF that]) (simp_all add: new_router)
  then show ?thesis using assms(2) by (simp add: accounts_def core_inv_def new_router)
next
  case (environment fs now)
  have "accounted D s s' row" if "row \<in> set (notifications (t_db s))" for row
    by (rule accounted_move [OF that]) (simp_all add: environment)
  then show ?thesis using assms(2)
    by (auto simp: accounts_def core_inv_def environment schema_inv_def key_inv_def outbox_inv_def queues_good_def
        good_msg_def workers_ok_def posts_ok_def)
qed

lemma tsys_inv_step:
  assumes "deployable D" "tsys_inv D s" "tsys_step D s s'" shows "tsys_inv D s'"
proof -
  have "core_inv D s" using assms(2) by (simp add: tsys_inv_def)
  then show ?thesis using tsys_inv_accounts [OF assms(2) accounts_step [OF assms(1) _ assms(3)]] by blast
qed

lemma tsys_inv_reach: "tsys_reach D s \<Longrightarrow> deployable D \<Longrightarrow> tsys_inv D s"
  by (induction rule: tsys_reach.induct) (auto intro: tsys_inv_init tsys_inv_step)

end
