(* ===== verification/Progress.thy ===== *)
theory Progress
  imports Threads WorkerProperties
begin

text \<open>
  What a worker can do when no statement fails from outside: lemmas that extend a run of the
  interleaved system by the steps of one worker, up to a delivery that ends SENT. They are
  used to exhibit runs, good ones (\<open>Recovery\<close>) and bad ones (\<open>Races\<close>, \<open>Connections\<close>).
\<close>

section \<open>Progress of one worker\<close>

text \<open>No statement fails from outside, and the notification's row is as given.\<close>

definition calm :: "'j deployment \<Rightarrow> string \<Rightarrow> notification_row \<Rightarrow> tsys \<Rightarrow> bool" where
  "calm D nid row s \<longleftrightarrow> schema_inv (dp_db D) (t_db s) \<and> fault_free (t_db s) \<and>
     select_by_id (dp_db D) nid (t_db s) = Some row"

definition env_with :: "'j deployment \<Rightarrow> exn + ProviderResult \<Rightarrow> ('j, MockProvider) worker_env" where
  "env_with D outcome = \<lparr>we_db = dp_db D, we_json = dp_json D, we_provider = (\<lambda>_ _. outcome),
     we_t1 = 0, we_t2 = 0\<rparr>"

lemma env_with_simps [simp]:
  "we_db (env_with D oc) = dp_db D" "we_json (env_with D oc) = dp_json D"
  "we_provider (env_with D oc) = (\<lambda>_ _. oc)" "we_t1 (env_with D oc) = 0" "we_t2 (env_with D oc) = 0"
  by (simp_all add: env_with_def)

definition world_of :: "tsys \<Rightarrow> MockProvider world" where
  "world_of s = \<lparr>w_db = t_db s, w_router = t_router s, w_ops = []\<rparr>"

text \<open>Worker \<open>i\<close> alone moves to \<open>slot\<close>; queues, router and the row become the given ones.\<close>

definition moves ::
  "(string \<Rightarrow> string list) \<Rightarrow> 'j deployment \<Rightarrow> tsys \<Rightarrow> nat \<Rightarrow> worker_slot \<Rightarrow> MockProvider ProviderRouter \<Rightarrow>
   string \<Rightarrow> notification_row \<Rightarrow> tsys \<Rightarrow> bool" where
  "moves Q D s i slot rt nid row s' \<longleftrightarrow> (tsys_step D)\<^sup>*\<^sup>* s s' \<and> t_workers s' = (t_workers s)(i := slot) \<and>
     t_router s' = rt \<and> t_queues s' = Q \<and> t_posts s' = t_posts s \<and> calm D nid row s'"

lemma movesI:
  assumes "t_workers s i = Busy ch body tag pc"
    and "handler_step (env_with D oc) ch (dp_config D) body tag pc (world_of s) =
      (pc', \<lparr>w_db = d, w_router = rt, w_ops = ops\<rparr>)"
    and "Ack tag \<notin> set ops"
    and "schema_inv (dp_db D) d" "fault_free d" "select_by_id (dp_db D) nid d = Some row"
  shows "\<exists>s'. moves (broker_ops (routes D) ops (t_queues s)) D s i (Busy ch body tag pc') rt nid row s'"
proof -
  let ?s = "s\<lparr>t_db := d, t_router := rt, t_queues := broker_ops (routes D) ops (t_queues s),
      t_workers := (t_workers s)(i := Busy ch body tag pc')\<rparr>"
  have "tsys_step D s ?s"
    using tsys_step.work [OF assms(1) _ _ assms(2) [unfolded world_of_def]] assms(3) by simp
  then show ?thesis
    using assms(4-6) by (intro exI [of _ ?s]) (simp add: moves_def calm_def r_into_rtranclp)
qed

lemma on_db_world: "m (t_db s) = (r, d) \<Longrightarrow> on_db m (world_of s) = (r, (world_of s)\<lparr>w_db := d\<rparr>)"
  by (rule on_db_eq) (simp add: world_of_def)

lemma calmD:
  assumes "calm D nid row s"
  shows "schema_inv (dp_db D) (t_db s)" "fault_free (t_db s)" "no_fault (t_db s)"
    "select_by_id (dp_db D) nid (t_db s) = Some row"
  using assms by (simp_all add: calm_def fault_free_no_fault)

lemma claim_moves:
  assumes "t_workers s i = Busy ch body tag (Claim nid a p n)" "calm D nid row s"
  shows "\<exists>s'. moves (t_queues s) D s i (Busy ch body tag (Calling nid a p n)) (t_router s) nid (set_status Processing row) s'"
proof -
  note c = calmD [OF assms(2)]
  have "handler_step (env_with D (Inl (MysqlError []))) ch (dp_config D) body tag (Claim nid a p n) (world_of s) =
      (Calling nid a p n, \<lparr>w_db = rewrite_rows (dp_db D) (set_status Processing) nid (pop_fault (t_db s)),
         w_router = t_router s, w_ops = []\<rparr>)"
    using on_db_world [where m = "markProcessing (dp_db D) nid" and s = s, OF mark_no_fault(1) [OF c(3)]] by (simp add: world_of_def)
  from movesI [OF assms(1) this] show ?thesis
    using c by (simp add: mp.schema_inv_rewrite mp.select_rewrite_same)
qed

text \<open>The provider call of a channel whose breaker is closed: admission, then the given outcome.\<close>

lemma call_moves:
  assumes "t_workers s i = Busy ch body tag (Calling nid a p n)" "calm D nid row s"
    and e: "entries (t_router s) (int_of_Channel (n_channel n)) = Some e" "cb_state (e_breaker e) = Closed"
    and rt: "router_send (\<lambda>_ _. oc) 0 0 n (t_router s) = (oc, rt)" "\<forall>ex. oc = Inl ex \<longrightarrow> is_ProviderException ex"
  shows "\<exists>s'. moves (t_queues s) D s i (Busy ch body tag (Todo (case oc of
      Inl ex \<Rightarrow> failure_ops ch (dp_config D) nid a p body ex | Inr res \<Rightarrow> success_ops ch nid a res))) rt nid row s'"
proof -
  note c = calmD [OF assms(2)]
  have ad: "router_admit 0 n (t_router s) = (Inr (), t_router s)" by (rule router_admit_closed [OF e])
  let ?called = "(t_router s)\<lparr>provider_calls := provider_calls (t_router s) @ [n]\<rparr>"
  have called: "router_call (\<lambda>_ _. oc) n (t_router s) = (oc, ?called)" by (rule router_call_known [OF e(1)])
  then have reported: "router_report 0 n oc ?called = (oc, rt)"
    using rt(1) ad by (simp add: router_send_split seqA_Inr)
  have "on_router (router_admit 0 n) (world_of s) = (Inr (), world_of s)"
    using on_router_eq [of "router_admit 0 n" "world_of s"] ad by (simp add: world_of_def)
  then have "handler_step (env_with D oc) ch (dp_config D) body tag (Calling nid a p n) (world_of s) =
      (Sending nid a p n, \<lparr>w_db = t_db s, w_router = t_router s, w_ops = []\<rparr>)"
    by (simp add: world_of_def)
  from movesI [OF assms(1) this, of nid row] c obtain s1
    where s1: "moves (t_queues s) D s i (Busy ch body tag (Sending nid a p n)) (t_router s) nid row s1" by auto
  then have w1: "t_workers s1 i = Busy ch body tag (Sending nid a p n)" "t_router s1 = t_router s" "calm D nid row s1"
    by (simp_all add: moves_def)
  have "on_router (router_call (\<lambda>_ _. oc) n) (world_of s1) = (oc, (world_of s1)\<lparr>w_router := ?called\<rparr>)"
    by (rule on_router_eq) (simp add: world_of_def called w1(2))
  then have "handler_step (env_with D oc) ch (dp_config D) body tag (Sending nid a p n) (world_of s1) =
      (Reporting nid a p n oc, \<lparr>w_db = t_db s1, w_router = ?called, w_ops = []\<rparr>)"
    by (simp add: world_of_def)
  from movesI [OF w1(1) this, of nid row] calmD [OF w1(3)] obtain s2
    where s2: "moves (t_queues s1) D s1 i (Busy ch body tag (Reporting nid a p n oc)) ?called nid row s2" by auto
  then have w2: "t_workers s2 i = Busy ch body tag (Reporting nid a p n oc)" "t_router s2 = ?called" "calm D nid row s2"
    by (simp_all add: moves_def)
  have "on_router (router_report 0 n oc) (world_of s2) = (oc, (world_of s2)\<lparr>w_router := rt\<rparr>)"
    by (rule on_router_eq) (simp add: world_of_def reported w2(2))
  then have "handler_step (env_with D oc) ch (dp_config D) body tag (Reporting nid a p n oc) (world_of s2) =
      (Todo (case oc of Inl ex \<Rightarrow> failure_ops ch (dp_config D) nid a p body ex | Inr res \<Rightarrow> success_ops ch nid a res),
       \<lparr>w_db = t_db s2, w_router = rt, w_ops = []\<rparr>)"
    using rt(2) by (cases oc) (simp_all add: world_of_def)
  from movesI [OF w2(1) this, of nid row] calmD [OF w2(3)] show ?thesis
    using s1 s2 by (auto simp: moves_def intro: rtranclp_trans)
qed

lemma op_moves:
  assumes "t_workers s i = Busy ch body tag (Todo (op # rest))"
    and "op_act (env_with D (Inl (MysqlError []))) ch tag op (world_of s) =
      (Inr (), \<lparr>w_db = d, w_router = t_router s, w_ops = ops\<rparr>)"
    and "Ack tag \<notin> set ops"
    and "schema_inv (dp_db D) d" "fault_free d" "select_by_id (dp_db D) nid d = Some row"
  shows "\<exists>s'. moves (broker_ops (routes D) ops (t_queues s)) D s i (Busy ch body tag (Todo rest)) (t_router s) nid row s'"
  by (rule movesI [where oc = "Inl (MysqlError [])", OF assms(1) _ assms(3-6)]) (simp add: assms(2))

lemma sent_moves:
  assumes "t_workers s i = Busy ch body tag (Todo (MarkSent nid # rest))" "calm D nid row s"
  shows "\<exists>s'. moves (t_queues s) D s i (Busy ch body tag (Todo rest)) (t_router s) nid (set_status Sent row) s'"
proof -
  note c = calmD [OF assms(2)]
  have "op_act (env_with D (Inl (MysqlError []))) ch tag (MarkSent nid) (world_of s) =
      (Inr (), \<lparr>w_db = rewrite_rows (dp_db D) (set_status Sent) nid (pop_fault (t_db s)),
         w_router = t_router s, w_ops = []\<rparr>)"
    using on_db_world [where m = "markSent (dp_db D) nid" and s = s, OF mark_no_fault(2) [OF c(3)]] by (simp add: world_of_def op_act_def)
  from op_moves [OF assms(1) this] show ?thesis
    using c by (simp add: ms.schema_inv_rewrite ms.select_rewrite_same)
qed

lemma dead_moves:
  assumes "t_workers s i = Busy ch body tag (Todo (MarkDeadLettered nid # rest))" "calm D nid row s"
  shows "\<exists>s'. moves (t_queues s) D s i (Busy ch body tag (Todo rest)) (t_router s) nid (set_status DeadLettered row) s'"
proof -
  note c = calmD [OF assms(2)]
  have "op_act (env_with D (Inl (MysqlError []))) ch tag (MarkDeadLettered nid) (world_of s) =
      (Inr (), \<lparr>w_db = rewrite_rows (dp_db D) (set_status DeadLettered) nid (pop_fault (t_db s)),
         w_router = t_router s, w_ops = []\<rparr>)"
    using on_db_world [where m = "markDeadLettered (dp_db D) nid" and s = s, OF mark_no_fault(3) [OF c(3)]] by (simp add: world_of_def op_act_def)
  from op_moves [OF assms(1) this] show ?thesis
    using c by (simp add: md.schema_inv_rewrite md.select_rewrite_same)
qed

lemma increment_moves:
  assumes "t_workers s i = Busy ch body tag (Todo (Increment nid # rest))" "calm D nid row s"
    and "r_attempt_count row < uint32_max"
  shows "\<exists>s'. moves (t_queues s) D s i (Busy ch body tag (Todo rest)) (t_router s) nid (bump_count row) s'"
proof -
  note c = calmD [OF assms(2)]
  have "op_act (env_with D (Inl (MysqlError []))) ch tag (Increment nid) (world_of s) =
      (Inr (), \<lparr>w_db = rewrite_rows (dp_db D) bump_count nid (pop_fault (t_db s)),
         w_router = t_router s, w_ops = []\<rparr>)"
    using on_db_world [where m = "incrementAttemptCount (dp_db D) nid" and s = s, OF increment_returns [OF c(2) key_inv_schema [OF c(1)] c(4) assms(3)]]
    by (simp add: world_of_def op_act_def)
  from op_moves [OF assms(1) this] show ?thesis
    using c by (simp add: ic.schema_inv_rewrite ic.select_rewrite_same)
qed

lemma record_moves:
  assumes "t_workers s i = Busy ch body tag (Todo (Record att # rest))" "calm D nid row s"
    and "a_notificationId att = nid" "0 \<le> a_attemptNumber att" "a_attemptNumber att \<le> int uint32_max"
    and "varchar_null 255 (a_providerRef att)" "varchar_null 1024 (a_errorMessage att)"
  shows "\<exists>s'. moves (t_queues s) D s i (Busy ch body tag (Todo rest)) (t_router s) nid row s'"
proof -
  note c = calmD [OF assms(2)]
  obtain d where d: "record_attempt (dp_db D) att (t_db s) = (Inr (), d)" "fault_free d"
    "notifications d = notifications (t_db s)"
    using record_returns [OF c(2) assms(4-7)] c(4) assms(3) by blast
  have "schema_inv (dp_db D) d" by (rule preservesD [OF record_preserves_schema c(1) d(1)])
  moreover have "select_by_id (dp_db D) nid d = Some row" using c(4) select_by_id_same [OF d(3)] by simp
  moreover have "op_act (env_with D (Inl (MysqlError []))) ch tag (Record att) (world_of s) =
      (Inr (), \<lparr>w_db = d, w_router = t_router s, w_ops = []\<rparr>)"
    using on_db_world [where m = "record_attempt (dp_db D) att" and s = s, OF d(1)] by (simp add: world_of_def op_act_def)
  ultimately show ?thesis
    using d(2) op_moves [OF assms(1), where d = d and ops = "[]" and nid = nid and row = row] by simp
qed

lemma dlq_moves:
  assumes "t_workers s i = Busy ch body tag (Todo (PublishDlq body # rest))" "calm D nid row s"
  shows "\<exists>s'. moves (broker_ops (routes D) [Publish [] (dlq ch) (dlq_message body)] (t_queues s)) D s i
    (Busy ch body tag (Todo rest)) (t_router s) nid row s'"
  using calmD [OF assms(2)]
  by (intro op_moves [OF assms(1), where d = "t_db s"]) (simp_all add: op_act_def emit_eq world_of_def)

lemma ack_moves:
  assumes "t_workers s i = Busy ch body tag (Todo [AckMessage])" "calm D nid row s"
  shows "\<exists>s'. moves (t_queues s) D s i Free (t_router s) nid row s'"
proof -
  have "handler_step (env_with D (Inl (MysqlError []))) ch (dp_config D) body tag (Todo [AckMessage])
      \<lparr>w_db = t_db s, w_router = t_router s, w_ops = []\<rparr> =
      (Todo [], \<lparr>w_db = t_db s, w_router = t_router s, w_ops = [Ack tag]\<rparr>)"
    by (simp add: op_act_def emit_eq)
  from tsys_step.work [OF assms(1) _ _ this]
  have "tsys_step D s (s\<lparr>t_workers := (t_workers s)(i := Free)\<rparr>)" (is "tsys_step D s ?s") by simp
  then show ?thesis
    using assms(2) by (intro exI [of _ ?s]) (simp add: moves_def calm_def r_into_rtranclp)
qed

lemma closed_call:
  assumes "entries rt (int_of_Channel (n_channel n)) = Some e" "cb_state (e_breaker e) = Closed"
    and "\<forall>ex. oc = Inl ex \<longrightarrow> \<not> isTransient ex"
  obtains rt' e' where "router_send (\<lambda>_ _. oc) t1 t2 n rt = (oc, rt')"
    "provider_calls rt' = provider_calls rt @ [n]"
    "entries rt' (int_of_Channel (n_channel n)) = Some e'" "cb_state (e_breaker e') = Closed"
proof -
  have g: "guarded_send allowRequest onSuccess onFailure t1 t2 (n_channel n) oc (e_breaker e) =
      (oc, report onSuccess onFailure t2 oc (e_breaker e), True)"
    by (rule cb.send_with_closed [OF assms(2)])
  have "cb_state (report onSuccess onFailure t2 oc (e_breaker e)) = Closed"
    using assms(2,3) by (auto simp: report_def onSuccess_def split: sum.splits)
  then show ?thesis
    using router_send_known [where prov = "\<lambda>_ _. oc", OF assms(1) g] by (intro that) auto
qed

section \<open>A delivery\<close>

definition delivered :: "exn + ProviderResult" where
  "delivered = Inr \<lparr>providerRef = ''ref''\<rparr>"

text \<open>One worker delivers and marks the notification SENT.\<close>

lemma worker_delivers:
  assumes "t_workers s i = Busy ch body tag (Claim nid a p n)" "calm D nid row s"
    and "0 \<le> a" "a \<le> int uint32_max"
    and "entries (t_router s) (int_of_Channel (n_channel n)) = Some e" "cb_state (e_breaker e) = Closed"
  obtains s' e' where "(tsys_step D)\<^sup>*\<^sup>* s s'" "calm D nid (set_status Sent row) s'"
    "t_workers s' = (t_workers s)(i := Busy ch body tag (Todo [Increment nid, AckMessage]))"
    "t_queues s' = t_queues s" "t_posts s' = t_posts s"
    "provider_calls (t_router s') = provider_calls (t_router s) @ [n]"
    "entries (t_router s') (int_of_Channel (n_channel n)) = Some e'" "cb_state (e_breaker e') = Closed"
proof -
  let ?rec = "(newAttempt ch nid a)\<lparr>a_status := Success, a_providerRef := Some ''ref''\<rparr>"
  obtain s1 where s1: "moves (t_queues s) D s i (Busy ch body tag (Calling nid a p n)) (t_router s) nid (set_status Processing row) s1"
    using claim_moves [OF assms(1,2)] by blast
  obtain rt e' where rt: "router_send (\<lambda>_ _. delivered) 0 0 n (t_router s) = (delivered, rt)"
    "provider_calls rt = provider_calls (t_router s) @ [n]"
    "entries rt (int_of_Channel (n_channel n)) = Some e'" "cb_state (e_breaker e') = Closed"
    by (rule closed_call [OF assms(5,6), where oc = delivered]) (auto simp: delivered_def)
  have "\<exists>s'. moves (t_queues s1) D s1 i (Busy ch body tag (Todo (case delivered of
      Inl ex \<Rightarrow> failure_ops ch (dp_config D) nid a p body ex | Inr res \<Rightarrow> success_ops ch nid a res)))
      rt nid (set_status Processing row) s'"
    by (rule call_moves) (use s1 rt(1) assms(5,6) in \<open>simp_all add: moves_def delivered_def\<close>)
  then obtain s2 where s2: "moves (t_queues s1) D s1 i (Busy ch body tag (Todo [Record ?rec, MarkSent nid, Increment nid, AckMessage]))
      rt nid (set_status Processing row) s2"
    by (auto simp: delivered_def success_ops_def)
  have "\<exists>s'. moves (t_queues s2) D s2 i (Busy ch body tag (Todo [MarkSent nid, Increment nid, AckMessage])) (t_router s2) nid
      (set_status Processing row) s'"
    by (rule record_moves [where att = ?rec]) (use s2 assms(3,4) in
      \<open>simp_all add: moves_def newAttempt_def DeliveryAttempt_default_def varchar_null_def varchar_def utf8_length_def\<close>)
  then obtain s3 where s3: "moves (t_queues s2) D s2 i (Busy ch body tag (Todo [MarkSent nid, Increment nid, AckMessage])) (t_router s2) nid
      (set_status Processing row) s3" by blast
  have "\<exists>s'. moves (t_queues s3) D s3 i (Busy ch body tag (Todo [Increment nid, AckMessage])) (t_router s3) nid
      (set_status Sent (set_status Processing row)) s'"
    by (rule sent_moves) (use s3 in \<open>simp_all add: moves_def\<close>)
  then obtain s4 where s4: "moves (t_queues s3) D s3 i (Busy ch body tag (Todo [Increment nid, AckMessage])) (t_router s3) nid
      (set_status Sent (set_status Processing row)) s4" by blast
  have "(tsys_step D)\<^sup>*\<^sup>* s s4"
    using s1 s2 s3 s4 unfolding moves_def by (meson rtranclp_trans)
  moreover have "set_status Sent (set_status Processing row) = set_status Sent row" by (simp add: set_status_def)
  ultimately show ?thesis
    using that [of s4 e'] s1 s2 s3 s4 rt by (auto simp: moves_def)
qed

end
