(* ===== verification/Samples.thy ===== *)
theory Samples
  imports Progress
begin

text \<open>
  Concrete runs of the interleaved system, used as witnesses: a submission up to its commit,
  its announcement, its repetition, and two workers that hold the two messages.
\<close>

section \<open>A submission, repeated, and two workers\<close>

text \<open>The same submission arrives twice; two workers take the two messages and look it up.\<close>

definition sample_start :: "(string \<Rightarrow> string list) \<Rightarrow> (nat \<Rightarrow> worker_slot) \<Rightarrow> tsys" where
  "sample_start Q W = \<lparr>t_db = sample_db, t_router = newRouter 5 30000, t_queues = Q,
     t_workers = W, t_posts = (\<lambda>_. NoPost), t_lost = []\<rparr>"

lemma sample_routes:
  "broker_op (routes sample_deployment) (Publish exchangeName (routingKey (n_channel sample_saved))
     (message (sample_body 1) (priorityWeight (n_priority sample_saved)))) Q = put (sample_body 1) (mainQueue Sms) Q"
  using route_main [OF broker_laws_simple, of Config_default Sms]
  by (simp add: sample_deployment_def message_def sample_saved_def sample_notification_def)

lemma sample_message:
  "j_dump (dp_json sample_deployment) (deliveryMessage (dp_json sample_deployment) sample_saved) = Inr (sample_body 1)"
  by (simp add: sample_deployment_def sample_body_def deliveryMessage_def chunk_dump delivery_fields_def
      sample_saved_def sample_notification_def)

lemma sample_tables: "fault_free sample_db" "pop_fault sample_db = sample_db"
  by (simp_all add: fault_free_def pop_fault_def sample_db_def db_empty_def)

lemma sample_stored_row:
  "select_by_id plain_env (n_id sample_saved) sample_db = Some (inserted_row sample_saved 0)"
  "rowToNotification (inserted_row sample_saved 0) = Inr sample_saved"
  "select_by_key plain_env (n_idempotencyKey sample_notification) sample_db = Some (inserted_row sample_saved 0)"
proof -
  show "rowToNotification (inserted_row sample_saved 0) = Inr sample_saved"
    unfolding inserted_row_def rowToNotification_newRow
    by (simp add: sample_saved_def sample_notification_def Notification_default_def)
qed (simp_all add: select_by_id_def select_by_key_def sample_db_def inserted_row_def newRow_def same_key_def
      sample_saved_def sample_notification_def)

lemma sample_transaction:
  "insertTransaction plain_env zero_draws sample_notification db_empty = (Inr sample_saved, sample_db)"
proof -
  have "findByIdempotencyKey plain_env (n_idempotencyKey sample_notification) db_empty = (Inr None, db_empty)"
    by (subst findByIdempotencyKey_none) (simp_all add: db_empty_def select_by_key_def pop_fault_def)
  then show ?thesis using sample_insert by (simp add: insertWithOutbox_def bindA_def)
qed

lemma sample_posted:
  assumes "t_db s = sample_db" "t_posts s = (\<lambda>_. NoPost)"
  shows "(tsys_step sample_deployment)\<^sup>*\<^sup>* s (s\<lparr>t_queues := put (sample_body 1) (mainQueue Sms) (t_queues s)\<rparr>)"
proof -
  let ?D = sample_deployment
  have p: "parse_submission sample_http (rq_body (sample_request ''b'')) = Inr sample_notification"
    using sample_parse [of "''b''"] sample_body_b by simp
  have "tsys_step ?D s (s\<lparr>t_posts := (t_posts s)(0 := Parsed sample_notification)\<rparr>)" (is "tsys_step ?D s ?s1")
    by (rule tsys_step.parse [where V = sample_http, OF _ _ _ p])
      (simp_all add: assms(2) sample_http_def sample_deployment_def)
  then have r1: "(tsys_step ?D)\<^sup>*\<^sup>* s ?s1" by blast
  have f: "findByIdempotencyKey (dp_db ?D) (n_idempotencyKey sample_notification) (t_db ?s1) =
      (Inr (Some sample_saved), sample_db)"
    using findByIdempotencyKey_some [OF fault_free_no_fault [OF sample_tables(1)] sample_stored_row(3,2)] sample_tables(2)
    by (simp add: assms(1) sample_deployment_def)
  have "tsys_step ?D ?s1 (?s1\<lparr>t_db := sample_db, t_posts := (t_posts ?s1)(0 := Stored sample_saved)\<rparr>)"
    (is "tsys_step ?D ?s1 ?s2")
    using tsys_step.check [OF _ f, of 0] by simp
  with r1 have r2: "(tsys_step ?D)\<^sup>*\<^sup>* s ?s2" by (rule rtranclp.rtrancl_into_rtrancl)
  have "tsys_step ?D ?s2 (?s2\<lparr>t_queues := put (sample_body 1) (mainQueue Sms) (t_queues ?s2),
      t_posts := (t_posts ?s2)(0 := NoPost)\<rparr>)" (is "tsys_step ?D ?s2 ?s3")
    using tsys_step.publish [OF _ sample_message, of ?s2 0] unfolding sample_routes by simp
  with r2 have "(tsys_step ?D)\<^sup>*\<^sup>* s ?s3" by (rule rtranclp.rtrancl_into_rtrancl)
  moreover have "?s3 = s\<lparr>t_queues := put (sample_body 1) (mainQueue Sms) (t_queues s)\<rparr>"
    by (rule tsys.equality) (auto simp: assms)
  ultimately show ?thesis by simp
qed

text \<open>The submission is stored, and its thread is about to announce it.\<close>

definition sample_committed :: tsys where
  "sample_committed = (sample_start (\<lambda>_. []) (\<lambda>_. Free))\<lparr>t_posts := (\<lambda>_. NoPost)(0 := Stored sample_saved)\<rparr>"

lemma sample_submission:
  "\<exists>s1 s2. tsys_step sample_deployment (tsys_init sample_deployment) s1 \<and>
     tsys_step sample_deployment s1 s2 \<and> tsys_step sample_deployment s2 sample_committed \<and>
     t_posts s1 = (\<lambda>_. NoPost)(0 := Parsed sample_notification) \<and>
     t_posts s2 = (\<lambda>_. NoPost)(0 := Absent sample_notification) \<and>
     t_workers s1 = (\<lambda>_. Free) \<and> t_workers s2 = (\<lambda>_. Free)"
proof -
  let ?D = sample_deployment
  let ?s0 = "tsys_init sample_deployment"
  have i: "t_posts ?s0 = (\<lambda>_. NoPost)" "t_db ?s0 = db_empty" "t_router ?s0 = newRouter 5 30000"
    "t_queues ?s0 = (\<lambda>_. [])" "t_workers ?s0 = (\<lambda>_. Free)" "t_lost ?s0 = []"
    by (simp_all add: tsys_init_def sample_deployment_def Config_default_def)
  have p: "parse_submission sample_http (rq_body (sample_request ''b'')) = Inr sample_notification"
    using sample_parse [of "''b''"] sample_body_b by simp
  have r1: "tsys_step ?D ?s0 (?s0\<lparr>t_posts := (t_posts ?s0)(0 := Parsed sample_notification)\<rparr>)" (is "tsys_step ?D _ ?s1")
    by (rule tsys_step.parse [where V = sample_http, OF _ _ _ p])
      (simp add: i, simp_all add: sample_http_def sample_deployment_def)
  have f: "findByIdempotencyKey (dp_db ?D) (n_idempotencyKey sample_notification) (t_db ?s1) = (Inr None, db_empty)"
    by (subst findByIdempotencyKey_none) (simp_all add: i db_empty_def select_by_key_def pop_fault_def)
  have r2: "tsys_step ?D ?s1 (?s1\<lparr>t_db := db_empty, t_posts := (t_posts ?s1)(0 := Absent sample_notification)\<rparr>)"
    (is "tsys_step ?D _ ?s2")
    using tsys_step.check [OF _ f, of 0] by simp
  have t: "insertTransaction (dp_db ?D) zero_draws sample_notification (t_db ?s2) = (Inr sample_saved, sample_db)"
    using sample_transaction by (simp add: sample_deployment_def)
  have "tsys_step ?D ?s2 (?s2\<lparr>t_db := sample_db, t_posts := (t_posts ?s2)(0 := Stored sample_saved)\<rparr>)"
    (is "tsys_step ?D _ ?s3")
    using tsys_step.insert [OF _ _ t, of 0] by (simp add: valid_draws_def zero_draws_def)
  moreover have "?s3 = sample_committed"
    by (rule tsys.equality) (auto simp: i sample_committed_def sample_start_def)
  ultimately show ?thesis using r1 r2 by (intro exI [of _ ?s1] exI [of _ ?s2]) (simp add: i)
qed

lemma sample_committed_reachable: "tsys_reach sample_deployment sample_committed"
  using sample_submission by (blast intro: tsys_reach.init tsys_reach.step)

lemma sample_first: "tsys_reach sample_deployment (sample_start (put (sample_body 1) (mainQueue Sms) (\<lambda>_. [])) (\<lambda>_. Free))"
proof -
  let ?D = sample_deployment and ?s = sample_committed
  have "t_posts ?s 0 = Stored sample_saved" by (simp add: sample_committed_def)
  then have "tsys_step ?D ?s (?s\<lparr>t_queues := put (sample_body 1) (mainQueue Sms) (t_queues ?s),
      t_posts := (t_posts ?s)(0 := NoPost)\<rparr>)" (is "tsys_step ?D _ ?s4")
    using tsys_step.publish [OF _ sample_message, of ?s 0] unfolding sample_routes by simp
  with sample_committed_reachable have "tsys_reach ?D ?s4" by (rule tsys_reach.step)
  moreover have "?s4 = sample_start (put (sample_body 1) (mainQueue Sms) (\<lambda>_. [])) (\<lambda>_. Free)"
    by (rule tsys.equality) (auto simp: sample_committed_def sample_start_def)
  ultimately show ?thesis by simp
qed

lemma reach_steps: "(tsys_step D)\<^sup>*\<^sup>* s s' \<Longrightarrow> tsys_reach D s \<Longrightarrow> tsys_reach D s'"
  by (induction rule: rtranclp_induct) (auto intro: tsys_reach.step)

lemma sample_claim:
  assumes "t_workers s i = Busy Sms (sample_body 1) tag Begin" "t_db s = sample_db"
  shows "(tsys_step sample_deployment)\<^sup>*\<^sup>* s
    (s\<lparr>t_workers := (t_workers s)(i := Busy Sms (sample_body 1) tag (Claim (n_id sample_saved) 1 5 sample_saved))\<rparr>)"
proof -
  let ?D = sample_deployment and ?V = "env_with sample_deployment delivered"
  let ?b = "sample_body 1" and ?nid = "n_id sample_saved"
  have "int32_range 1" by (simp add: int32_range_def)
  then have d: "decode (we_json ?V) ?b = Inr (?nid, 1, 5)"
    using decode_sample by (simp add: sample_deployment_def)
  have "handler_step ?V Sms (dp_config ?D) ?b tag Begin \<lparr>w_db = t_db s, w_router = t_router s, w_ops = []\<rparr> =
      (Lookup ?nid 1 5, \<lparr>w_db = t_db s, w_router = t_router s, w_ops = []\<rparr>)"
    by (simp add: d del: env_with_simps)
  from tsys_step.work [OF assms(1) _ _ this]
  have s1: "tsys_step ?D s (s\<lparr>t_workers := (t_workers s)(i := Busy Sms ?b tag (Lookup ?nid 1 5))\<rparr>)"
    (is "tsys_step ?D s ?s1") by simp
  have "findById plain_env ?nid sample_db = (Inr (Some sample_saved), sample_db)"
    using findById_some [OF fault_free_no_fault [OF sample_tables(1)] sample_stored_row(1,2)] sample_tables(2) by simp
  then have "on_db (findById (dp_db ?D) ?nid) \<lparr>w_db = t_db ?s1, w_router = t_router ?s1, w_ops = []\<rparr> =
      (Inr (Some sample_saved), \<lparr>w_db = t_db ?s1, w_router = t_router ?s1, w_ops = []\<rparr>)"
    by (simp add: on_db_def zoomA_def assms(2) sample_deployment_def)
  moreover have "n_status sample_saved = Pending"
    by (simp add: sample_saved_def sample_notification_def Notification_default_def)
  ultimately have "handler_step ?V Sms (dp_config ?D) ?b tag (Lookup ?nid 1 5)
        \<lparr>w_db = t_db ?s1, w_router = t_router ?s1, w_ops = []\<rparr> =
      (Claim ?nid 1 5 sample_saved, \<lparr>w_db = t_db ?s1, w_router = t_router ?s1, w_ops = []\<rparr>)"
    by simp
  from tsys_step.work [OF _ _ _ this, of i]
  have "tsys_step ?D ?s1 (?s1\<lparr>t_workers := (t_workers ?s1)(i := Busy Sms ?b tag (Claim ?nid 1 5 sample_saved))\<rparr>)"
    by simp
  then have "(tsys_step ?D)\<^sup>*\<^sup>* s (?s1\<lparr>t_workers := (t_workers ?s1)(i := Busy Sms ?b tag (Claim ?nid 1 5 sample_saved))\<rparr>)"
    using s1 by (meson rtranclp.rtrancl_into_rtrancl rtranclp.rtrancl_refl)
  then show ?thesis by simp
qed

text \<open>Two messages about the stored notification, each with a worker that has looked it up.\<close>

definition sample_race :: tsys where
  "sample_race = sample_start (\<lambda>_. []) ((\<lambda>_. Free)
     (0 := Busy Sms (sample_body 1) 1 (Claim (n_id sample_saved) 1 5 sample_saved),
      1 := Busy Sms (sample_body 1) 2 (Claim (n_id sample_saved) 1 5 sample_saved)))"

lemma sample_race_reachable: "tsys_reach sample_deployment sample_race"
proof -
  let ?D = sample_deployment and ?b = "sample_body 1" and ?q = "mainQueue Sms"
  let ?c = "Claim (n_id sample_saved) 1 5 sample_saved"
  let ?Q1 = "put ?b ?q (\<lambda>_. [])" let ?Q2 = "put ?b ?q ?Q1"
  have r1: "tsys_reach ?D (sample_start ?Q2 (\<lambda>_. Free))"
    using reach_steps [OF sample_posted sample_first] by (simp add: sample_start_def)
  have q: "?Q2(?q := [] @ [?b]) = ?Q1" "?Q1(?q := [] @ []) = (\<lambda>_. [])"
    by (auto simp: put_def)
  have t1: "tsys_step ?D (sample_start ?Q2 (\<lambda>_. Free)) (sample_start ?Q1 ((\<lambda>_. Free)(0 := Busy Sms ?b 1 Begin)))"
    using tsys_step.take_message [of "sample_start ?Q2 (\<lambda>_. Free)" Sms "[]" ?b "[?b]" 0 ?D 1]
    unfolding sample_start_def by (simp only: tsys.simps q fun_upd_apply) (simp add: put_def)
  let ?W1 = "(\<lambda>_::nat. Free)(0 := Busy Sms ?b 1 Begin)"
  have t2: "tsys_step ?D (sample_start ?Q1 ?W1) (sample_start (\<lambda>_. []) (?W1(1 := Busy Sms ?b 2 Begin)))"
    using tsys_step.take_message [of "sample_start ?Q1 ?W1" Sms "[]" ?b "[]" 1 ?D 2]
    unfolding sample_start_def by (simp only: tsys.simps q fun_upd_apply) (simp add: put_def)
  let ?W2 = "?W1(1 := Busy Sms ?b 2 Begin)"
  have r2: "tsys_reach ?D (sample_start (\<lambda>_. []) ?W2)"
    by (rule tsys_reach.step [OF tsys_reach.step [OF r1 t1] t2])
  have c1: "(tsys_step ?D)\<^sup>*\<^sup>* (sample_start (\<lambda>_. []) ?W2) (sample_start (\<lambda>_. []) (?W2(0 := Busy Sms ?b 1 ?c)))"
    using sample_claim [of "sample_start (\<lambda>_. []) ?W2" 0 1] by (simp add: sample_start_def)
  let ?W3 = "?W2(0 := Busy Sms ?b 1 ?c)"
  have c2: "(tsys_step ?D)\<^sup>*\<^sup>* (sample_start (\<lambda>_. []) ?W3) (sample_start (\<lambda>_. []) (?W3(1 := Busy Sms ?b 2 ?c)))"
    using sample_claim [of "sample_start (\<lambda>_. []) ?W3" 1 2] by (simp add: sample_start_def)
  have "?W3(1 := Busy Sms ?b 2 ?c) = (\<lambda>_. Free)(0 := Busy Sms ?b 1 ?c, 1 := Busy Sms ?b 2 ?c)" by auto
  then show ?thesis
    unfolding sample_race_def using reach_steps [OF c2 reach_steps [OF c1 r2]] by simp
qed

end
