(* ===== verification/Races.thy ===== *)
theory Races
  imports Samples
begin

text \<open>
  What two workers holding messages about the same notification can do to each other. Such
  messages arise whenever a submission is repeated with its idempotency key (each repetition
  publishes a delivery message) and after redeliveries.
\<close>

section \<open>The race\<close>

definition refused :: "exn + ProviderResult" where
  "refused = Inl (ProviderException ''rejected'' False)"

text \<open>Another one is refused by the provider for good and dead-letters it.\<close>

lemma worker_dead_letters:
  assumes "t_workers s i = Busy ch body tag (Claim nid a p n)" "calm D nid row s"
    and "0 \<le> a" "a \<le> int uint32_max" "r_attempt_count row < uint32_max"
    and "entries (t_router s) (int_of_Channel (n_channel n)) = Some e" "cb_state (e_breaker e) = Closed"
  obtains s' where "(tsys_step D)\<^sup>*\<^sup>* s s'" "calm D nid (set_status DeadLettered (bump_count row)) s'"
    "provider_calls (t_router s') = provider_calls (t_router s) @ [n]"
proof -
  let ?rec = "(newAttempt ch nid a)\<lparr>a_status := PermanentFailure, a_errorMessage := Some ''rejected''\<rparr>"
  let ?row = "set_status Processing row"
  obtain s1 where s1: "moves (t_queues s) D s i (Busy ch body tag (Calling nid a p n)) (t_router s) nid ?row s1"
    using claim_moves [OF assms(1,2)] by blast
  obtain rt e' where rt: "router_send (\<lambda>_ _. refused) 0 0 n (t_router s) = (refused, rt)"
    "provider_calls rt = provider_calls (t_router s) @ [n]"
    by (rule closed_call [OF assms(6,7), where oc = refused]) (auto simp: refused_def)
  have "\<exists>s'. moves (t_queues s1) D s1 i (Busy ch body tag (Todo (case refused of
      Inl ex \<Rightarrow> failure_ops ch (dp_config D) nid a p body ex | Inr res \<Rightarrow> success_ops ch nid a res)))
      rt nid ?row s'"
    by (rule call_moves) (use s1 rt(1) assms(6,7) in \<open>simp_all add: moves_def refused_def\<close>)
  then obtain s2 where s2: "moves (t_queues s1) D s1 i (Busy ch body tag (Todo [Increment nid, Record ?rec, PublishDlq body,
      MarkDeadLettered nid, AckMessage])) rt nid ?row s2"
    by (auto simp: refused_def failure_ops_def)
  have "\<exists>s'. moves (t_queues s2) D s2 i (Busy ch body tag (Todo [Record ?rec, PublishDlq body, MarkDeadLettered nid, AckMessage]))
      (t_router s2) nid (bump_count ?row) s'"
    by (rule increment_moves) (use s2 assms(5) in \<open>simp_all add: moves_def set_status_def\<close>)
  then obtain s3 where s3: "moves (t_queues s2) D s2 i (Busy ch body tag (Todo [Record ?rec, PublishDlq body, MarkDeadLettered nid,
      AckMessage])) (t_router s2) nid (bump_count ?row) s3" by blast
  have "\<exists>s'. moves (t_queues s3) D s3 i (Busy ch body tag (Todo [PublishDlq body, MarkDeadLettered nid, AckMessage])) (t_router s3)
      nid (bump_count ?row) s'"
    by (rule record_moves [where att = ?rec]) (use s3 assms(3,4) in
      \<open>simp_all add: moves_def newAttempt_def DeliveryAttempt_default_def varchar_null_def varchar_def utf8_length_def\<close>)
  then obtain s4 where s4: "moves (t_queues s3) D s3 i (Busy ch body tag (Todo [PublishDlq body, MarkDeadLettered nid, AckMessage]))
      (t_router s3) nid (bump_count ?row) s4" by blast
  have "\<exists>s'. moves (broker_ops (routes D) [Publish [] (dlq ch) (dlq_message body)] (t_queues s4)) D s4 i
      (Busy ch body tag (Todo [MarkDeadLettered nid, AckMessage])) (t_router s4) nid (bump_count ?row) s'"
    by (rule dlq_moves) (use s4 in \<open>simp_all add: moves_def\<close>)
  then obtain s5 Q where s5: "moves Q D s4 i (Busy ch body tag (Todo [MarkDeadLettered nid, AckMessage]))
      (t_router s4) nid (bump_count ?row) s5" by blast
  have "\<exists>s'. moves (t_queues s5) D s5 i (Busy ch body tag (Todo [AckMessage])) (t_router s5)
      nid (set_status DeadLettered (bump_count ?row)) s'"
    by (rule dead_moves) (use s5 in \<open>simp_all add: moves_def\<close>)
  then obtain s6 where s6: "moves (t_queues s5) D s5 i (Busy ch body tag (Todo [AckMessage])) (t_router s5)
      nid (set_status DeadLettered (bump_count ?row)) s6" by blast
  have "(tsys_step D)\<^sup>*\<^sup>* s s6"
    using s1 s2 s3 s4 s5 s6 unfolding moves_def by (meson rtranclp_trans)
  moreover have "set_status DeadLettered (bump_count ?row) = set_status DeadLettered (bump_count row)"
    by (simp add: set_status_def bump_count_def)
  ultimately show ?thesis
    using that [of s6] s1 s2 s3 s4 s5 s6 rt by (auto simp: moves_def)
qed

section \<open>Late reports\<close>

text \<open>
  Another race: a request admitted, and even answered, before its channel's breaker tripped may
  be reported after.
  Its success closes the breaker at once, however recently it has opened, and the next request
  of another worker, which would have failed fast, goes through to the provider.
\<close>

lemma late_success_closes:
  assumes i: "t_workers s i = Busy ch body tag (Reporting nid a p n (Inr result))" and "i \<noteq> j"
    and j: "t_workers s j = Busy ch' body' tag' (Calling nid' a' p' n')" and same: "n_channel n' = n_channel n"
    and e: "entries (t_router s) (int_of_Channel (n_channel n)) = Some e"
    and hot: "cb_state (e_breaker e) = Open" "\<not> cooled_down t (e_breaker e)"
  shows "fst (router_admit t n' (t_router s)) = Inl (circuit_open (n_channel n))"
    and "\<exists>s1 s2. tsys_step D s s1 \<and> cb_state (breaker_of (t_router s1) (n_channel n)) = Closed \<and>
      tsys_step D s1 s2 \<and> t_workers s2 j = Busy ch' body' tag' (Sending nid' a' p' n')"
proof -
  show "fst (router_admit t n' (t_router s)) = Inl (circuit_open (n_channel n))"
    using e hot by (simp add: router_admit_def same allowRequest_hot circuit_open_def)
  let ?r1 = "(t_router s)\<lparr>entries := (entries (t_router s))(int_of_Channel (n_channel n) \<mapsto> e\<lparr>e_breaker := onSuccess (e_breaker e)\<rparr>)\<rparr>"
  let ?ops = "success_ops ch nid a result"
  let ?s1 = "s\<lparr>t_router := ?r1, t_workers := (t_workers s)(i := Busy ch body tag (Todo ?ops))\<rparr>"
  have c: "router_report 0 n (Inr result) (t_router s) = (Inr result, ?r1)"
    using e by (simp add: router_report_def report_def Let_def)
  have "handler_step (env_with D delivered) ch (dp_config D) body tag (Reporting nid a p n (Inr result)) (world_of s) =
      (Todo ?ops, \<lparr>w_db = t_db s, w_router = ?r1, w_ops = []\<rparr>)"
    using on_router_eq [of "router_report 0 n (Inr result)" "world_of s"] c by (simp add: world_of_def)
  from tsys_step.work [OF i _ _ this [unfolded world_of_def]]
  have s1: "tsys_step D s ?s1" by simp
  have e1: "entries ?r1 (int_of_Channel (n_channel n')) = Some (e\<lparr>e_breaker := onSuccess (e_breaker e)\<rparr>)"
    by (simp add: same)
  have "router_admit 0 n' ?r1 = (Inr (), ?r1)"
    by (rule router_admit_closed [OF e1]) (simp add: onSuccess_def)
  then have "handler_step (env_with D delivered) ch' (dp_config D) body' tag' (Calling nid' a' p' n') (world_of ?s1) =
      (Sending nid' a' p' n', \<lparr>w_db = t_db ?s1, w_router = ?r1, w_ops = []\<rparr>)"
    using on_router_eq [of "router_admit 0 n'" "world_of ?s1"] by (simp add: world_of_def)
  moreover have "t_workers ?s1 j = Busy ch' body' tag' (Calling nid' a' p' n')" using j \<open>i \<noteq> j\<close> by simp
  ultimately obtain s2 where "tsys_step D ?s1 s2" "t_workers s2 j = Busy ch' body' tag' (Sending nid' a' p' n')"
    using tsys_step.work [of ?s1 j ch' body' tag' _ "env_with D delivered" D] by (fastforce simp: world_of_def)
  moreover have "cb_state (breaker_of (t_router ?s1) (n_channel n)) = Closed"
    by (simp add: breaker_of_def onSuccess_def)
  ultimately show "\<exists>s1 s2. tsys_step D s s1 \<and> cb_state (breaker_of (t_router s1) (n_channel n)) = Closed \<and>
      tsys_step D s1 s2 \<and> t_workers s2 j = Busy ch' body' tag' (Sending nid' a' p' n')"
    using s1 by blast
qed

section \<open>Properties\<close>

text \<open>C1: no accepted notification is lost under full interleaving. Workers and HTTP threads
  take turns at every statement, provider call and channel operation, and any of them may die
  at any point. In every reachable state the schema invariant holds, and every stored
  notification is SENT, or has a message on its way to a worker, or is in the hands of a
  worker that still answers for it (and whose death returns the message), or is
  DEAD_LETTERED with its message in the dead-letter queue, or is PENDING with its first
  announcement still to be published by the HTTP thread that stored it or lost by the death of
  such a thread; in every case exactly its outbox event is stored beside it.\<close>

theorem interleaved_no_loss:
  assumes "deployable D" "tsys_reach D s" "row \<in> set (notifications (t_db s))"
  shows "schema_inv (dp_db D) (t_db s) \<and>
    (r_status row = ''SENT'' \<or> waiting D (t_queues s) row \<or> answered D (t_workers s) row \<or>
      (r_status row = ''DEAD_LETTERED'' \<and> parked D (t_queues s) row) \<or>
      (r_status row = ''PENDING'' \<and> unannounced (t_posts s) (t_lost s) row)) \<and>
    (\<exists>e. filter (\<lambda>e. o_notification_id e = r_id row) (outbox_events (t_db s)) = [e] \<and>
      o_event_type e = ''NOTIFICATION_CREATED'' \<and> o_status e = ''PENDING'')"
proof -
  have inv: "tsys_inv D s" by (rule tsys_inv_reach [OF assms(2,1)])
  then have core: "core_inv D s" by (simp add: tsys_inv_def)
  show ?thesis
    using outbox_single [OF core_invD(1) [OF core] assms(3)] core_invD(1) [OF core] inv assms(3)
    by (auto simp: tsys_inv_def trow_ok_def)
qed

theorem interleaved_no_loss_witness:
  "answered sample_deployment (t_workers sample_race) (inserted_row sample_saved 0)"
proof -
  have m: "inserted_row sample_saved 0 \<in> set (notifications (t_db sample_race))"
    by (simp add: sample_race_def sample_start_def sample_db_def)
  have "r_status (inserted_row sample_saved 0) = ''PENDING''"
    and "\<not> waiting sample_deployment (t_queues sample_race) (inserted_row sample_saved 0)"
    and "\<not> unannounced (t_posts sample_race) (t_lost sample_race) (inserted_row sample_saved 0)"
    by (simp_all add: inserted_row_def newRow_def waiting_def unannounced_def sample_race_def sample_start_def)
  with interleaved_no_loss [OF deployable_sample sample_race_reachable m] show ?thesis by simp
qed

text \<open>C11: SENT is not final. Whenever two workers hold messages about the same notification
  and both have read it as deliverable, there is a continuation, without any failure of the
  database, in which the first delivers it and marks it SENT, the second then delivers it
  again, is refused by the provider, and marks it DEAD_LETTERED: the check of the status and
  the updates are separate statements. The provider has been called twice.\<close>

theorem concurrent_delivery_undoes_sent:
  assumes "i \<noteq> j" "t_workers s i = Busy ch body tag (Claim nid a p n)"
    and "t_workers s j = Busy ch' body' tag' (Claim nid a' p' n)"
    and "calm D nid row s" "r_attempt_count row < uint32_max"
    and "0 \<le> a" "a \<le> int uint32_max" "0 \<le> a'" "a' \<le> int uint32_max"
    and "entries (t_router s) (int_of_Channel (n_channel n)) = Some e" "cb_state (e_breaker e) = Closed"
  shows "\<exists>s1 s2. (tsys_step D)\<^sup>*\<^sup>* s s1 \<and> (tsys_step D)\<^sup>*\<^sup>* s1 s2 \<and>
    select_by_id (dp_db D) nid (t_db s1) = Some (row\<lparr>r_status := ''SENT''\<rparr>) \<and>
    select_by_id (dp_db D) nid (t_db s2) =
      Some (row\<lparr>r_status := ''DEAD_LETTERED'', r_attempt_count := r_attempt_count row + 1\<rparr>) \<and>
    provider_calls (t_router s2) = provider_calls (t_router s) @ [n, n]"
proof -
  obtain s1 e1 where s1: "(tsys_step D)\<^sup>*\<^sup>* s s1" "calm D nid (set_status Sent row) s1"
    "t_workers s1 = (t_workers s)(i := Busy ch body tag (Todo [Increment nid, AckMessage]))"
    "provider_calls (t_router s1) = provider_calls (t_router s) @ [n]"
    "entries (t_router s1) (int_of_Channel (n_channel n)) = Some e1" "cb_state (e_breaker e1) = Closed"
    by (rule worker_delivers [OF assms(2,4,6,7,10,11)]) (rule that, assumption+)
  have "t_workers s1 j = Busy ch' body' tag' (Claim nid a' p' n)" using s1(3) assms(1,3) by simp
  moreover have "r_attempt_count (set_status Sent row) < uint32_max" using assms(5) by (simp add: set_status_def)
  ultimately obtain s2 where "(tsys_step D)\<^sup>*\<^sup>* s1 s2"
    "calm D nid (set_status DeadLettered (bump_count (set_status Sent row))) s2"
    "provider_calls (t_router s2) = provider_calls (t_router s1) @ [n]"
    using worker_dead_letters [OF _ s1(2) assms(8,9) _ s1(5,6)] by blast
  with s1 show ?thesis
    by (intro exI [of _ s1] exI [of _ s2]) (simp add: calm_def set_status_def bump_count_def)
qed

theorem concurrent_delivery_undoes_sent_witness:
  "\<exists>s s1 s2. tsys_reach sample_deployment s \<and> (tsys_step sample_deployment)\<^sup>*\<^sup>* s s1 \<and>
     (tsys_step sample_deployment)\<^sup>*\<^sup>* s1 s2 \<and>
     (\<exists>r1 r2. select_by_id plain_env (n_id sample_saved) (t_db s1) = Some r1 \<and> r_status r1 = ''SENT'' \<and>
        select_by_id plain_env (n_id sample_saved) (t_db s2) = Some r2 \<and> r_status r2 = ''DEAD_LETTERED'')"
proof -
  have c: "calm sample_deployment (n_id sample_saved) (inserted_row sample_saved 0) sample_race"
    using schema_inv_sample sample_tables(1) sample_stored_row(1)
    by (simp add: calm_def sample_race_def sample_start_def sample_deployment_def)
  have n: "r_attempt_count (inserted_row sample_saved 0) < uint32_max"
    by (simp add: inserted_row_def newRow_def uint32_max_def)
  have e: "entries (t_router sample_race) (int_of_Channel (n_channel sample_saved)) =
      Some \<lparr>e_provider = MockSmsProvider, e_breaker = newBreaker 5 30000\<rparr>"
    using newRouter_entries [of 5 30000 Sms]
    by (simp add: sample_race_def sample_start_def sample_saved_def sample_notification_def)
  have w: "t_workers sample_race 0 = Busy Sms (sample_body 1) 1 (Claim (n_id sample_saved) 1 5 sample_saved)"
    "t_workers sample_race 1 = Busy Sms (sample_body 1) 2 (Claim (n_id sample_saved) 1 5 sample_saved)"
    by (simp_all add: sample_race_def sample_start_def)
  have "(0::nat) \<noteq> 1" "(0::int) \<le> 1" "1 \<le> int uint32_max" by (simp_all add: uint32_max_def)
  note concurrent_delivery_undoes_sent [OF this(1) w c n this(2,3) this(2,3) e]
  then obtain s1 s2 where r: "(tsys_step sample_deployment)\<^sup>*\<^sup>* sample_race s1" "(tsys_step sample_deployment)\<^sup>*\<^sup>* s1 s2"
    "\<exists>r1. select_by_id plain_env (n_id sample_saved) (t_db s1) = Some r1 \<and> r_status r1 = ''SENT''"
    "\<exists>r2. select_by_id plain_env (n_id sample_saved) (t_db s2) = Some r2 \<and> r_status r2 = ''DEAD_LETTERED''"
    by (auto simp: newBreaker_def sample_deployment_def)
  then show ?thesis using sample_race_reachable by blast
qed

end
