(* ===== verification/Recovery.thy ===== *)
theory Recovery
  imports Races
begin

text \<open>
  No dead ends: from every reachable state of the interleaved system a notification that has a
  message on its way, or is in the hands of a worker, can still be delivered, whatever has
  happened before: threads stuck in the middle of handlers or dead from exceptions, breakers
  open or wedged, messages parked on the ladder, statements about to fail.
\<close>

section \<open>Getting ready\<close>

lemma core_reach: "deployable D \<Longrightarrow> core_inv D s \<Longrightarrow> (tsys_step D)\<^sup>*\<^sup>* s s' \<Longrightarrow> core_inv D s'"
  by (erule rtranclp_induct) (auto dest: accounts_step simp: accounts_def)

text \<open>A message on a rung of the ladder expires and is then in the main queue.\<close>

lemma waiting_to_main:
  assumes dep: "deployable D" and w: "waiting D (t_queues s) row"
  shows "\<exists>s' ch body a p. (tsys_step D)\<^sup>*\<^sup>* s s' \<and> r_channel row = toString_Channel ch \<and>
    body \<in> set (t_queues s' (mainQueue ch)) \<and> decode (dp_json D) body = Inr (r_id row, a, p) \<and>
    t_db s' = t_db s \<and> t_workers s' = t_workers s"
proof -
  obtain ch q body a p where b: "r_channel row = toString_Channel ch" "live D ch q" "body \<in> set (t_queues s q)"
    "decode (dp_json D) body = Inr (r_id row, a, p)"
    using w unfolding waiting_def by blast
  show ?thesis
  proof (cases "q = mainQueue ch")
    case True
    then show ?thesis using b by blast
  next
    case False
    then obtain n where n: "1 \<le> n" "n \<le> int (length (retryDelaysMs (dp_config D)))" "q = retryQueue ch n"
      using b(2) unfolding live_def by blast
    note args = rung_args [OF n(1,2), of ch]
    obtain xs ys where q: "t_queues s q = xs @ body # ys" using b(3) by (meson split_list)
    let ?s = "s\<lparr>t_queues := broker_op (routes D) (Publish exchangeName (routingKey ch) (newEnvelope body))
      ((t_queues s)(q := xs @ ys))\<rparr>"
    have "tsys_step D s ?s"
      by (rule tsys_step.expire [OF q]) (use args n(3) in simp_all)
    moreover have "broker_laws (dp_route D)" using dep by (simp add: deployable_def)
    then have "body \<in> set (t_queues ?s (mainQueue ch))"
      using route_queue(3) [of D ch] by (simp add: newEnvelope_def put_def)
    ultimately show ?thesis using b(1,4) by (intro exI [of _ ?s] exI conjI) auto
  qed
qed

text \<open>A worker that answers dies, and its message is back in the queue.\<close>

lemma answered_to_waiting:
  assumes "answered D (t_workers s) row"
  shows "\<exists>s'. (tsys_step D)\<^sup>*\<^sup>* s s' \<and> waiting D (t_queues s') row \<and> t_db s' = t_db s"
proof -
  obtain i ch body tag pc a p where w: "t_workers s i = Busy ch body tag pc" "r_channel row = toString_Channel ch"
    "decode (dp_json D) body = Inr (r_id row, a, p)"
    using assms unfolding answered_def by blast
  have "waiting D ((t_queues s)(mainQueue ch := body # t_queues s (mainQueue ch))) row"
    by (rule waitingI [where q = "mainQueue ch", OF w(2) _ _ w(3)]) simp_all
  with r_into_rtranclp [where r = "tsys_step D", OF tsys_step.worker_dies [OF w(1)]] show ?thesis by fastforce
qed

text \<open>Worker 0 is made free; the message of an earlier job returns to its queue.\<close>

lemma worker_freed:
  "\<exists>s'. (tsys_step D)\<^sup>*\<^sup>* s s' \<and> t_workers s' 0 = Free \<and> t_db s' = t_db s \<and>
     (\<forall>q. set (t_queues s q) \<subseteq> set (t_queues s' q))"
proof (cases "t_workers s 0")
  case Free
  then show ?thesis by blast
next
  case (Busy ch body tag pc)
  let ?s = "s\<lparr>t_queues := (t_queues s)(mainQueue ch := body # t_queues s (mainQueue ch)),
    t_workers := (t_workers s)(0 := Free)\<rparr>"
  have "(tsys_step D)\<^sup>*\<^sup>* s ?s" by (rule r_into_rtranclp) (rule tsys_step.worker_dies [OF Busy])
  then show ?thesis by (intro exI [of _ ?s]) auto
qed

text \<open>The process has been restarted and the database answers again.\<close>

definition refreshed :: "'j deployment \<Rightarrow> tsys \<Rightarrow> tsys" where
  "refreshed D s = s\<lparr>t_router := newRouter (cbFailureThreshold (dp_config D)) (cbOpenDurationMs (dp_config D)),
     t_db := (t_db s)\<lparr>db_faults := [], db_now := 0\<rparr>\<rparr>"

lemma refreshes: "(tsys_step D)\<^sup>*\<^sup>* s (refreshed D s)"
proof -
  have "tsys_step D s (s\<lparr>t_router := newRouter (cbFailureThreshold (dp_config D)) (cbOpenDurationMs (dp_config D))\<rparr>)"
    (is "tsys_step D s ?s1") by (rule tsys_step.new_router)
  moreover have "tsys_step D ?s1 (?s1\<lparr>t_db := (t_db ?s1)\<lparr>db_faults := [], db_now := 0\<rparr>\<rparr>)"
    by (rule tsys_step.environment)
  moreover have "?s1\<lparr>t_db := (t_db ?s1)\<lparr>db_faults := [], db_now := 0\<rparr>\<rparr> = refreshed D s"
    by (simp add: refreshed_def)
  ultimately show ?thesis by (metis r_into_rtranclp rtranclp.rtrancl_into_rtrancl)
qed

section \<open>From a message to the claim\<close>

lemma begin_claims:
  assumes w: "t_workers s i = Busy ch body tag Begin" and c: "calm D nid row s"
    and d: "decode (dp_json D) body = Inr (nid, a, p)" and n: "rowToNotification row = Inr n"
    and st: "n_status n \<noteq> Cancelled" "n_status n \<noteq> Sent"
  shows "\<exists>s'. moves (t_queues s) D s i (Busy ch body tag (Claim nid a p n)) (t_router s) nid row s'"
proof -
  let ?V = "env_with D (Inl (MysqlError []))"
  note cs = calmD [OF c]
  have "handler_step ?V ch (dp_config D) body tag Begin (world_of s) =
      (Lookup nid a p, \<lparr>w_db = t_db s, w_router = t_router s, w_ops = []\<rparr>)"
    using d by (simp add: world_of_def)
  from movesI [OF w this, of nid row] cs obtain s1
    where s1: "moves (t_queues s) D s i (Busy ch body tag (Lookup nid a p)) (t_router s) nid row s1" by auto
  then have w1: "t_workers s1 i = Busy ch body tag (Lookup nid a p)" "t_router s1 = t_router s" "calm D nid row s1"
    by (simp_all add: moves_def)
  note cs1 = calmD [OF w1(3)]
  have "on_db (findById (dp_db D) nid) (world_of s1) =
      (Inr (Some n), (world_of s1)\<lparr>w_db := pop_fault (t_db s1)\<rparr>)"
    by (rule on_db_world) (rule findById_some [OF cs1(3,4) n])
  then have "handler_step ?V ch (dp_config D) body tag (Lookup nid a p) (world_of s1) =
      (Claim nid a p n, \<lparr>w_db = pop_fault (t_db s1), w_router = t_router s1, w_ops = []\<rparr>)"
    using st by (simp add: world_of_def)
  from movesI [OF w1(1) this, of nid row] cs1
  obtain s2 where "moves (t_queues s1) D s1 i (Busy ch body tag (Claim nid a p n)) (t_router s1) nid row s2"
    using select_by_id_same [of "pop_fault (t_db s1)" "t_db s1"] by auto
  with s1 show ?thesis by (auto simp: moves_def intro: rtranclp_trans)
qed

section \<open>Delivering it\<close>

text \<open>A free worker takes a message of a main queue and claims its notification, the process
  having been restarted and the database answering.\<close>

lemma main_to_claim:
  assumes dep: "deployable D" and core: "core_inv D s" and row: "row \<in> set (notifications (t_db s))"
    and st: "r_status row \<in> {''PENDING'', ''PROCESSING'', ''DEAD_LETTERED''}"
    and m: "r_channel row = toString_Channel ch" "body \<in> set (t_queues s (mainQueue ch))"
      "decode (dp_json D) body = Inr (r_id row, a, p)"
    and w: "t_workers s 0 = Free"
  shows "\<exists>s' n. (tsys_step D)\<^sup>*\<^sup>* s s' \<and> t_workers s' 0 = Busy ch body 0 (Claim (r_id row) a p n) \<and>
    calm D (r_id row) row s' \<and> n_id n = r_id row \<and>
    t_router s' = newRouter (cbFailureThreshold (dp_config D)) (cbOpenDurationMs (dp_config D))"
proof -
  let ?nid = "r_id row"
  obtain xs ys where q: "t_queues s (mainQueue ch) = xs @ body # ys" using m(2) by (meson split_list)
  let ?s1 = "s\<lparr>t_queues := (t_queues s)(mainQueue ch := xs @ ys),
      t_workers := (t_workers s)(0 := Busy ch body 0 Begin)\<rparr>"
  let ?s2 = "refreshed D ?s1"
  have "tsys_step D s ?s1" by (rule tsys_step.take_message [OF q w])
  then have r2: "(tsys_step D)\<^sup>*\<^sup>* s ?s2" using refreshes by (rule converse_rtranclp_into_rtranclp)
  have rf: "t_workers ?s2 0 = Busy ch body 0 Begin" "notifications (t_db ?s2) = notifications (t_db s)"
    "t_router ?s2 = newRouter (cbFailureThreshold (dp_config D)) (cbOpenDurationMs (dp_config D))"
    by (simp_all add: refreshed_def)
  have sch: "schema_inv (dp_db D) (t_db ?s2)" by (rule core_invD(1) [OF core_reach [OF dep core r2]])
  have "select_by_id (dp_db D) ?nid (t_db ?s2) = Some row"
    by (rule select_by_id_unique [OF key_inv_schema [OF sch]]) (simp_all add: rf(2) row)
  then have calm: "calm D ?nid row ?s2" using sch by (simp add: calm_def) (simp add: refreshed_def fault_free_def)
  obtain n where n: "rowToNotification row = Inr n" using rowToNotification_channel [OF m(1)] by blast
  have "n_status n \<noteq> Cancelled" "n_status n \<noteq> Sent"
    using rowToNotification_fields(4) [OF n] st by (auto simp: statusFromString_def)
  from begin_claims [OF rf(1) calm m(3) n this] obtain s3
    where "moves (t_queues ?s2) D ?s2 0 (Busy ch body 0 (Claim ?nid a p n)) (t_router ?s2) ?nid row s3" by blast
  with r2 rf(3) rowToNotification_fields(1) [OF n] show ?thesis
    by (intro exI [of _ s3] exI [of _ n]) (auto simp: moves_def intro: rtranclp_trans)
qed

lemma main_to_sent:
  assumes dep: "deployable D" and core: "core_inv D s" and row: "row \<in> set (notifications (t_db s))"
    and st: "r_status row \<in> {''PENDING'', ''PROCESSING'', ''DEAD_LETTERED''}"
    and m: "r_channel row = toString_Channel ch" "body \<in> set (t_queues s (mainQueue ch))"
      "decode (dp_json D) body = Inr (r_id row, a, p)"
    and w: "t_workers s 0 = Free"
  shows "\<exists>s' row' n. (tsys_step D)\<^sup>*\<^sup>* s s' \<and> row' \<in> set (notifications (t_db s')) \<and>
    r_id row' = r_id row \<and> r_status row' = ''SENT'' \<and> provider_calls (t_router s') = [n] \<and> n_id n = r_id row"
proof -
  obtain s3 n where s3: "(tsys_step D)\<^sup>*\<^sup>* s s3" "t_workers s3 0 = Busy ch body 0 (Claim (r_id row) a p n)"
    "calm D (r_id row) row s3" "n_id n = r_id row"
    "t_router s3 = newRouter (cbFailureThreshold (dp_config D)) (cbOpenDurationMs (dp_config D))"
    using main_to_claim [OF assms] by blast
  note e3 = newRouter_entries [of "cbFailureThreshold (dp_config D)" "cbOpenDurationMs (dp_config D)" "n_channel n",
    folded s3(5)]
  have "good_msg D (t_db s) ch body"
    by (rule queues_goodD [OF core_invD(3) [OF core], of ch "mainQueue ch"]) (use m(2) in simp_all)
  then have "1 \<le> a" "a \<le> max 1 (maxRetries (dp_config D) + 1)" using m(3) by (auto simp: good_msg_def)
  then have a: "0 \<le> a" "a \<le> int uint32_max"
    using dep by (auto simp: deployable_def int32_range_def uint32_max_def)
  obtain s4 where s4: "(tsys_step D)\<^sup>*\<^sup>* s3 s4" "calm D (r_id row) (set_status Sent row) s4"
    "provider_calls (t_router s4) = provider_calls (t_router s3) @ [n]"
    by (rule worker_delivers [OF s3(2,3) a e3]) (simp add: newBreaker_def, rule that)
  have "set_status Sent row \<in> set (notifications (t_db s4))"
    using calmD(4) [OF s4(2)] select_by_id_SomeD by blast
  moreover have "provider_calls (t_router s4) = [n]"
    using s4(3) s3(5) by (simp add: newRouter_def Let_def)
  moreover have "(tsys_step D)\<^sup>*\<^sup>* s s4" using s3(1) s4(1) by (rule rtranclp_trans)
  ultimately show ?thesis
    using s3(4) by (intro exI [of _ s4] exI [of _ "set_status Sent row"] exI [of _ n]) (simp add: set_status_def)
qed

text \<open>C3: there are no dead ends. Whenever, in any reachable state, a notification has a message
  waiting in its channel's main queue or on a rung of the ladder, or a worker answers for it,
  there is a continuation in which it is SENT; unless it already is, that continuation calls
  its provider for this notification, once. It may take the death of stuck threads, a restart
  of the process (a wedged breaker has no other way out) and a database that answers, all of
  which the system allows in every state.\<close>

theorem announced_recovers:
  assumes "deployable D" "tsys_reach D s" "row \<in> set (notifications (t_db s))"
    and "waiting D (t_queues s) row \<or> answered D (t_workers s) row"
  shows "\<exists>s' row'. (tsys_step D)\<^sup>*\<^sup>* s s' \<and> row' \<in> set (notifications (t_db s')) \<and>
    r_id row' = r_id row \<and> r_status row' = ''SENT'' \<and>
    (r_status row \<noteq> ''SENT'' \<longrightarrow> (\<exists>n. provider_calls (t_router s') = [n] \<and> n_id n = r_id row))"
proof (cases "r_status row = ''SENT''")
  case True
  then show ?thesis using assms(3) by blast
next
  case False
  have inv: "tsys_inv D s" by (rule tsys_inv_reach [OF assms(2,1)])
  then have st: "r_status row \<in> {''PENDING'', ''PROCESSING'', ''DEAD_LETTERED''}"
    using assms(3) False by (auto simp: tsys_inv_def trow_ok_def)
  obtain s1 where s1: "(tsys_step D)\<^sup>*\<^sup>* s s1" "waiting D (t_queues s1) row" "t_db s1 = t_db s"
    using assms(4) answered_to_waiting by blast
  obtain s2 ch body a p where s2: "(tsys_step D)\<^sup>*\<^sup>* s1 s2" "r_channel row = toString_Channel ch"
    "body \<in> set (t_queues s2 (mainQueue ch))" "decode (dp_json D) body = Inr (r_id row, a, p)" "t_db s2 = t_db s1"
    using waiting_to_main [OF assms(1) s1(2)] by blast
  obtain s3 where s3: "(tsys_step D)\<^sup>*\<^sup>* s2 s3" "t_workers s3 0 = Free" "t_db s3 = t_db s2"
    "set (t_queues s2 q) \<subseteq> set (t_queues s3 q)" for q
    using worker_freed by blast
  have r: "(tsys_step D)\<^sup>*\<^sup>* s s3" using s1(1) s2(1) s3(1) by (meson rtranclp_trans)
  have core: "core_inv D s3" using core_reach [OF assms(1) _ r] inv by (simp add: tsys_inv_def)
  have row: "row \<in> set (notifications (t_db s3))" using assms(3) s1(3) s2(5) s3(3) by simp
  have "body \<in> set (t_queues s3 (mainQueue ch))" using s2(3) s3(4) by blast
  from main_to_sent [OF assms(1) core row st s2(2) this s2(4) s3(2)] show ?thesis
    using r by (meson rtranclp_trans)
qed

theorem announced_recovers_witness:
  "\<exists>s s' row'. tsys_reach sample_deployment s \<and> (tsys_step sample_deployment)\<^sup>*\<^sup>* s s' \<and>
     t_workers s 0 = Busy Sms (sample_body 1) 1 (Claim (n_id sample_saved) 1 5 sample_saved) \<and>
     row' \<in> set (notifications (t_db s')) \<and> r_status row' = ''SENT'' \<and> length (provider_calls (t_router s')) = 1"
proof -
  let ?row = "inserted_row sample_saved 0"
  have m: "?row \<in> set (notifications (t_db sample_race))"
    by (simp add: sample_race_def sample_start_def sample_db_def)
  have w: "t_workers sample_race 0 = Busy Sms (sample_body 1) 1 (Claim (n_id sample_saved) 1 5 sample_saved)"
    by (simp add: sample_race_def sample_start_def)
  have d: "decode (dp_json sample_deployment) (sample_body 1) = Inr (r_id ?row, 1, 5)"
    using decode_sample [of 1] by (simp add: sample_deployment_def inserted_row_def newRow_def int32_range_def)
  have "answered sample_deployment (t_workers sample_race) ?row"
    by (rule answeredI [where i = 0 and W = "t_workers sample_race", OF w _ _ d])
      (simp_all add: inserted_row_def newRow_def sample_saved_def sample_notification_def)
  then have a: "waiting sample_deployment (t_queues sample_race) ?row \<or> answered sample_deployment (t_workers sample_race) ?row" ..
  have "r_status ?row \<noteq> ''SENT''" by (simp add: inserted_row_def newRow_def)
  with announced_recovers [OF deployable_sample sample_race_reachable m a] obtain s' row' n
    where "(tsys_step sample_deployment)\<^sup>*\<^sup>* sample_race s'" "row' \<in> set (notifications (t_db s'))"
      "r_status row' = ''SENT''" "provider_calls (t_router s') = [n]"
    by blast
  then show ?thesis
    using w sample_race_reachable by (intro exI [of _ sample_race] exI [of _ s'] exI [of _ row']) simp
qed

end
