(* ===== verification/Quiescence.thy ===== *)
theory Quiescence
  imports Recovery
begin

text \<open>
  The service comes to rest. Once no further requests arrive and no thread dies, every run of
  the interleaved system is finite, with a bound computed from the state it starts in, whatever
  the scheduler does and however statements and providers come out on the way; and a state in
  which nothing is left to do has an outcome for every notification. No fairness is assumed:
  a run that has not come to rest can only go on, and not for long.
\<close>

section \<open>Serving what is there\<close>

text \<open>
  The steps by which the service works off what has been given to it: those of \<open>tsys_step\<close>
  without new requests and without deaths of threads. A handler works until it is at its end
  (\<open>fuel_left\<close>). The providers may answer in any way that is in \<open>P\<close>.
\<close>

type_synonym answers = "MockProvider \<Rightarrow> Notification \<Rightarrow> exn + ProviderResult"

inductive serve_step :: "answers set \<Rightarrow> 'j deployment \<Rightarrow> tsys \<Rightarrow> tsys \<Rightarrow> bool" for P D where
  take_message: "t_queues s (mainQueue ch) = xs @ body # ys \<Longrightarrow> t_workers s i = Free \<Longrightarrow>
    serve_step P D s (s\<lparr>t_queues := (t_queues s)(mainQueue ch := xs @ ys),
      t_workers := (t_workers s)(i := Busy ch body tag Begin)\<rparr>)"
| work: "t_workers s i = Busy ch body tag pc \<Longrightarrow> 0 < fuel_left pc \<Longrightarrow>
    we_db V = dp_db D \<Longrightarrow> we_json V = dp_json D \<Longrightarrow> we_provider V \<in> P \<Longrightarrow>
    handler_step V ch (dp_config D) body tag pc \<lparr>w_db = t_db s, w_router = t_router s, w_ops = []\<rparr> = (pc', w') \<Longrightarrow>
    serve_step P D s (s\<lparr>t_db := w_db w', t_router := w_router w',
      t_queues := broker_ops (routes D) (w_ops w') (t_queues s),
      t_workers := (t_workers s)(i := (if Ack tag \<in> set (w_ops w') then Free else Busy ch body tag pc'))\<rparr>)"
| check: "t_posts s i = Parsed n \<Longrightarrow>
    findByIdempotencyKey (dp_db D) (n_idempotencyKey n) (t_db s) = (r, d') \<Longrightarrow>
    serve_step P D s (s\<lparr>t_db := d', t_posts := (t_posts s)(i :=
      (case r of Inl ex \<Rightarrow> NoPost | Inr (Some m) \<Rightarrow> Stored m | Inr None \<Rightarrow> Absent n))\<rparr>)"
| insert: "t_posts s i = Absent n \<Longrightarrow> valid_draws u \<Longrightarrow>
    insertTransaction (dp_db D) u n (t_db s) = (r, d') \<Longrightarrow>
    serve_step P D s (s\<lparr>t_db := d', t_posts := (t_posts s)(i :=
      (case r of Inl ex \<Rightarrow> NoPost | Inr m \<Rightarrow> Stored m))\<rparr>)"
| publish: "t_posts s i = Stored m \<Longrightarrow> j_dump (dp_json D) (deliveryMessage (dp_json D) m) = Inr msg \<Longrightarrow>
    serve_step P D s (s\<lparr>t_queues := broker_op (routes D) (Publish exchangeName (routingKey (n_channel m))
        (message msg (priorityWeight (n_priority m)))) (t_queues s),
      t_posts := (t_posts s)(i := NoPost)\<rparr>)"
| expire: "t_queues s q = xs @ body # ys \<Longrightarrow>
    message_ttl (declareAll (dp_config D)) q = Some ttl \<Longrightarrow>
    dead_letter_target (declareAll (dp_config D)) q = Some (x, k) \<Longrightarrow>
    serve_step P D s (s\<lparr>t_queues := broker_op (routes D) (Publish x k (newEnvelope body))
      ((t_queues s)(q := xs @ ys))\<rparr>)"

lemma serve_is_step: "serve_step P D s s' \<Longrightarrow> tsys_step D s s'"
  by (erule serve_step.cases) (simp_all add: tsys_step.intros del: broker_op.simps)

text \<open>
  A run of \<open>n\<close> such steps. Between them the environment may change the clock and the statements
  that will fail (to a schedule in \<open>F\<close>), and breakers may be reset, as often as it likes.
\<close>

inductive serves :: "answers set \<Rightarrow> string option list set \<Rightarrow> 'j deployment \<Rightarrow> nat \<Rightarrow> tsys \<Rightarrow> tsys \<Rightarrow> bool"
  for P F D where
  start: "serves P F D 0 s s"
| serve: "serves P F D n s s' \<Longrightarrow> serve_step P D s' s'' \<Longrightarrow> serves P F D (Suc n) s s''"
| environment: "serves P F D n s s' \<Longrightarrow> fs \<in> F \<Longrightarrow>
    serves P F D n s (s'\<lparr>t_db := (t_db s')\<lparr>db_faults := fs, db_now := now\<rparr>\<rparr>)"
| new_router: "serves P F D n s s' \<Longrightarrow> serves P F D n s (s'\<lparr>t_router :=
    newRouter (cbFailureThreshold (dp_config D)) (cbOpenDurationMs (dp_config D))\<rparr>)"

lemma serves_reach: "serves P F D n s s' \<Longrightarrow> tsys_reach D s \<Longrightarrow> tsys_reach D s'"
  by (induction rule: serves.induct) (auto intro: tsys_reach.step tsys_step.intros serve_is_step)

section \<open>The work that is left\<close>

text \<open>The retries a message may still lead to, and the steps: 11 of a handler, one to take the
  message, one to expire from a rung.\<close>

definition retries_left :: "'j deployment \<Rightarrow> string \<Rightarrow> nat" where
  "retries_left D body = (case decode (dp_json D) body of
     Inl ex \<Rightarrow> 0
   | Inr (nid, a, p) \<Rightarrow> nat (max 1 (maxRetries (dp_config D) + 1) - a))"

definition message_work :: "'j deployment \<Rightarrow> string \<Rightarrow> nat" where
  "message_work D body = 13 * retries_left D body + 12"

fun may_retry :: "handler_pc \<Rightarrow> nat" where
  "may_retry (Todo ops) = length (filter (\<lambda>op. \<exists>nid a p. op = PublishRetry nid a p) ops)"
| "may_retry (Threw ex) = 0"
| "may_retry _ = 1"

fun worker_work :: "'j deployment \<Rightarrow> worker_slot \<Rightarrow> nat" where
  "worker_work D Free = 0"
| "worker_work D (Busy ch body tag pc) = fuel_left pc + may_retry pc * (13 * retries_left D body)"

fun post_work :: "'j deployment \<Rightarrow> post_slot \<Rightarrow> nat" where
  "post_work D NoPost = 0"
| "post_work D (Parsed n) = 13 * nat (maxRetries (dp_config D)) + 15"
| "post_work D (Absent n) = 13 * nat (maxRetries (dp_config D)) + 14"
| "post_work D (Stored m) = 13 * nat (maxRetries (dp_config D)) + 13"

text \<open>The queues from which messages come to workers.\<close>

definition live_queues :: "'j deployment \<Rightarrow> string list" where
  "live_queues D = concat (map (\<lambda>ch. mainQueue ch #
     map (\<lambda>i. retryQueue ch (int i + 1)) [0..<length (retryDelaysMs (dp_config D))]) all_channels)"

definition toll :: "string \<Rightarrow> nat" where
  "toll q = (if q \<in> set (map mainQueue all_channels) then 0 else 1)"

definition queue_work :: "'j deployment \<Rightarrow> string \<Rightarrow> string list \<Rightarrow> nat" where
  "queue_work D q bodies = (\<Sum>body\<leftarrow>bodies. message_work D body + toll q)"

definition queues_work :: "'j deployment \<Rightarrow> (string \<Rightarrow> string list) \<Rightarrow> nat" where
  "queues_work D Q = (\<Sum>q\<in>set (live_queues D). queue_work D q (Q q))"

definition work_left :: "'j deployment \<Rightarrow> tsys \<Rightarrow> nat" where
  "work_left D s = queues_work D (t_queues s) +
     (\<Sum>i | t_workers s i \<noteq> Free. worker_work D (t_workers s i)) +
     (\<Sum>i | t_posts s i \<noteq> NoPost. post_work D (t_posts s i))"

text \<open>Only finitely many threads are at work.\<close>

definition few_threads :: "tsys \<Rightarrow> bool" where
  "few_threads s \<longleftrightarrow> finite {i. t_workers s i \<noteq> Free} \<and> finite {i. t_posts s i \<noteq> NoPost}"

lemma few_threads_step: "tsys_step D s s' \<Longrightarrow> few_threads s \<Longrightarrow> few_threads s'"
  by (erule tsys_step.cases) (simp_all add: few_threads_def finite_support_upd del: fun_upd_apply)

lemma few_threads_reach: "tsys_reach D s \<Longrightarrow> few_threads s"
proof (induction rule: tsys_reach.induct)
  case init
  show ?case by (simp add: few_threads_def tsys_init_def)
qed (rule few_threads_step)

text \<open>What changes when a queue, a worker or an HTTP thread changes.\<close>

lemma live_queues_iff: "q \<in> set (live_queues D) \<longleftrightarrow> (\<exists>ch. live D ch q)"
proof -
  have "(\<exists>i\<in>{0..<n}. q = retryQueue ch (int i + 1)) \<longleftrightarrow> (\<exists>a. 1 \<le> a \<and> a \<le> int n \<and> q = retryQueue ch a)" for n ch
  proof (safe)
    fix a assume "1 \<le> a" "a \<le> int n"
    then show "\<exists>i\<in>{0..<n}. retryQueue ch a = retryQueue ch (int i + 1)"
      by (intro bexI [of _ "nat (a - 1)"]) auto
  qed fastforce
  then show ?thesis by (auto simp: live_queues_def live_def image_iff)
qed

lemma toll_simps [simp]: "toll (mainQueue ch) = 0" "toll (retryQueue ch a) = 1"
  by (cases ch; simp add: toll_def all_channels_def)+

lemma queues_work_upd:
  assumes "live D ch q"
  shows "queues_work D (Q(q := bodies)) + queue_work D q (Q q) = queues_work D Q + queue_work D q bodies"
  unfolding queues_work_def by (rule sum_upd) (use assms live_queues_iff in \<open>simp, blast\<close>)

lemma queues_work_put:
  "live D ch q \<Longrightarrow> queues_work D (put body q Q) = queues_work D Q + message_work D body + toll q"
  using queues_work_upd [of D ch q Q "Q q @ [body]"] by (simp add: put_def queue_work_def)

lemma queues_work_take:
  "live D ch q \<Longrightarrow> Q q = xs @ body # ys \<Longrightarrow>
   queues_work D (Q(q := xs @ ys)) + message_work D body + toll q = queues_work D Q"
  using queues_work_upd [of D ch q Q "xs @ ys"] by (simp add: queue_work_def)

lemma queues_work_dlq: "queues_work D (put body (dlq ch) Q) = queues_work D Q"
  unfolding queues_work_def put_def by (rule sum.cong) (auto simp: live_queues_iff)

lemma workers_work_upd:
  "few_threads s \<Longrightarrow>
   (\<Sum>j | ((t_workers s)(i := x)) j \<noteq> Free. worker_work D (((t_workers s)(i := x)) j)) + worker_work D (t_workers s i) =
   (\<Sum>j | t_workers s j \<noteq> Free. worker_work D (t_workers s j)) + worker_work D x"
  by (rule sum_support_upd) (simp_all add: few_threads_def)

lemma posts_work_upd:
  "few_threads s \<Longrightarrow>
   (\<Sum>j | ((t_posts s)(i := x)) j \<noteq> NoPost. post_work D (((t_posts s)(i := x)) j)) + post_work D (t_posts s i) =
   (\<Sum>j | t_posts s j \<noteq> NoPost. post_work D (t_posts s j)) + post_work D x"
  by (rule sum_support_upd) (simp_all add: few_threads_def)

section \<open>Every step does some of it\<close>

lemma may_retry_ops: "may_retry (Todo (success_ops ch nid a result)) = 0"
  "may_retry (Todo (failure_ops ch config nid a p body ex)) \<le> 1"
  by (simp_all add: success_ops_def failure_ops_def Let_def)

text \<open>A handler that publishes a retry has one fewer to publish.\<close>

lemma step_retries:
  assumes "handler_step V ch config body tag pc w = (pc', w')" "w_ops w = []"
  shows "may_retry pc' + (if \<exists>a e. w_ops w' = [Publish '''' (retryQueue ch a) e] then 1 else 0) \<le> may_retry pc"
proof (cases pc)
  case (Calling nid a p n)
  with assms may_retry_ops(2) [of ch config nid a p body] show ?thesis
    by (auto simp: on_router_def zoomA_def simp del: may_retry.simps(1) split: prod.splits sum.splits if_splits)
next
  case (Sending nid a p n)
  with assms show ?thesis by (auto simp: on_router_def zoomA_def split: prod.splits)
next
  case (Reporting nid a p n outcome)
  with assms may_retry_ops(2) [of ch config nid a p body] show ?thesis
    by (auto simp: on_router_def zoomA_def may_retry_ops(1) simp del: may_retry.simps(1)
        split: prod.splits sum.splits if_splits)
next
  case (Todo ops)
  show ?thesis
  proof (cases ops)
    case (Cons op rest)
    obtain r w1 where o: "op_act V ch tag op w = (r, w1)" by (cases "op_act V ch tag op w")
    have w': "w' = w1" and pc': "may_retry pc' \<le> may_retry (Todo rest)"
      using assms(1) Todo Cons o by (auto split: sum.splits)
    have "w_ops w1 = [Publish [] (retryQueue ch a) e] \<Longrightarrow> \<exists>nid a p. op = PublishRetry nid a p" for a e
      using o assms(2) by (cases op) (auto simp: op_act_def emit_eq dest!: on_dbE)
    then show ?thesis using pc' by (auto simp: w' Todo Cons)
  qed (use assms Todo in auto)
qed (use assms in \<open>auto dest!: on_dbE split: prod.splits sum.splits option.splits if_splits\<close>)

lemma work_decreases:
  assumes dep: "deployable D" and core: "core_inv D s" and few: "few_threads s"
    and w: "t_workers s i = Busy ch body tag pc" and left: "0 < fuel_left pc"
    and V: "we_db V = dp_db D" "we_json V = dp_json D"
    and h: "handler_step V ch (dp_config D) body tag pc \<lparr>w_db = t_db s, w_router = t_router s, w_ops = []\<rparr> = (pc', w')"
    and s': "t_queues s' = broker_ops (routes D) (w_ops w') (t_queues s)" "t_posts s' = t_posts s"
      "t_workers s' = (t_workers s)(i := (if Ack tag \<in> set (w_ops w') then Free else Busy ch body tag pc'))"
  shows "work_left D s' < work_left D s"
proof -
  let ?x = "if Ack tag \<in> set (w_ops w') then Free else Busy ch body tag pc'"
  define k where "k = 13 * retries_left D body"
  note good = workers_okD [OF core_invD(4) [OF core] w]
  have b: "broker_laws (dp_route D)" using dep by (simp add: deployable_def)
  have fuel: "fuel_left pc' < fuel_left pc"
    using step_uses_fuel [of V ch "dp_config D" body tag pc] h left by (metis Suc_pred' fst_conv le_imp_less_Suc)
  have retry: "may_retry pc' + (if \<exists>a e. w_ops w' = [Publish '''' (retryQueue ch a) e] then 1 else 0) \<le> may_retry pc"
    by (rule step_retries [OF h]) simp
  have slot: "worker_work D ?x \<le> fuel_left pc' + may_retry pc' * k"
    and busy: "worker_work D (Busy ch body tag pc) = fuel_left pc + may_retry pc * k" by (simp_all add: k_def)
  have few_retries: "may_retry pc' * k \<le> may_retry pc * k" using retry by (intro mult_le_mono1) simp
  have less: "worker_work D ?x < worker_work D (Busy ch body tag pc)" using slot busy fuel few_retries by linarith
  consider "w_ops w' = [Ack tag]" | "w_ops w' = []" | "w_ops w' = [Publish [] (dlq ch) (dlq_message body)]"
    | nid a p op where "decode (dp_json D) body = Inr (nid, a, p)" "w_ops w' = [op]"
        "is_retry (dp_json D) ch (dp_config D) nid a p op"
    using handler_step_emits [OF h, of "body \<in> set (t_queues s (dlq ch))"] good V by (auto simp: outgoing_def)
  then have "queues_work D (t_queues s') + worker_work D ?x < queues_work D (t_queues s) + worker_work D (Busy ch body tag pc)"
  proof cases
    case 1
    then have "t_queues s' = t_queues s" by (simp add: s')
    then show ?thesis using less by simp
  next
    case 2
    then have "t_queues s' = t_queues s" by (simp add: s')
    then show ?thesis using less by simp
  next
    case 3
    then have "queues_work D (t_queues s') = queues_work D (t_queues s)"
      using route_queue(1) [OF b] by (simp add: s' dlq_message_def queues_work_dlq)
    then show ?thesis using less by simp
  next
    case (4 nid a p op)
    then have "1 \<le> a" using good by (auto simp: good_msg_def)
    then obtain payload where pay: "op = Publish [] (retryQueue ch a) (message payload p)" "a \<le> maxRetries (dp_config D)"
      "decode (dp_json D) payload = Inr (nid, a + 1, p)" "live D ch (retryQueue ch a)"
      "broker_op (routes D) op (t_queues s) = put payload (retryQueue ch a) (t_queues s)"
      using retry_decodes [OF dep 4(3)] by blast
    have "Suc (retries_left D payload) = retries_left D body"
      using pay(2,3) 4(1) by (simp add: retries_left_def)
    then have "queues_work D (t_queues s') = queues_work D (t_queues s) + k"
      using queues_work_put [OF pay(4)] pay(5) by (simp add: s'(1) 4(2) message_work_def k_def)
    moreover have "Suc (may_retry pc') \<le> may_retry pc" using retry 4(2) pay(1) by auto
    then have "Suc (may_retry pc') * k \<le> may_retry pc * k" by (rule mult_le_mono1)
    then have "may_retry pc' * k + k \<le> may_retry pc * k" by simp
    ultimately show ?thesis using slot busy fuel by linarith
  qed
  then show ?thesis
    using workers_work_upd [OF few, of D i ?x] unfolding work_left_def s'(2,3) w by linarith
qed

lemma serve_decreases:
  assumes dep: "deployable D" and core: "core_inv D s" and few: "few_threads s" and step: "serve_step P D s s'"
  shows "work_left D s' < work_left D s"
  using step
proof cases
  case (take_message ch xs body ys i tag)
  have "queues_work D ((t_queues s)(mainQueue ch := xs @ ys)) + message_work D body = queues_work D (t_queues s)"
    using queues_work_take [where Q = "t_queues s" and ch = ch and q = "mainQueue ch", OF _ take_message(2)] by simp
  then show ?thesis
    using workers_work_upd [OF few, of D i "Busy ch body tag Begin"] take_message(3)
    by (simp add: take_message(1) work_left_def message_work_def del: fun_upd_apply)
next
  case (work i ch body tag pc V pc' w')
  show ?thesis by (rule work_decreases [OF dep core few work(2-5) work(7)]) (simp_all add: work(1))
next
  case (check i n r d')
  then show ?thesis
    using posts_work_upd [OF few, of D i "case r of Inl ex \<Rightarrow> NoPost | Inr (Some m) \<Rightarrow> Stored m | Inr None \<Rightarrow> Absent n"]
    by (simp add: work_left_def del: fun_upd_apply split: sum.splits option.splits)
next
  case (insert i n u r d')
  then show ?thesis
    using posts_work_upd [OF few, of D i "case r of Inl ex \<Rightarrow> NoPost | Inr m \<Rightarrow> Stored m"]
    by (simp add: work_left_def del: fun_upd_apply split: sum.splits)
next
  case (publish i m msg)
  have b: "broker_laws (dp_route D)" and laws: "json_laws (dp_json D)" using dep by (simp_all add: deployable_def)
  have "retries_left D msg = nat (maxRetries (dp_config D))"
    using decode_deliveryMessage [OF laws publish(3)] by (simp add: retries_left_def)
  moreover have "t_queues s' = put msg (mainQueue (n_channel m)) (t_queues s)"
    using route_queue(3) [OF b, of "n_channel m"] by (simp add: publish(1) message_def)
  moreover have "t_posts s' = (t_posts s)(i := NoPost)" "t_workers s' = t_workers s" by (simp_all add: publish(1))
  ultimately show ?thesis
    using posts_work_upd [OF few, of D i NoPost] queues_work_put [of D "n_channel m" "mainQueue (n_channel m)" msg "t_queues s"]
      publish(2) by (simp add: work_left_def message_work_def del: fun_upd_apply)
next
  case (expire q xs body ys ttl x k)
  have b: "broker_laws (dp_route D)" using dep by (simp add: deployable_def)
  obtain ch a where a: "1 \<le> a" "a \<le> int (length (retryDelaysMs (dp_config D)))" "q = retryQueue ch a"
    and x: "x = exchangeName" "k = routingKey ch"
    using rung_of_target [OF expire(4)] by blast
  let ?Q = "(t_queues s)(q := xs @ ys)"
  have "t_queues s' = put body (mainQueue ch) ?Q"
    using route_queue(3) [OF b, of ch] by (simp add: expire(1) x newEnvelope_def)
  moreover have "queues_work D ?Q + message_work D body + 1 = queues_work D (t_queues s)"
    using queues_work_take [where Q = "t_queues s" and ch = ch and q = q, OF _ expire(2)] a by simp
  moreover have "t_posts s' = t_posts s" "t_workers s' = t_workers s" by (simp_all add: expire(1))
  ultimately show ?thesis
    using queues_work_put [of D ch "mainQueue ch" body ?Q] by (simp add: work_left_def)
qed

lemma serves_bounded:
  assumes "serves P F D n s s'" "deployable D" "tsys_reach D s"
  shows "n + work_left D s' \<le> work_left D s"
  using assms
proof (induction rule: serves.induct)
  case (serve n s s' s'')
  have r: "tsys_reach D s'" by (rule serves_reach [OF serve.hyps(1) serve.prems(2)])
  have "core_inv D s'" using tsys_inv_reach [OF r serve.prems(1)] by (simp add: tsys_inv_def)
  from serve_decreases [OF serve.prems(1) this few_threads_reach [OF r] serve.hyps(2)]
  show ?case using serve.IH [OF serve.prems] by simp
qed (simp_all add: work_left_def)

lemma serves_trans: "serves P F D m s' s'' \<Longrightarrow> serves P F D n s s' \<Longrightarrow> serves P F D (n + m) s s''"
  by (induction rule: serves.induct) (auto intro: serves.intros)

section \<open>What is at rest\<close>

text \<open>Every stored identifier is plain ASCII, so that its announcement can be printed.\<close>

definition printable :: "tsys \<Rightarrow> bool" where
  "printable s \<longleftrightarrow> (\<forall>row\<in>set (notifications (t_db s)). ascii (r_id row)) \<and>
     (\<forall>i m. t_posts s i = Stored m \<longrightarrow> ascii (n_id m)) \<and> list_all ascii (t_lost s)"

lemma printableD:
  assumes "printable s"
  shows "row \<in> set (notifications (t_db s)) \<Longrightarrow> ascii (r_id row)"
    and "t_posts s i = Stored m \<Longrightarrow> ascii (n_id m)" and "x \<in> set (t_lost s) \<Longrightarrow> ascii x"
  using assms by (auto simp: printable_def list_all_iff)

lemma printable_posts:
  assumes p: "printable s" and step: "tsys_step D s s'" and m: "t_posts s' i = Stored m"
  shows "ascii (n_id m)"
  using step
proof cases
  case (check j n r d')
  show ?thesis
  proof (cases "t_posts s i = Stored m")
    case False
    then have "i = j" "r = Inr (Some m)" using m check(1) by (auto split: if_splits sum.splits option.splits)
    then obtain row where "select_by_key (dp_db D) (n_idempotencyKey n) (t_db s) = Some row" "rowToNotification row = Inr m"
      using findByIdempotencyKey_SomeD check(3) by blast
    then show ?thesis using printableD(1) [OF p] select_by_key_SomeD rowToNotification_fields(1) by metis
  qed (rule printableD(2) [OF p])
next
  case (insert j n u r d')
  show ?thesis
  proof (cases "t_posts s i = Stored m")
    case False
    then have "i = j" "r = Inr m" using m insert(1) by (auto split: if_splits sum.splits)
    then have "n_id m = uuid4 u" using insertTransaction_outcome [OF insert(4)] by (auto simp: Let_def)
    then show ?thesis using ascii_uuid4 [OF insert(3)] by simp
  qed (rule printableD(2) [OF p])
qed (use m printableD(2) [OF p] in \<open>auto split: if_splits\<close>)

lemma printable_lost:
  assumes p: "printable s" and step: "tsys_step D s s'" and x: "x \<in> set (t_lost s')"
  shows "ascii x"
  using step
proof cases
  case (post_dies j q)
  then show ?thesis using x printableD(2,3) [OF p] by (auto split: post_slot.splits)
qed (use x printableD(3) [OF p] in auto)

lemma printable_step:
  assumes dep: "deployable D" and core: "core_inv D s" and p: "printable s" and step: "tsys_step D s s'"
  shows "printable s'"
proof -
  have "ascii (r_id row)" if "row \<in> set (notifications (t_db s'))" for row
  proof -
    have "accounted D s s' row" using accounts_step [OF dep core step] that by (simp add: accounts_def)
    then consider "unannounced (t_posts s') (t_lost s') row"
      | row0 where "row0 \<in> set (notifications (t_db s))" "r_id row = r_id row0"
      unfolding accounted_def follows_def by blast
    then show ?thesis
    proof cases
      case 1
      then show ?thesis using printable_posts [OF p step] printable_lost [OF p step] unfolding unannounced_def by metis
    next
      case (2 row0)
      then show ?thesis using printableD(1) [OF p] by simp
    qed
  qed
  then show ?thesis
    using printable_posts [OF p step] printable_lost [OF p step] by (auto simp: printable_def list_all_iff)
qed

lemma printable_reach: "tsys_reach D s \<Longrightarrow> deployable D \<Longrightarrow> printable s"
proof (induction rule: tsys_reach.induct)
  case init
  show ?case by (simp add: printable_def tsys_init_def db_empty_def)
next
  case (step s s')
  have "core_inv D s" using tsys_inv_reach [OF step.hyps(1) step.prems] by (simp add: tsys_inv_def)
  then show ?case using printable_step step by blast
qed

text \<open>
  At rest no message is on its way, no HTTP thread has work, and every handler is at its end.
  In any other reachable state some step can be taken, so these are the ends of the runs.
\<close>

definition at_rest :: "'j deployment \<Rightarrow> tsys \<Rightarrow> bool" where
  "at_rest D s \<longleftrightarrow> (\<forall>q\<in>set (live_queues D). t_queues s q = []) \<and> (\<forall>i. t_posts s i = NoPost) \<and>
     (\<forall>i ch body tag pc. t_workers s i = Busy ch body tag pc \<longrightarrow> fuel_left pc = 0)"

lemma at_restD:
  assumes "at_rest D s"
  shows "live D ch q \<Longrightarrow> t_queues s q = []" "t_posts s i = NoPost"
    and "t_workers s i = Busy c body tag pc \<Longrightarrow> fuel_left pc = 0"
  using assms live_queues_iff [of q D] unfolding at_rest_def by blast+

lemma worker_can_step:
  assumes "A \<in> P" "t_workers s i = Busy ch body tag pc" "0 < fuel_left pc"
  shows "\<exists>s'. serve_step P D s s'"
proof -
  let ?V = "\<lparr>we_db = dp_db D, we_json = dp_json D, we_provider = A, we_t1 = 0, we_t2 = 0\<rparr>"
  obtain pc' w' where "handler_step ?V ch (dp_config D) body tag pc \<lparr>w_db = t_db s, w_router = t_router s, w_ops = []\<rparr> = (pc', w')"
    by fastforce
  from serve_step.work [OF assms(2,3) _ _ _ this, of P] assms(1) show ?thesis by auto
qed

lemma queue_can_step:
  assumes few: "few_threads s" and q: "live D ch q" "t_queues s q \<noteq> []"
  shows "\<exists>s'. serve_step P D s s'"
proof -
  obtain body ys where b: "t_queues s q = [] @ body # ys" using q(2) by (cases "t_queues s q") auto
  show ?thesis
  proof (cases "q = mainQueue ch")
    case True
    obtain i where "t_workers s i = Free"
      using few ex_new_if_finite [of "{i. t_workers s i \<noteq> Free}"] by (auto simp: few_threads_def)
    then show ?thesis using serve_step.take_message [OF b [unfolded True]] by blast
  next
    case False
    then obtain a where a: "1 \<le> a" "a \<le> int (length (retryDelaysMs (dp_config D)))" "q = retryQueue ch a"
      using q(1) unfolding live_def by blast
    from serve_step.expire [OF b] rung_args [OF a(1,2), of ch] a(3) show ?thesis by metis
  qed
qed

lemma post_can_step:
  assumes laws: "json_laws (dp_json D)" and p: "printable s" and i: "t_posts s i \<noteq> NoPost"
  shows "\<exists>s'. serve_step P D s s'"
proof (cases "t_posts s i")
  case (Parsed n)
  obtain r d' where "findByIdempotencyKey (dp_db D) (n_idempotencyKey n) (t_db s) = (r, d')" by fastforce
  from serve_step.check [OF Parsed this] show ?thesis by blast
next
  case (Absent n)
  have u: "valid_draws \<lparr>hexDraw = (\<lambda>_. 0), variantDraw = 8\<rparr>" by (simp add: valid_draws_def)
  obtain r d' where "insertTransaction (dp_db D) \<lparr>hexDraw = (\<lambda>_. 0), variantDraw = 8\<rparr> n (t_db s) = (r, d')" by fastforce
  from serve_step.insert [OF Absent u this] show ?thesis by blast
next
  case (Stored m)
  obtain msg where "j_dump (dp_json D) (deliveryMessage (dp_json D) m) = Inr msg"
    using deliveryMessage_prints [OF laws printableD(2) [OF p Stored]] by blast
  from serve_step.publish [OF Stored this] show ?thesis by blast
qed (use i in simp)

lemma rest_iff_no_step:
  assumes "deployable D" "tsys_reach D s" "A \<in> P"
  shows "at_rest D s \<longleftrightarrow> (\<nexists>s'. serve_step P D s s')"
proof
  assume rest: "at_rest D s"
  have False if "serve_step P D s s'" for s'
    using that
  proof cases
    case (take_message ch xs body ys i tag)
    have "mainQueue ch \<in> set (live_queues D)" by (auto simp: live_queues_iff)
    with rest take_message(2) show False by (simp add: at_rest_def)
  next
    case (expire q xs body ys ttl x k)
    have "q \<in> set (live_queues D)" using rung_of_target [OF expire(4)] by (auto simp: live_queues_iff)
    with rest expire(2) show False by (simp add: at_rest_def)
  qed (use rest in \<open>auto simp: at_rest_def\<close>)
  then show "\<nexists>s'. serve_step P D s s'" by blast
next
  assume stop: "\<nexists>s'. serve_step P D s s'"
  have "json_laws (dp_json D)" using assms(1) by (simp add: deployable_def)
  then have "t_posts s i = NoPost" for i
    using post_can_step [OF _ printable_reach [OF assms(2,1)], of D i P] stop by blast
  moreover have "t_queues s q = []" if "live D ch q" for ch q
    using queue_can_step [OF few_threads_reach [OF assms(2)] that, of P] stop by blast
  moreover have "fuel_left pc = 0" if "t_workers s i = Busy ch body tag pc" for i ch body tag pc
    using worker_can_step [OF assms(3) that, of D] stop by blast
  ultimately show "at_rest D s" by (auto simp: at_rest_def live_queues_iff)
qed

text \<open>So every run can be brought to its end.\<close>

lemma rest_is_reached:
  assumes dep: "deployable D" and A: "A \<in> P" and r: "tsys_reach D s"
  shows "\<exists>n s'. serves P F D n s s' \<and> at_rest D s'"
  using r
proof (induction "work_left D s" arbitrary: s rule: less_induct)
  case less
  show ?case
  proof (cases "at_rest D s")
    case True
    then show ?thesis using serves.start by blast
  next
    case False
    then obtain s1 where s1: "serve_step P D s s1" using rest_iff_no_step [OF dep less.prems A] by blast
    have "core_inv D s" using tsys_inv_reach [OF less.prems dep] by (simp add: tsys_inv_def)
    from serve_decreases [OF dep this few_threads_reach [OF less.prems] s1]
    obtain n s' where "serves P F D n s1 s'" "at_rest D s'"
      using less.hyps [OF _ tsys_reach.step [OF less.prems serve_is_step [OF s1]]] by blast
    then show ?thesis using serves_trans serves.serve [OF serves.start s1] by blast
  qed
qed

lemma serves_lost: "serves P F D n s s' \<Longrightarrow> t_lost s' = t_lost s"
  by (induction rule: serves.induct) (auto elim!: serve_step.cases)

text \<open>An exception has left the handler that holds its message.\<close>

definition crashed :: "'j deployment \<Rightarrow> tsys \<Rightarrow> notification_row \<Rightarrow> bool" where
  "crashed D s row \<longleftrightarrow> (\<exists>i ch body tag ex a p. t_workers s i = Busy ch body tag (Threw ex) \<and>
     decode (dp_json D) body = Inr (r_id row, a, p))"

lemma answered_at_rest:
  assumes "at_rest D s" "answered D (t_workers s) row" shows "crashed D s row"
proof -
  obtain i ch body tag pc a p where w: "t_workers s i = Busy ch body tag pc" "active pc"
    "decode (dp_json D) body = Inr (r_id row, a, p)"
    using assms(2) unfolding answered_def by blast
  have "fuel_left pc = 0" by (rule at_restD(3) [OF assms(1) w(1)])
  then obtain ex where "pc = Threw ex" using w(2) by (cases pc) auto
  with w show ?thesis unfolding crashed_def by blast
qed

text \<open>The outcomes at rest.\<close>

lemma rest_outcomes:
  assumes "deployable D" "tsys_reach D s" "serves P F D n s s'" "at_rest D s'" "row \<in> set (notifications (t_db s'))"
  shows "r_status row = ''SENT'' \<or> r_status row = ''DEAD_LETTERED'' \<and> parked D (t_queues s') row \<or>
    crashed D s' row \<or> r_status row = ''PENDING'' \<and> r_id row \<in> set (t_lost s)"
proof -
  have "\<not> waiting D (t_queues s') row" using at_restD(1) [OF assms(4)] unfolding waiting_def by fastforce
  moreover have "unannounced (t_posts s') (t_lost s') row \<Longrightarrow> r_id row \<in> set (t_lost s)"
    using at_restD(2) [OF assms(4)] serves_lost [OF assms(3)] by (simp add: unannounced_def)
  ultimately show ?thesis
    using tsys_inv_reach [OF serves_reach [OF assms(3,2)] assms(1)] assms(5) answered_at_rest [OF assms(4)]
    by (auto simp: tsys_inv_def trow_ok_def)
qed

section \<open>Property\<close>

text \<open>C4: the service comes to rest, and then everything announced has an outcome. From any
  reachable state, once no more requests arrive and no thread dies, the threads can take at
  most \<open>work_left\<close> further steps, in whatever order they are scheduled, however providers answer
  (\<open>P\<close>) and whatever statements fail (\<open>F\<close>); any such run can be continued to one that has come
  to rest. There every stored notification is SENT, or DEAD_LETTERED with its message in the
  dead-letter queue, or an exception has left the handler that holds its message, or it is
  PENDING and its announcement had been lost before the run. In particular no message is
  retried or waits on a rung for ever. (A message is left in a main queue only while no worker
  is free; the model has as many workers as needed, a pool in which every worker has been left
  by an exception has none.)\<close>

theorem service_comes_to_rest:
  assumes "deployable D" "tsys_reach D s" "serves P F D n s s'" "A \<in> P"
  shows "n \<le> work_left D s \<and> (\<exists>m s''. serves P F D m s' s'' \<and> at_rest D s'') \<and>
    (at_rest D s' \<longrightarrow> (\<forall>row\<in>set (notifications (t_db s')).
       r_status row = ''SENT'' \<or> r_status row = ''DEAD_LETTERED'' \<and> parked D (t_queues s') row \<or>
       crashed D s' row \<or> r_status row = ''PENDING'' \<and> r_id row \<in> set (t_lost s)))"
proof (intro conjI impI ballI)
  note r = serves_reach [OF assms(3,2)]
  show "n \<le> work_left D s" using serves_bounded [OF assms(3,1,2)] by simp
  show "\<exists>m s''. serves P F D m s' s'' \<and> at_rest D s''" by (rule rest_is_reached [OF assms(1,4) r])
  fix row assume "at_rest D s'" "row \<in> set (notifications (t_db s'))"
  then show "r_status row = ''SENT'' \<or> r_status row = ''DEAD_LETTERED'' \<and> parked D (t_queues s') row \<or>
      crashed D s' row \<or> r_status row = ''PENDING'' \<and> r_id row \<in> set (t_lost s)"
    by (rule rest_outcomes [OF assms(1-3)])
qed

theorem service_comes_to_rest_witness:
  "\<exists>n s'. serves UNIV UNIV sample_deployment n sample_race s' \<and> at_rest sample_deployment s' \<and>
     n \<le> work_left sample_deployment sample_race \<and>
     (\<forall>row\<in>set (notifications (t_db s')). r_status row = ''SENT'' \<or> r_status row = ''DEAD_LETTERED'' \<or>
        crashed sample_deployment s' row)"
proof -
  note rest = service_comes_to_rest [OF deployable_sample sample_race_reachable _ UNIV_I]
  obtain n s' where n: "serves UNIV UNIV sample_deployment n sample_race s'" "at_rest sample_deployment s'"
    using rest [OF serves.start] by blast
  have "t_lost sample_race = []" by (simp add: sample_race_def sample_start_def)
  with rest [OF n(1)] n show ?thesis by (intro exI [of _ n] exI [of _ s']) auto
qed

end
