(* ===== verification/Orphans.thy ===== *)
theory Orphans
  imports Races
begin

text \<open>
  What becomes of a notification that no message is about any more. Nothing in the program
  reads the outbox, so only a repetition of its submission can bring it back: until an HTTP
  thread has read it again its row stays exactly as it is.
\<close>

section \<open>Orphans\<close>

definition mentions :: "'j deployment \<Rightarrow> string \<Rightarrow> string \<Rightarrow> bool" where
  "mentions D body nid \<longleftrightarrow> (\<exists>a p. decode (dp_json D) body = Inr (nid, a, p))"

text \<open>No queue that leads to a worker holds a message about it, and no worker has taken one.\<close>

definition clean :: "'j deployment \<Rightarrow> string \<Rightarrow> (string \<Rightarrow> string list) \<Rightarrow> bool" where
  "clean D nid Q \<longleftrightarrow> (\<forall>ch q body. live D ch q \<longrightarrow> body \<in> set (Q q) \<longrightarrow> \<not> mentions D body nid)"

definition idle :: "'j deployment \<Rightarrow> string \<Rightarrow> (nat \<Rightarrow> worker_slot) \<Rightarrow> bool" where
  "idle D nid W \<longleftrightarrow> (\<forall>i ch body tag pc. W i = Busy ch body tag pc \<longrightarrow> \<not> mentions D body nid)"

definition orphaned :: "'j deployment \<Rightarrow> string \<Rightarrow> tsys \<Rightarrow> bool" where
  "orphaned D nid s \<longleftrightarrow> clean D nid (t_queues s) \<and> idle D nid (t_workers s)"

text \<open>An HTTP thread holds it, ready to announce it.\<close>

definition obtained :: "string \<Rightarrow> tsys \<Rightarrow> bool" where
  "obtained nid s \<longleftrightarrow> (\<exists>i m. t_posts s i = Stored m \<and> n_id m = nid)"

text \<open>A step after which no HTTP thread holds it.\<close>

definition aloof_step :: "'j deployment \<Rightarrow> string \<Rightarrow> tsys \<Rightarrow> tsys \<Rightarrow> bool" where
  "aloof_step D nid s s' \<longleftrightarrow> tsys_step D s s' \<and> \<not> obtained nid s'"

lemma cleanD: "clean D nid Q \<Longrightarrow> live D ch q \<Longrightarrow> body \<in> set (Q q) \<Longrightarrow> \<not> mentions D body nid"
  unfolding clean_def by blast

lemma clean_less: "clean D nid Q \<Longrightarrow> (\<And>q. set (Q' q) \<subseteq> set (Q q)) \<Longrightarrow> clean D nid Q'"
  unfolding clean_def by blast

lemma clean_put:
  assumes "clean D nid Q" "\<And>ch. live D ch q \<Longrightarrow> \<not> mentions D b nid"
  shows "clean D nid (put b q Q)"
  using assms unfolding clean_def put_def by (auto split: if_splits)

lemma clean_cons: "clean D nid Q \<Longrightarrow> \<not> mentions D b nid \<Longrightarrow> clean D nid (Q(q := b # Q q))"
  unfolding clean_def by (auto split: if_splits)

lemma idle_upd: "idle D nid W \<Longrightarrow> (\<And>ch body tag pc. x = Busy ch body tag pc \<Longrightarrow> \<not> mentions D body nid) \<Longrightarrow>
  idle D nid (W(i := x))"
  unfolding idle_def by (auto split: if_splits)

section \<open>No step brings it back\<close>

lemma outgoing_clean:
  assumes dep: "deployable D" and Q: "clean D nid Q" and good: "good_msg D d ch body"
    and m: "\<not> mentions D body nid" and out: "outgoing (dp_json D) ch (dp_config D) body ops"
  shows "clean D nid (broker_ops (routes D) ops Q)"
proof -
  have b: "broker_laws (dp_route D)" and laws: "json_laws (dp_json D)"
    and rng: "maxRetries (dp_config D) \<le> int (length (retryDelaysMs (dp_config D)))"
      "int32_range (maxRetries (dp_config D) + 1)"
    using dep by (simp_all add: deployable_def)
  consider "ops = []" | "ops = [Publish '''' (dlq ch) (dlq_message body)]"
    | nid' a p op where "decode (dp_json D) body = Inr (nid', a, p)" "ops = [op]"
        "is_retry (dp_json D) ch (dp_config D) nid' a p op"
    using out unfolding outgoing_def by blast
  then show ?thesis
  proof cases
    case 2
    then have "broker_ops (routes D) ops Q = put body (dlq ch) Q"
      using route_queue(1) [OF b] by (simp add: dlq_message_def)
    then show ?thesis using clean_put [OF Q] m by simp
  next
    case (3 nid' a p op)
    then obtain payload where pay: "j_dump (dp_json D) (retryBody (dp_json D) nid' a p) = Inr payload"
      "op = Publish '''' (retryQueue ch a) (message payload p)" "a \<le> maxRetries (dp_config D)"
      by (auto simp: is_retry_def)
    have a: "1 \<le> a" using good 3(1) by (auto simp: good_msg_def)
    have l: "live D ch (retryQueue ch a)" using a pay(3) rng(1) by simp
    have "int32_range (a + 1)" using a pay(3) rng(2) by (simp add: int32_range_def)
    then have "decode (dp_json D) payload = Inr (nid', a + 1, p)"
      using decode_delivery [OF laws] pay(1) unfolding retryBody_fields by blast
    then have "\<not> mentions D payload nid" using m 3(1) by (simp add: mentions_def)
    then have "clean D nid (put payload (retryQueue ch a) Q)" by (intro clean_put [OF Q])
    then show ?thesis
      using route_queue(2) [OF b l] by (simp add: 3(2) pay(2) message_def)
  qed (use Q in simp)
qed

text \<open>A handler of another notification's message does not touch the row.\<close>

lemma handler_other_row:
  assumes core: "core_inv D s" and good: "good_msg D (t_db s) ch body"
    and ok: "pc_ok (dp_json D) (dp_config D) parked' body pc"
    and V: "we_db V = dp_db D" "we_json V = dp_json D"
    and h: "handler_step V ch (dp_config D) body tag pc \<lparr>w_db = t_db s, w_router = t_router s, w_ops = []\<rparr> = (pc', w')"
    and row: "row \<in> set (notifications (t_db s))" and m: "\<not> mentions D body (r_id row)"
  shows "row \<in> set (notifications (w_db w'))"
proof -
  obtain nid a p row0 where dec: "decode (dp_json D) body = Inr (nid, a, p)"
    and row0: "row0 \<in> set (notifications (t_db s))" "r_id row0 = nid"
    using good by (auto simp: good_msg_def)
  have "touched (dp_db D) nid (t_db s) (w_db w')"
    using handler_step_touches [OF h] ok dec V by simp
  then obtain row' where row': "row' \<in> set (notifications (w_db w'))" "row_touch (dp_db D) nid row row'"
    using list_all2_left [OF _ row] unfolding touched_def by blast
  have "\<not> same_key (dp_db D) (r_id row) nid"
    using key_inv_unique [OF core_invD(2) [OF core] row row0(1)] row0(2) dec m by (auto simp: mentions_def)
  with row' show ?thesis by (simp add: row_touch_def)
qed

lemma work_other_row:
  assumes core: "core_inv D s" and w: "t_workers s i = Busy ch body tag pc"
    and V: "we_db V = dp_db D" "we_json V = dp_json D"
    and h: "handler_step V ch (dp_config D) body tag pc \<lparr>w_db = t_db s, w_router = t_router s, w_ops = []\<rparr> = (pc', w')"
    and row: "row \<in> set (notifications (t_db s))" and m: "\<not> mentions D body (r_id row)"
  shows "row \<in> set (notifications (w_db w'))"
  using handler_other_row [OF core _ _ V h row m] workers_okD [OF core_invD(4) [OF core] w] by blast

lemma orphan_work:
  assumes dep: "deployable D" and core: "core_inv D s" and orph: "orphaned D nid s"
    and w: "t_workers s i = Busy ch body tag pc" and V: "we_db V = dp_db D" "we_json V = dp_json D"
    and h: "handler_step V ch (dp_config D) body tag pc \<lparr>w_db = t_db s, w_router = t_router s, w_ops = []\<rparr> = (pc', w')"
  shows "clean D nid (broker_ops (routes D) (w_ops w') (t_queues s))"
    and "idle D nid ((t_workers s)(i := (if Ack tag \<in> set (w_ops w') then Free else Busy ch body tag pc')))"
proof -
  note I = core_invD [OF core]
  have good: "good_msg D (t_db s) ch body"
    and ok: "pc_ok (we_json V) (dp_config D) (body \<in> set (t_queues s (dlq ch))) body pc"
    using workers_okD [OF I(4) w] V by simp_all
  have m: "\<not> mentions D body nid" using orph w unfolding orphaned_def idle_def by blast
  have c: "clean D nid (t_queues s)" using orph by (simp add: orphaned_def)
  have "w_ops w' = [Ack tag] \<or> outgoing (we_json V) ch (dp_config D) body (w_ops w')"
    using handler_step_emits [OF h ok] by auto
  then show "clean D nid (broker_ops (routes D) (w_ops w') (t_queues s))"
    using outgoing_clean [OF dep c good m] c V by auto
  show "idle D nid ((t_workers s)(i := (if Ack tag \<in> set (w_ops w') then Free else Busy ch body tag pc')))"
    using orph m by (intro idle_upd) (auto simp: orphaned_def split: if_splits)
qed

lemma orphan_publish:
  assumes dep: "deployable D" and c: "clean D nid Q" and n: "n_id m \<noteq> nid"
    and msg: "j_dump (dp_json D) (deliveryMessage (dp_json D) m) = Inr msg"
  shows "clean D nid (broker_op (routes D) (Publish exchangeName (routingKey (n_channel m)) (message msg pr)) Q)"
proof -
  have b: "broker_laws (dp_route D)" and laws: "json_laws (dp_json D)" using dep by (simp_all add: deployable_def)
  have "\<not> mentions D msg nid"
    using decode_deliveryMessage [OF laws msg] n by (simp add: mentions_def)
  then have "clean D nid (put msg (mainQueue (n_channel m)) Q)" by (intro clean_put [OF c])
  then show ?thesis using route_queue(3) [OF b] by (simp add: message_def)
qed

lemma orphan_expire:
  assumes dep: "deployable D" and c: "clean D nid Q" and q: "Q q = xs @ body # ys"
    and t: "dead_letter_target (declareAll (dp_config D)) q = Some (x, k)"
  shows "clean D nid (broker_op (routes D) (Publish x k (newEnvelope body)) (Q(q := xs @ ys)))"
proof -
  obtain ch a where a: "1 \<le> a" "a \<le> int (length (retryDelaysMs (dp_config D)))" "q = retryQueue ch a"
    and x: "x = exchangeName" "k = routingKey ch"
    using rung_of_target [OF t] by blast
  have "live D ch q" using a by simp
  then have m: "\<not> mentions D body nid" by (rule cleanD [OF c]) (simp add: q)
  have "clean D nid (Q(q := xs @ ys))" by (rule clean_less [OF c]) (rule take_less [where Q = Q, OF q])
  then have "clean D nid (put body (mainQueue ch) (Q(q := xs @ ys)))" using m by (intro clean_put)
  moreover have "broker_laws (dp_route D)" using dep by (simp add: deployable_def)
  ultimately show ?thesis using route_queue(3) [of D ch] by (simp add: x newEnvelope_def)
qed

lemma orphan_step:
  assumes dep: "deployable D" and core: "core_inv D s" and orph: "orphaned D nid s" and "\<not> obtained nid s"
    and step: "tsys_step D s s'"
  shows "orphaned D nid s'"
  using step
proof cases
  case (take_message ch xs body ys i tag)
  have c: "clean D nid (t_queues s)" and w: "idle D nid (t_workers s)" using orph by (simp_all add: orphaned_def)
  have "\<not> mentions D body nid"
    by (rule cleanD [OF c, of ch "mainQueue ch"]) (simp_all add: take_message)
  then have "idle D nid ((t_workers s)(i := Busy ch body tag Begin))" by (intro idle_upd [OF w]) simp
  moreover have "clean D nid ((t_queues s)(mainQueue ch := xs @ ys))"
    by (rule clean_less [OF c]) (rule take_less [where Q = "t_queues s", OF take_message(2)])
  ultimately show ?thesis by (simp add: orphaned_def take_message(1))
next
  case work
  then show ?thesis using orphan_work [OF dep core orph] by (simp add: orphaned_def)
next
  case (worker_dies i ch body tag pc)
  then have m: "\<not> mentions D body nid" using orph unfolding orphaned_def idle_def by blast
  then have "clean D nid ((t_queues s)(mainQueue ch := body # t_queues s (mainQueue ch)))"
    using orph by (intro clean_cons) (simp_all add: orphaned_def)
  moreover have "idle D nid ((t_workers s)(i := Free))"
    using orph by (intro idle_upd) (simp_all add: orphaned_def)
  ultimately show ?thesis by (simp add: orphaned_def worker_dies(1))
next
  case (publish i m msg)
  then have "n_id m \<noteq> nid" using assms(4) by (auto simp: obtained_def)
  with publish show ?thesis
    using orph orphan_publish [OF dep] by (simp add: orphaned_def del: broker_op.simps)
next
  case expire
  then show ?thesis using orph orphan_expire [OF dep] by (simp add: orphaned_def del: broker_op.simps)
qed (use orph in \<open>simp_all add: orphaned_def\<close>)

lemma orphan_row:
  assumes "deployable D" "core_inv D s" "orphaned D (r_id row) s" "tsys_step D s s'"
    and row: "row \<in> set (notifications (t_db s))"
  shows "row \<in> set (notifications (t_db s'))"
  using assms(4)
proof cases
  case (work i ch body tag pc V pc' w')
  then have "\<not> mentions D body (r_id row)" using assms(3) unfolding orphaned_def idle_def by blast
  then show ?thesis using work_other_row [OF assms(2) _ _ _ _ row] work by simp
next
  case (check i n r d')
  then show ?thesis using row findByIdempotencyKey_state [of "dp_db D" "n_idempotencyKey n" "t_db s"] by simp
next
  case (insert i n u r d')
  then show ?thesis using row insertTransaction_outcome [OF insert(4)]
    by (auto simp: Let_def same_tables_def with_inserted_def)
qed (use row in simp_all)

section \<open>A submission whose thread dies\<close>

text \<open>The first submission of \<open>Races\<close>, up to the commit, and then the HTTP thread dies.\<close>

definition sample_lost :: tsys where
  "sample_lost = (sample_start (\<lambda>_. []) (\<lambda>_. Free))\<lparr>t_lost := [n_id sample_saved]\<rparr>"

lemma sample_lost_reachable: "tsys_reach sample_deployment sample_lost"
proof -
  have "tsys_step sample_deployment sample_committed (sample_committed\<lparr>t_posts := (t_posts sample_committed)(0 := NoPost),
      t_lost := n_id sample_saved # t_lost sample_committed\<rparr>)" (is "tsys_step _ _ ?s")
    using tsys_step.post_dies [of sample_committed 0 "Stored sample_saved" sample_deployment]
    by (simp add: sample_committed_def)
  moreover have "?s = sample_lost"
    by (rule tsys.equality) (auto simp: sample_committed_def sample_lost_def sample_start_def)
  ultimately show ?thesis using tsys_reach.step [OF sample_committed_reachable] by simp
qed

lemma orphan_run:
  assumes "deployable D" "core_inv D s" "row \<in> set (notifications (t_db s))"
    and "orphaned D (r_id row) s" "\<not> obtained (r_id row) s"
    and "(aloof_step D (r_id row))\<^sup>*\<^sup>* s s'"
  shows "row \<in> set (notifications (t_db s')) \<and> orphaned D (r_id row) s'"
proof -
  from assms(6) have "core_inv D s' \<and> \<not> obtained (r_id row) s' \<and> row \<in> set (notifications (t_db s')) \<and>
      orphaned D (r_id row) s'"
  proof (induction rule: rtranclp_induct)
    case base
    show ?case using assms(2-5) by simp
  next
    case (step t u)
    then have t: "core_inv D t" "\<not> obtained (r_id row) t" "row \<in> set (notifications (t_db t))"
      "orphaned D (r_id row) t" and u: "tsys_step D t u" "\<not> obtained (r_id row) u"
      by (simp_all add: aloof_step_def)
    have "core_inv D u" using accounts_step [OF assms(1) t(1) u(1)] by (simp add: accounts_def)
    then show ?case
      using orphan_row [OF assms(1) t(1,4) u(1) t(3)] orphan_step [OF assms(1) t(1,4,2) u(1)] u(2) by simp
  qed
  then show ?thesis by simp
qed

section \<open>Properties\<close>

text \<open>C13: what the outbox does not save. Let no message on the way to a worker and no worker be
  about a notification, in any reachable state: its announcement was lost with the thread that
  had committed it, or was never published. Then whatever the threads, the broker and the
  environment do, for as long as no HTTP thread reads the notification again (its submission
  is not repeated), its row stays exactly the same, status and attempt count included, and no
  message about it appears. The event that lies in the outbox for it changes nothing.\<close>

theorem orphan_stays:
  assumes "deployable D" "tsys_reach D s" "row \<in> set (notifications (t_db s))"
    and "orphaned D (r_id row) s" "\<not> obtained (r_id row) s"
    and "(aloof_step D (r_id row))\<^sup>*\<^sup>* s s'"
  shows "row \<in> set (notifications (t_db s')) \<and> orphaned D (r_id row) s'"
proof -
  have "core_inv D s" using tsys_inv_reach [OF assms(2,1)] by (simp add: tsys_inv_def)
  from orphan_run [OF assms(1) this assms(3-6)] show ?thesis .
qed

theorem orphan_stays_witness:
  "\<exists>s e. tsys_reach sample_deployment s \<and> outbox_events (t_db s) = [e] \<and> o_status e = ''PENDING'' \<and>
     (\<forall>s'. (aloof_step sample_deployment (n_id sample_saved))\<^sup>*\<^sup>* s s' \<longrightarrow>
        inserted_row sample_saved 0 \<in> set (notifications (t_db s')))"
proof -
  let ?row = "inserted_row sample_saved 0"
  have m: "?row \<in> set (notifications (t_db sample_lost))"
    by (simp add: sample_lost_def sample_start_def sample_db_def)
  have id: "r_id ?row = n_id sample_saved" by (simp add: inserted_row_def newRow_def)
  have o: "orphaned sample_deployment (r_id ?row) sample_lost" "\<not> obtained (r_id ?row) sample_lost"
    by (simp_all add: orphaned_def clean_def idle_def obtained_def sample_lost_def sample_start_def)
  note stays = orphan_stays [OF deployable_sample sample_lost_reachable m o, unfolded id]
  have "\<exists>e. outbox_events (t_db sample_lost) = [e] \<and> o_status e = ''PENDING''"
    by (simp add: sample_lost_def sample_start_def sample_db_def inserted_event_def)
  then show ?thesis using stays sample_lost_reachable by blast
qed

end
