(* ===== verification/Connections.thy ===== *)
theory Connections
  imports Orphans
begin

text \<open>
  Lost connections. When a worker's connection to the broker breaks while its handler is
  waiting for the provider or the database, the broker takes the message back and gives it to
  another worker, but the handler does not notice: it goes on with its statements, and what it
  publishes or acknowledges on the dead channel goes nowhere (the error callbacks of
  Worker.cpp only log). This theory adds such detached handlers to the interleaved system.
\<close>

section \<open>States and steps\<close>

text \<open>
  \<open>z_sent\<close> is a ghost: the notifications that have been SENT at some time. A slot freed by
  \<open>connection_lost\<close> stands for another worker's; the one that lost its connection never
  reconnects.
\<close>

record zsys =
  z_sys :: tsys
  z_zombies :: "nat \<Rightarrow> worker_slot"
  z_sent :: "string list"

definition sent_ids :: "database \<Rightarrow> string list" where
  "sent_ids d = map r_id (filter (\<lambda>r. r_status r = ''SENT'') (notifications d))"

definition with_sys :: "tsys \<Rightarrow> zsys \<Rightarrow> zsys" where
  "with_sys s z = z\<lparr>z_sys := s, z_sent := z_sent z @ sent_ids (t_db s)\<rparr>"

inductive zsys_step :: "'j deployment \<Rightarrow> zsys \<Rightarrow> zsys \<Rightarrow> bool" for D where
  attached: "tsys_step D (z_sys z) s' \<Longrightarrow> zsys_step D z (with_sys s' z)"
| connection_lost: "z_sys z = s \<Longrightarrow> t_workers s i = Busy ch body tag pc \<Longrightarrow> z_zombies z j = Free \<Longrightarrow>
    zsys_step D z (with_sys
      (s\<lparr>t_queues := (t_queues s)(mainQueue ch := body # t_queues s (mainQueue ch)),
         t_workers := (t_workers s)(i := Free)\<rparr>)
      (z\<lparr>z_zombies := (z_zombies z)(j := Busy ch body tag pc)\<rparr>))"
| detached: "z_sys z = s \<Longrightarrow> z_zombies z j = Busy ch body tag pc \<Longrightarrow>
    we_db V = dp_db D \<Longrightarrow> we_json V = dp_json D \<Longrightarrow>
    handler_step V ch (dp_config D) body tag pc \<lparr>w_db = t_db s, w_router = t_router s, w_ops = []\<rparr> = (pc', w') \<Longrightarrow>
    zsys_step D z (with_sys (s\<lparr>t_db := w_db w', t_router := w_router w'\<rparr>)
      (z\<lparr>z_zombies := (z_zombies z)(j := Busy ch body tag pc')\<rparr>))"
| zombie_ends: "zsys_step D z (z\<lparr>z_zombies := (z_zombies z)(j := Free)\<rparr>)"

definition zsys_init :: "'j deployment \<Rightarrow> zsys" where
  "zsys_init D = \<lparr>z_sys = tsys_init D, z_zombies = (\<lambda>_. Free), z_sent = []\<rparr>"

inductive zsys_reach :: "'j deployment \<Rightarrow> zsys \<Rightarrow> bool" for D where
  init: "zsys_reach D (zsys_init D)"
| step: "zsys_reach D z \<Longrightarrow> zsys_step D z z' \<Longrightarrow> zsys_reach D z'"

lemma with_sys_simps [simp]:
  "z_sys (with_sys s z) = s" "z_zombies (with_sys s z) = z_zombies z"
  "z_sent (with_sys s z) = z_sent z @ sent_ids (t_db s)"
  by (simp_all add: with_sys_def)

section \<open>The invariant\<close>

definition zombies_ok :: "'j deployment \<Rightarrow> database \<Rightarrow> (nat \<Rightarrow> worker_slot) \<Rightarrow> bool" where
  "zombies_ok D d Z \<longleftrightarrow> (\<forall>j ch body tag pc. Z j = Busy ch body tag pc \<longrightarrow>
     good_msg D d ch body \<and> pc_ok (dp_json D) (dp_config D) True body pc)"

text \<open>The account of a row, now independent of what its status says.\<close>

definition zrow_ok :: "'j deployment \<Rightarrow> tsys \<Rightarrow> string list \<Rightarrow> notification_row \<Rightarrow> bool" where
  "zrow_ok D s S row \<longleftrightarrow>
     r_status row \<in> {''PENDING'', ''PROCESSING'', ''SENT'', ''DEAD_LETTERED''} \<and>
     (r_status row = ''SENT'' \<longrightarrow> r_id row \<in> set S) \<and>
     (r_id row \<in> set S \<or> waiting D (t_queues s) row \<or> answered D (t_workers s) row \<or>
      parked D (t_queues s) row \<or> unannounced (t_posts s) (t_lost s) row)"

definition zsys_inv :: "'j deployment \<Rightarrow> zsys \<Rightarrow> bool" where
  "zsys_inv D z \<longleftrightarrow> core_inv D (z_sys z) \<and> zombies_ok D (t_db (z_sys z)) (z_zombies z) \<and>
     (\<forall>row\<in>set (notifications (t_db (z_sys z))). zrow_ok D (z_sys z) (z_sent z) row)"

lemma sent_idsI: "row \<in> set (notifications d) \<Longrightarrow> r_status row = ''SENT'' \<Longrightarrow> r_id row \<in> set (sent_ids d)"
  by (simp add: sent_ids_def)

lemma zombies_ok_upd:
  assumes "zombies_ok D d Z" "keeps_rows d d'"
    and "\<And>ch body tag pc. x = Busy ch body tag pc \<Longrightarrow>
      good_msg D d' ch body \<and> pc_ok (dp_json D) (dp_config D) True body pc"
  shows "zombies_ok D d' (Z(j := x))"
  using assms(1,3) unfolding zombies_ok_def
  by (auto split: if_splits intro: good_msg_rows [OF _ assms(2)])

lemma zombies_ok_rows: "zombies_ok D d Z \<Longrightarrow> keeps_rows d d' \<Longrightarrow> zombies_ok D d' Z"
  unfolding zombies_ok_def using good_msg_rows by blast

lemma zombies_okD:
  "zombies_ok D d Z \<Longrightarrow> Z j = Busy ch body tag pc \<Longrightarrow>
   good_msg D d ch body \<and> pc_ok (dp_json D) (dp_config D) True body pc"
  unfolding zombies_ok_def by blast

text \<open>A step of the attached part keeps the rows that there are.\<close>

lemma step_keeps:
  assumes "core_inv D s" "tsys_step D s s'" shows "keeps_rows (t_db s) (t_db s')"
  using assms(2)
proof cases
  case (work i ch body tag pc V pc' w')
  note I = core_invD [OF assms(1)]
  have good: "good_msg D (t_db s) ch body"
    and ok: "pc_ok (we_json V) (dp_config D) (body \<in> set (t_queues s (dlq ch))) body pc"
    using workers_okD [OF I(4) work(2)] work(3,4) by simp_all
  then obtain nid a p where "decode (we_json V) body = Inr (nid, a, p)" using work(4) by (auto simp: good_msg_def)
  from touched_keeps [OF handler_step_touches [OF work(5) ok this]] show ?thesis by (simp add: work(1))
next
  case (check i n r d')
  then show ?thesis using findByIdempotencyKey_state [of "dp_db D" "n_idempotencyKey n" "t_db s"]
    by (auto simp: keeps_rows_def)
next
  case (insert i n u r d')
  then show ?thesis using insertTransaction_outcome [OF insert(4)]
    by (auto simp: Let_def same_tables_def with_inserted_def keeps_rows_def)
qed (auto simp: keeps_rows_def)

lemma zrow_follows:
  assumes "accounted D s s' row'" "row' \<in> set (notifications (t_db s'))"
    and "\<And>row. row \<in> set (notifications (t_db s)) \<Longrightarrow> zrow_ok D s S row"
  shows "zrow_ok D s' (S @ sent_ids (t_db s')) row'"
proof -
  note sent = sent_idsI [OF assms(2)]
  consider "r_status row' = ''PENDING''" "unannounced (t_posts s') (t_lost s') row'"
    | row where "row \<in> set (notifications (t_db s))" "follows D s s' row row'"
    using assms(1) unfolding accounted_def by blast
  then show ?thesis
  proof cases
    case 1
    then show ?thesis by (simp add: zrow_ok_def)
  next
    case (2 row)
    have "zrow_ok D s S row" by (rule assms(3) [OF 2(1)])
    with 2(2) sent show ?thesis by (auto simp: zrow_ok_def follows_def settled_row_def)
  qed
qed

lemma zsys_inv_accounts:
  assumes inv: "zsys_inv D z" and acc: "accounts D (z_sys z) s'"
    and Z: "zombies_ok D (t_db s') Z"
  shows "zsys_inv D (with_sys s' (z\<lparr>z_zombies := Z\<rparr>))"
  using assms zrow_follows [of D "z_sys z" s' _ "z_sent z"]
  by (simp add: zsys_inv_def accounts_def)

text \<open>What a detached handler does to a row.\<close>

lemma zsys_inv_detached:
  assumes inv: "zsys_inv D z" and s: "z_sys z = s" and w: "z_zombies z j = Busy ch body tag pc"
    and V: "we_db V = dp_db D" "we_json V = dp_json D"
    and h: "handler_step V ch (dp_config D) body tag pc \<lparr>w_db = t_db s, w_router = t_router s, w_ops = []\<rparr> = (pc', w')"
  shows "zsys_inv D (with_sys (s\<lparr>t_db := w_db w', t_router := w_router w'\<rparr>)
      (z\<lparr>z_zombies := (z_zombies z)(j := Busy ch body tag pc')\<rparr>))"
proof -
  let ?s = "s\<lparr>t_db := w_db w', t_router := w_router w'\<rparr>"
  have core: "core_inv D s" and zok: "zombies_ok D (t_db s) (z_zombies z)"
    and rows: "\<And>row. row \<in> set (notifications (t_db s)) \<Longrightarrow> zrow_ok D s (z_sent z) row"
    using inv s by (simp_all add: zsys_inv_def)
  note I = core_invD [OF core]
  have good: "good_msg D (t_db s) ch body" and ok: "pc_ok (we_json V) (dp_config D) True body pc"
    using zombies_okD [OF zok w] V by simp_all
  obtain nid a p where dec: "decode (we_json V) body = Inr (nid, a, p)"
    using good V by (auto simp: good_msg_def)
  have t: "touched (we_db V) nid (t_db s) (w_db w')" using handler_step_touches [OF h ok dec] by simp
  have keeps: "keeps_rows (t_db s) (w_db w')" by (rule touched_keeps [OF t])
  have "core_inv D ?s"
    using schema_handler_step [OF h] I(1) V queues_good_rows [OF I(3) keeps]
      workers_ok_same [OF I(4) keeps] posts_ok_same [OF I(5) keeps]
    by (simp add: core_inv_def)
  moreover have "pc_ok (dp_json D) (dp_config D) True body pc'"
    using handler_step_ok [OF h ok dec, of True] V by simp
  then have "zombies_ok D (w_db w') ((z_zombies z)(j := Busy ch body tag pc'))"
    by (intro zombies_ok_upd [OF zok keeps]) (use good_msg_rows [OF good keeps] in auto)
  moreover have "zrow_ok D ?s (z_sent z @ sent_ids (w_db w')) row'" if row': "row' \<in> set (notifications (w_db w'))" for row'
  proof -
    obtain row where row: "row \<in> set (notifications (t_db s))" "row_touch (we_db V) nid row row'"
      using touched_back [OF t row'] by blast
    have id: "r_id row' = r_id row" "r_channel row' = r_channel row" using row(2) by (simp_all add: row_touch_def)
    have "r_status row' \<in> {r_status row, ''PROCESSING'', ''SENT'', ''DEAD_LETTERED''}"
      using row(2) by (simp add: row_touch_def)
    with rows [OF row(1)] sent_idsI [OF row'] show ?thesis
      by (auto simp: zrow_ok_def same_ids [OF id] id(1))
  qed
  ultimately show ?thesis by (simp add: zsys_inv_def)
qed

lemma zsys_inv_step:
  assumes dep: "deployable D" and inv: "zsys_inv D z" and step: "zsys_step D z z'"
  shows "zsys_inv D z'"
  using step
proof cases
  case (attached s')
  have core: "core_inv D (z_sys z)" using inv by (simp add: zsys_inv_def)
  have "zombies_ok D (t_db s') (z_zombies z)"
    using inv zombies_ok_rows step_keeps [OF core attached(2)] by (auto simp: zsys_inv_def)
  from zsys_inv_accounts [OF inv accounts_step [OF dep core attached(2)] this] show ?thesis
    by (simp add: attached(1))
next
  case (connection_lost s i ch body tag pc j)
  let ?s' = "s\<lparr>t_queues := (t_queues s)(mainQueue ch := body # t_queues s (mainQueue ch)),
      t_workers := (t_workers s)(i := Free)\<rparr>"
  have core: "core_inv D s" and zok: "zombies_ok D (t_db s) (z_zombies z)"
    using inv connection_lost(2) by (simp_all add: zsys_inv_def)
  have "tsys_step D s ?s'" by (rule tsys_step.worker_dies [OF connection_lost(3)])
  then have "accounts D (z_sys z) ?s'" using accounts_step [OF dep core] connection_lost(2) by simp
  moreover have "zombies_ok D (t_db ?s') ((z_zombies z)(j := Busy ch body tag pc))"
    using workers_okD [OF core_invD(4) [OF core] connection_lost(3)]
    by (intro zombies_ok_upd [OF zok]) (auto intro: pc_ok_mono)
  ultimately show ?thesis unfolding connection_lost(1) by (rule zsys_inv_accounts [OF inv])
next
  case detached
  then show ?thesis using zsys_inv_detached [OF inv] by simp
next
  case (zombie_ends j)
  then show ?thesis using inv by (auto simp: zsys_inv_def zombies_ok_def)
qed

lemma zsys_inv_reach: "zsys_reach D z \<Longrightarrow> deployable D \<Longrightarrow> zsys_inv D z"
proof (induction rule: zsys_reach.induct)
  case init
  have "core_inv D (tsys_init D)" by (rule core_inv_init)
  then show ?case by (simp add: zsys_inv_def zsys_init_def zombies_ok_def) (simp add: tsys_init_def db_empty_def)
qed (auto intro: zsys_inv_step)

section \<open>A row that no handler is about any more\<close>

text \<open>Any step of the system, those of detached handlers included, after which no HTTP thread holds
  the notification.\<close>

definition aloof_zstep :: "'j deployment \<Rightarrow> string \<Rightarrow> zsys \<Rightarrow> zsys \<Rightarrow> bool" where
  "aloof_zstep D nid z z' \<longleftrightarrow> zsys_step D z z' \<and> \<not> obtained nid (z_sys z')"

text \<open>No message on its way, no attached and no detached handler is about it.\<close>

definition forgotten :: "'j deployment \<Rightarrow> string \<Rightarrow> zsys \<Rightarrow> bool" where
  "forgotten D nid z \<longleftrightarrow> orphaned D nid (z_sys z) \<and> idle D nid (z_zombies z)"

lemma forgotten_step:
  assumes dep: "deployable D" and inv: "zsys_inv D z" and row: "row \<in> set (notifications (t_db (z_sys z)))"
    and f: "forgotten D (r_id row) z" and ob: "\<not> obtained (r_id row) (z_sys z)" and step: "zsys_step D z z'"
  shows "row \<in> set (notifications (t_db (z_sys z'))) \<and> forgotten D (r_id row) z'"
proof -
  have core: "core_inv D (z_sys z)" and zok: "zombies_ok D (t_db (z_sys z)) (z_zombies z)"
    using inv by (simp_all add: zsys_inv_def)
  have orph: "orphaned D (r_id row) (z_sys z)" and quiet: "idle D (r_id row) (z_zombies z)"
    using f by (simp_all add: forgotten_def)
  have att: "row \<in> set (notifications (t_db s')) \<and> orphaned D (r_id row) s'" if "tsys_step D (z_sys z) s'" for s'
    using orphan_row [OF dep core orph that row] orphan_step [OF dep core orph ob that] by simp
  from step show ?thesis
  proof cases
    case (attached s')
    then show ?thesis using att quiet by (simp add: forgotten_def)
  next
    case (connection_lost s i ch body tag pc j)
    have "\<not> mentions D body (r_id row)"
      using orph connection_lost(2,3) unfolding orphaned_def idle_def by blast
    then have "idle D (r_id row) ((z_zombies z)(j := Busy ch body tag pc))" by (intro idle_upd [OF quiet]) simp
    moreover have "tsys_step D (z_sys z) (s\<lparr>t_queues := (t_queues s)(mainQueue ch := body # t_queues s (mainQueue ch)),
        t_workers := (t_workers s)(i := Free)\<rparr>)"
      unfolding connection_lost(2) by (rule tsys_step.worker_dies [OF connection_lost(3)])
    ultimately show ?thesis using att row by (auto simp: forgotten_def connection_lost(1,2))
  next
    case (detached s j ch body tag pc V pc' w')
    have m: "\<not> mentions D body (r_id row)" using quiet detached(3) unfolding idle_def by blast
    have "good_msg D (t_db s) ch body" "pc_ok (dp_json D) (dp_config D) True body pc"
      using zombies_okD [OF zok detached(3)] detached(2) by simp_all
    then have "row \<in> set (notifications (w_db w'))"
      using handler_other_row [OF _ _ _ detached(4-6) _ m] core row detached(2) by blast
    moreover have "idle D (r_id row) ((z_zombies z)(j := Busy ch body tag pc'))" using m by (intro idle_upd [OF quiet]) simp
    ultimately show ?thesis using orph by (simp add: forgotten_def orphaned_def detached(1) detached(2) [symmetric])
  next
    case (zombie_ends j)
    then show ?thesis using row orph idle_upd [OF quiet, of Free j] by (simp add: forgotten_def)
  qed
qed

lemma forgotten_run:
  assumes "(aloof_zstep D (r_id row))\<^sup>*\<^sup>* z z'" "deployable D" "zsys_inv D z"
    and "row \<in> set (notifications (t_db (z_sys z)))" "forgotten D (r_id row) z" "\<not> obtained (r_id row) (z_sys z)"
  shows "row \<in> set (notifications (t_db (z_sys z'))) \<and> forgotten D (r_id row) z' \<and>
    zsys_inv D z' \<and> \<not> obtained (r_id row) (z_sys z')"
  using assms(1)
proof (induction rule: rtranclp_induct)
  case (step y z')
  then have "zsys_step D y z'" "\<not> obtained (r_id row) (z_sys z')" by (simp_all add: aloof_zstep_def)
  then show ?case
    using forgotten_step [OF assms(2)] zsys_inv_step [OF assms(2)] step.IH by blast
qed (use assms in simp)

section \<open>A run with a lost connection\<close>

text \<open>What the attached part does alone.\<close>

lemma attached_run:
  assumes "(tsys_step D)\<^sup>*\<^sup>* s s'" "z_sys z = s"
  shows "\<exists>z'. (zsys_step D)\<^sup>*\<^sup>* z z' \<and> z_sys z' = s' \<and> z_zombies z' = z_zombies z"
  using assms
proof (induction rule: rtranclp_induct)
  case base
  then show ?case by blast
next
  case (step t u)
  then obtain z' where z': "(zsys_step D)\<^sup>*\<^sup>* z z'" "z_sys z' = t" "z_zombies z' = z_zombies z" by blast
  have "zsys_step D z' (with_sys u z')" by (rule zsys_step.attached) (simp add: z'(2) step.hyps)
  with z' show ?case
    by (intro exI [of _ "with_sys u z'"]) (auto intro: rtranclp.rtrancl_into_rtrancl)
qed

lemma attached_reach:
  assumes "tsys_reach D s"
  shows "\<exists>z. zsys_reach D z \<and> z_sys z = s \<and> z_zombies z = (\<lambda>_. Free)"
  using assms
proof (induction rule: tsys_reach.induct)
  case init
  show ?case by (intro exI [of _ "zsys_init D"]) (simp add: zsys_reach.init, simp add: zsys_init_def)
next
  case (step s s')
  then obtain z where z: "zsys_reach D z" "z_sys z = s" "z_zombies z = (\<lambda>_. Free)" by blast
  have "zsys_step D z (with_sys s' z)" by (rule zsys_step.attached) (simp add: z(2) step.hyps)
  with z show ?case by (intro exI [of _ "with_sys s' z"]) (auto intro: zsys_reach.step)
qed

lemma zreach_run: "(zsys_step D)\<^sup>*\<^sup>* z z' \<Longrightarrow> zsys_reach D z \<Longrightarrow> zsys_reach D z'"
  by (induction rule: rtranclp_induct) (auto intro: zsys_reach.step)

text \<open>A worker that has claimed the notification delivers it, counts the attempt, acknowledges.\<close>

lemma worker_finishes:
  assumes "t_workers s i = Busy ch body tag (Claim nid a p n)" "calm D nid row s"
    and "0 \<le> a" "a \<le> int uint32_max" "r_attempt_count row < uint32_max"
    and "entries (t_router s) (int_of_Channel (n_channel n)) = Some e" "cb_state (e_breaker e) = Closed"
  shows "\<exists>s'. (tsys_step D)\<^sup>*\<^sup>* s s' \<and> calm D nid (bump_count (set_status Sent row)) s' \<and>
    t_workers s' = (t_workers s)(i := Free) \<and> t_queues s' = t_queues s \<and> t_posts s' = t_posts s"
proof -
  obtain s1 where s1: "(tsys_step D)\<^sup>*\<^sup>* s s1" "calm D nid (set_status Sent row) s1"
    "t_workers s1 = (t_workers s)(i := Busy ch body tag (Todo [Increment nid, AckMessage]))"
    "t_queues s1 = t_queues s" "t_posts s1 = t_posts s"
    by (rule worker_delivers [OF assms(1-4,6,7)]) (rule that, assumption+)
  have "\<exists>s'. moves (t_queues s1) D s1 i (Busy ch body tag (Todo [AckMessage])) (t_router s1) nid
      (bump_count (set_status Sent row)) s'"
    by (rule increment_moves [OF _ s1(2)]) (use s1(3) assms(5) in \<open>simp_all add: set_status_def\<close>)
  then obtain s2 where s2: "moves (t_queues s1) D s1 i (Busy ch body tag (Todo [AckMessage])) (t_router s1) nid
      (bump_count (set_status Sent row)) s2" by blast
  have "\<exists>s'. moves (t_queues s2) D s2 i Free (t_router s2) nid (bump_count (set_status Sent row)) s'"
    by (rule ack_moves) (use s2 in \<open>simp_all add: moves_def\<close>)
  then obtain s3 where s3: "moves (t_queues s2) D s2 i Free (t_router s2) nid (bump_count (set_status Sent row)) s3"
    by blast
  have "(tsys_step D)\<^sup>*\<^sup>* s s3" using s1(1) s2 s3 unfolding moves_def by (meson rtranclp_trans)
  then show ?thesis using s1 s2 s3 by (intro exI [of _ s3]) (simp add: moves_def)
qed

text \<open>The announced notification, and the worker that has looked it up.\<close>

definition sample_announced :: tsys where
  "sample_announced = sample_start (put (sample_body 1) (mainQueue Sms) (\<lambda>_. [])) (\<lambda>_. Free)"

definition sample_claimed :: "nat \<Rightarrow> tsys" where
  "sample_claimed tag = sample_start (\<lambda>_. []) ((\<lambda>_. Free)
     (0 := Busy Sms (sample_body 1) tag (Claim (n_id sample_saved) 1 5 sample_saved)))"

lemma sample_announced_claims: "(tsys_step sample_deployment)\<^sup>*\<^sup>* sample_announced (sample_claimed tag)"
proof -
  let ?D = sample_deployment and ?b = "sample_body 1" and ?q = "mainQueue Sms"
  let ?W = "(\<lambda>_::nat. Free)(0 := Busy Sms ?b tag Begin)"
  have q: "(put ?b ?q (\<lambda>_. []))(?q := [] @ []) = (\<lambda>_. [])" by (auto simp: put_def)
  have "tsys_step ?D sample_announced (sample_start (\<lambda>_. []) ?W)"
    using tsys_step.take_message [of sample_announced Sms "[]" ?b "[]" 0 ?D tag]
    unfolding sample_announced_def sample_start_def by (simp only: tsys.simps q fun_upd_apply) (simp add: put_def)
  moreover have "(tsys_step ?D)\<^sup>*\<^sup>* (sample_start (\<lambda>_. []) ?W) (sample_claimed tag)"
    using sample_claim [of "sample_start (\<lambda>_. []) ?W" 0 tag] by (simp add: sample_claimed_def sample_start_def)
  ultimately show ?thesis by (rule converse_rtranclp_into_rtranclp)
qed

lemma sample_finishes:
  "\<exists>s'. (tsys_step sample_deployment)\<^sup>*\<^sup>* (sample_claimed tag) s' \<and>
     calm sample_deployment (n_id sample_saved) (bump_count (set_status Sent (inserted_row sample_saved 0))) s' \<and>
     t_workers s' = (\<lambda>_. Free) \<and> t_queues s' = (\<lambda>_. []) \<and> t_posts s' = (\<lambda>_. NoPost)"
proof -
  let ?D = sample_deployment and ?s = "sample_claimed tag"
  have calm: "calm ?D (n_id sample_saved) (inserted_row sample_saved 0) ?s"
    using schema_inv_sample sample_tables(1) sample_stored_row(1)
    by (simp add: calm_def sample_claimed_def sample_start_def sample_deployment_def)
  have e: "entries (t_router ?s) (int_of_Channel (n_channel sample_saved)) =
      Some \<lparr>e_provider = MockSmsProvider, e_breaker = newBreaker 5 30000\<rparr>"
    using newRouter_entries [of 5 30000 Sms]
    by (simp add: sample_claimed_def sample_start_def sample_saved_def sample_notification_def)
  have w: "t_workers ?s 0 = Busy Sms (sample_body 1) tag (Claim (n_id sample_saved) 1 5 sample_saved)"
    by (simp add: sample_claimed_def sample_start_def)
  from worker_finishes [OF w calm _ _ _ e]
  obtain s' where "(tsys_step ?D)\<^sup>*\<^sup>* ?s s'"
    "calm ?D (n_id sample_saved) (bump_count (set_status Sent (inserted_row sample_saved 0))) s'"
    "t_workers s' = (t_workers ?s)(0 := Free)" "t_queues s' = t_queues ?s" "t_posts s' = t_posts ?s"
    by (auto simp: uint32_max_def newBreaker_def inserted_row_def newRow_def)
  then show ?thesis by (intro exI [of _ s']) (auto simp: sample_claimed_def sample_start_def)
qed

text \<open>The connection of the first worker breaks when it has looked the notification up; the
  message returns, is taken again and delivered.\<close>

lemma sample_zombie:
  "\<exists>z. zsys_reach sample_deployment z \<and>
     z_zombies z = (\<lambda>_. Free)(0 := Busy Sms (sample_body 1) 1 (Claim (n_id sample_saved) 1 5 sample_saved)) \<and>
     calm sample_deployment (n_id sample_saved) (bump_count (set_status Sent (inserted_row sample_saved 0))) (z_sys z) \<and>
     t_workers (z_sys z) = (\<lambda>_. Free) \<and> t_queues (z_sys z) = (\<lambda>_. []) \<and> t_posts (z_sys z) = (\<lambda>_. NoPost)"
proof -
  let ?D = sample_deployment and ?b = "sample_body 1" and ?q = "mainQueue Sms"
  let ?slot = "Busy Sms ?b 1 (Claim (n_id sample_saved) 1 5 sample_saved)"
  have "tsys_reach ?D (sample_claimed 1)"
    using reach_steps [OF sample_announced_claims] sample_first by (simp add: sample_announced_def)
  then obtain z1 where z1: "zsys_reach ?D z1" "z_sys z1 = sample_claimed 1" "z_zombies z1 = (\<lambda>_. Free)"
    using attached_reach by blast
  have eqs: "((\<lambda>_::nat. Free)(0 := ?slot))(0 := Free) = (\<lambda>_. Free)"
    "(\<lambda>_. [])(?q := [?b]) = put ?b ?q (\<lambda>_. [])"
    by (auto simp: put_def)
  have "zsys_step ?D z1 (with_sys sample_announced (z1\<lparr>z_zombies := (\<lambda>_. Free)(0 := ?slot)\<rparr>))"
    (is "zsys_step ?D z1 ?z2")
    using zsys_step.connection_lost [OF z1(2), of 0 Sms ?b 1 "Claim (n_id sample_saved) 1 5 sample_saved" 0 ?D]
    unfolding z1(3) sample_claimed_def sample_announced_def sample_start_def
    by (simp only: tsys.simps eqs fun_upd_same simp_thms)
  with z1(1) have z2: "zsys_reach ?D ?z2" by (rule zsys_reach.step)
  obtain s3 where s3: "(tsys_step ?D)\<^sup>*\<^sup>* (sample_claimed 2) s3"
    "calm ?D (n_id sample_saved) (bump_count (set_status Sent (inserted_row sample_saved 0))) s3"
    "t_workers s3 = (\<lambda>_. Free)" "t_queues s3 = (\<lambda>_. [])" "t_posts s3 = (\<lambda>_. NoPost)"
    using sample_finishes by blast
  have "(tsys_step ?D)\<^sup>*\<^sup>* sample_announced s3" by (rule rtranclp_trans [OF sample_announced_claims s3(1)])
  from attached_run [OF this, of ?z2] obtain z3 where "(zsys_step ?D)\<^sup>*\<^sup>* ?z2 z3" "z_sys z3 = s3"
    "z_zombies z3 = (\<lambda>_. Free)(0 := ?slot)" by auto
  with s3 zreach_run [OF _ z2] show ?thesis by (intro exI [of _ z3]) auto
qed

section \<open>Properties\<close>

text \<open>C2: lost connections lose no notification. Any number of handlers may have been cut off from
  the broker at any point and go on against the database, beside the threads that the broker
  has given their messages to: in every reachable state every stored notification has been
  SENT at some time, or has a message on its way, or an attached worker answers for it, or its
  message is in the dead-letter queue, or its announcement is still to be published or died
  with its HTTP thread. (Its status is another matter, see the next property.)\<close>

theorem no_loss_with_zombies:
  assumes "deployable D" "zsys_reach D z" "row \<in> set (notifications (t_db (z_sys z)))"
  shows "schema_inv (dp_db D) (t_db (z_sys z)) \<and>
    (r_id row \<in> set (z_sent z) \<or> waiting D (t_queues (z_sys z)) row \<or> answered D (t_workers (z_sys z)) row \<or>
     parked D (t_queues (z_sys z)) row \<or> unannounced (t_posts (z_sys z)) (t_lost (z_sys z)) row)"
  using zsys_inv_reach [OF assms(2,1)] assms(3) by (simp add: zsys_inv_def core_inv_def zrow_ok_def)

theorem no_loss_with_zombies_witness:
  "\<exists>z. zsys_reach sample_deployment z \<and> z_zombies z 0 \<noteq> Free \<and>
     (n_id sample_saved \<in> set (z_sent z) \<or> n_id sample_saved \<in> set (t_lost (z_sys z)))"
proof -
  let ?row = "bump_count (set_status Sent (inserted_row sample_saved 0))"
  obtain z where z: "zsys_reach sample_deployment z"
    "z_zombies z = (\<lambda>_. Free)(0 := Busy Sms (sample_body 1) 1 (Claim (n_id sample_saved) 1 5 sample_saved))"
    "calm sample_deployment (n_id sample_saved) ?row (z_sys z)"
    "t_workers (z_sys z) = (\<lambda>_. Free)" "t_queues (z_sys z) = (\<lambda>_. [])" "t_posts (z_sys z) = (\<lambda>_. NoPost)"
    using sample_zombie by blast
  have "?row \<in> set (notifications (t_db (z_sys z)))"
    using calmD(4) [OF z(3)] select_by_id_SomeD by blast
  from no_loss_with_zombies [OF deployable_sample z(1) this]
  have "n_id sample_saved \<in> set (z_sent z) \<or> n_id sample_saved \<in> set (t_lost (z_sys z))"
    by (simp add: z waiting_def answered_def parked_def unannounced_def bump_count_def set_status_def
        inserted_row_def newRow_def)
  then show ?thesis using z(1,2) by (intro exI [of _ z]) simp
qed

text \<open>C12: but a lost connection can undo SENT for good. Let a detached handler have looked a
  notification up, which has meanwhile been delivered through the returned message and marked
  SENT, with nothing about it left in the queues, at the workers, at an HTTP thread or at another
  detached handler. Then the detached handler can mark it PROCESSING and end (its process dies,
  or its provider call fails and the retry goes nowhere), and from then on, unless its
  submission is repeated, nothing that any thread, attached or detached, the broker or the
  environment does ever changes that row: the API reports a delivered notification as
  PROCESSING for ever.\<close>

theorem zombie_undoes_sent:
  assumes "deployable D" "zsys_reach D z" "z_zombies z j = Busy ch body tag (Claim (r_id row) a p n)"
    and "calm D (r_id row) row (z_sys z)" "r_status row = ''SENT''"
    and "orphaned D (r_id row) (z_sys z)" "\<not> obtained (r_id row) (z_sys z)"
    and "idle D (r_id row) ((z_zombies z)(j := Free))"
  shows "\<exists>z'. (zsys_step D)\<^sup>*\<^sup>* z z' \<and> z_zombies z' = (z_zombies z)(j := Free) \<and>
    (\<forall>z''. (aloof_zstep D (r_id row))\<^sup>*\<^sup>* z' z'' \<longrightarrow>
       row\<lparr>r_status := ''PROCESSING''\<rparr> \<in> set (notifications (t_db (z_sys z''))) \<and>
       orphaned D (r_id row) (z_sys z'') \<and> idle D (r_id row) (z_zombies z''))"
proof -
  let ?nid = "r_id row" and ?s = "z_sys z" and ?row = "row\<lparr>r_status := ''PROCESSING''\<rparr>"
  let ?d = "rewrite_rows (dp_db D) (set_status Processing) ?nid (pop_fault (t_db ?s))"
  let ?s1 = "?s\<lparr>t_db := ?d, t_router := t_router ?s\<rparr>"
  note c = calmD [OF assms(4)]
  have "handler_step (env_with D (Inl (MysqlError []))) ch (dp_config D) body tag (Claim ?nid a p n)
      \<lparr>w_db = t_db ?s, w_router = t_router ?s, w_ops = []\<rparr> =
      (Calling ?nid a p n, \<lparr>w_db = ?d, w_router = t_router ?s, w_ops = []\<rparr>)"
    using on_db_world [where m = "markProcessing (dp_db D) ?nid" and s = ?s, OF mark_no_fault(1) [OF c(3)]]
    by (simp add: world_of_def)
  from zsys_step.detached [OF refl assms(3) _ _ this]
  have "zsys_step D z (with_sys ?s1 (z\<lparr>z_zombies := (z_zombies z)(j := Busy ch body tag (Calling ?nid a p n))\<rparr>))"
    (is "zsys_step D z ?z1") by simp
  moreover have "zsys_step D ?z1 (?z1\<lparr>z_zombies := (z_zombies ?z1)(j := Free)\<rparr>)" (is "zsys_step D ?z1 ?z2")
    by (rule zsys_step.zombie_ends)
  ultimately have run: "(zsys_step D)\<^sup>*\<^sup>* z ?z2" by (meson rtranclp.rtrancl_into_rtrancl rtranclp.rtrancl_refl)
  have inv: "zsys_inv D ?z2" by (rule zsys_inv_reach [OF zreach_run [OF run assms(2)] assms(1)])
  have "select_by_id (dp_db D) ?nid ?d = Some (set_status Processing row)"
    using c by (simp add: mp.select_rewrite_same)
  then have m: "?row \<in> set (notifications (t_db (z_sys ?z2)))"
    using select_by_id_SomeD by (fastforce simp: set_status_def)
  have f: "forgotten D (r_id ?row) ?z2" "\<not> obtained (r_id ?row) (z_sys ?z2)"
    using assms(6-8) by (simp_all add: forgotten_def orphaned_def obtained_def)
  have "?row \<in> set (notifications (t_db (z_sys z''))) \<and> forgotten D ?nid z''"
    if "(aloof_zstep D ?nid)\<^sup>*\<^sup>* ?z2 z''" for z''
    using forgotten_run [OF _ assms(1) inv m f] that by simp
  then show ?thesis using run by (intro exI [of _ ?z2]) (simp add: forgotten_def)
qed

theorem zombie_undoes_sent_witness:
  "\<exists>z z'. zsys_reach sample_deployment z \<and> (zsys_step sample_deployment)\<^sup>*\<^sup>* z z' \<and>
     (\<exists>r. select_by_id plain_env (n_id sample_saved) (t_db (z_sys z)) = Some r \<and> r_status r = ''SENT'') \<and>
     (\<exists>r\<in>set (notifications (t_db (z_sys z'))). r_id r = n_id sample_saved \<and> r_status r = ''PROCESSING'')"
proof -
  let ?row = "bump_count (set_status Sent (inserted_row sample_saved 0))"
  have id: "r_id ?row = n_id sample_saved" "r_status ?row = ''SENT''"
    by (simp_all add: bump_count_def set_status_def inserted_row_def newRow_def)
  obtain z where z: "zsys_reach sample_deployment z"
    "z_zombies z = (\<lambda>_. Free)(0 := Busy Sms (sample_body 1) 1 (Claim (n_id sample_saved) 1 5 sample_saved))"
    "calm sample_deployment (n_id sample_saved) ?row (z_sys z)"
    "t_workers (z_sys z) = (\<lambda>_. Free)" "t_queues (z_sys z) = (\<lambda>_. [])" "t_posts (z_sys z) = (\<lambda>_. NoPost)"
    using sample_zombie by blast
  have w: "z_zombies z 0 = Busy Sms (sample_body 1) 1 (Claim (r_id ?row) 1 5 sample_saved)"
    by (simp add: z(2) id(1))
  have "orphaned sample_deployment (r_id ?row) (z_sys z)" "\<not> obtained (r_id ?row) (z_sys z)"
    "idle sample_deployment (r_id ?row) ((z_zombies z)(0 := Free))"
    by (simp_all add: orphaned_def clean_def idle_def obtained_def z)
  from zombie_undoes_sent [OF deployable_sample z(1) w z(3) [folded id(1)] id(2) this] obtain z'
    where z': "(zsys_step sample_deployment)\<^sup>*\<^sup>* z z'"
      "?row\<lparr>r_status := ''PROCESSING''\<rparr> \<in> set (notifications (t_db (z_sys z')))"
    by blast
  have "select_by_id plain_env (n_id sample_saved) (t_db (z_sys z)) = Some ?row"
    using calmD(4) [OF z(3)] by (simp add: sample_deployment_def)
  then show ?thesis
    using z(1) z' id by (intro exI [of _ z] exI [of _ z'] conjI exI [of _ ?row] bexI [OF _ z'(2)]) simp_all
qed

end
