(* ===== verification/AuditTrail.thy ===== *)
theory AuditTrail
  imports Connections
begin

text \<open>
  The audit trail under full interleaving: whatever handlers run beside each other on the same
  notification, attached or not, the rows of \<open>delivery_attempts\<close> stay within the attempts that
  the configuration allows.
\<close>

section \<open>What handlers record\<close>

fun records :: "handler_pc \<Rightarrow> DeliveryAttempt set" where
  "records (Todo ops) = {att. Record att \<in> set ops}"
| "records _ = {}"

text \<open>A handler records attempts of its own message only.\<close>

definition records_own :: "'j json_lib \<Rightarrow> Channel \<Rightarrow> string \<Rightarrow> handler_pc \<Rightarrow> bool" where
  "records_own J ch body pc \<longleftrightarrow> (\<forall>att\<in>records pc. \<exists>p.
     decode J body = Inr (a_notificationId att, a_attemptNumber att, p) \<and> a_channel att = ch)"

lemma records_ops:
  "records (Todo (success_ops ch nid a result)) = {(newAttempt ch nid a)
     \<lparr>a_status := Success, a_providerRef := Some (providerRef result)\<rparr>}"
  "att \<in> records (Todo (failure_ops ch config nid a p body ex)) \<Longrightarrow>
     a_notificationId att = nid \<and> a_attemptNumber att = a \<and> a_channel att = ch"
  by (auto simp: success_ops_def failure_ops_def newAttempt_def Let_def split: if_splits)

lemma records_own_step:
  assumes "handler_step V ch config body tag pc w = (pc', w')" "pc_ok (we_json V) config K body pc"
    and "records_own (we_json V) ch body pc"
  shows "records_own (we_json V) ch body pc'"
proof (cases pc)
  case (Calling nid a p n)
  with assms(1,2) show ?thesis
    by (auto simp: records_own_def pc_ok_def dest!: records_ops(2) simp del: records.simps(1)
        split: prod.splits sum.splits if_splits)
next
  case (Reporting nid a p n outcome)
  with assms(1,2) show ?thesis
    by (auto simp: records_own_def pc_ok_def records_ops(1) newAttempt_def dest!: records_ops(2)
        simp del: records.simps(1) split: prod.splits sum.splits if_splits)
next
  case (Todo ops)
  with assms(1,3) show ?thesis
    by (cases ops) (auto simp: records_own_def split: prod.splits sum.splits)
qed (use assms(1) in \<open>auto simp: records_own_def split: prod.splits sum.splits option.splits if_splits\<close>)

text \<open>A step leaves the trail alone or records one of them.\<close>

lemma update_attempts:
  assumes "row_update E upd f" "upd i d = (r, d')" shows "delivery_attempts d' = delivery_attempts d"
  using row_update.upd_outcome [OF assms(1), of i d] row_update.rewrite_frame(1) [OF assms(1)] assms(2) by auto

lemmas updates_keep_attempts =
  update_attempts [OF mp.row_update_axioms] update_attempts [OF ms.row_update_axioms]
  update_attempts [OF md.row_update_axioms] update_attempts [OF ic.row_update_axioms]

lemma step_records:
  assumes "handler_step V ch config body tag pc w = (pc', w')"
  shows "delivery_attempts (w_db w') = delivery_attempts (w_db w) \<or>
    (\<exists>att\<in>records pc. \<exists>r. record_attempt (we_db V) att (w_db w) = (r, w_db w'))"
proof (cases pc)
  case (Lookup nid a p)
  obtain r w1 where f: "on_db (findById (we_db V) nid) w = (r, w1)" by (cases "on_db (findById (we_db V) nid) w")
  then have "w_db w1 = pop_fault (w_db w)"
    using on_dbE [OF f] findById_state [of "we_db V" nid "w_db w"] by simp
  moreover have "w' = w1" using assms f Lookup by (auto split: sum.splits option.splits if_splits)
  ultimately show ?thesis by simp
next
  case (Claim nid a p n)
  with assms show ?thesis
    by (auto dest!: on_dbE updates_keep_attempts split: prod.splits sum.splits)
next
  case (Todo ops)
  show ?thesis
  proof (cases ops)
    case (Cons op rest)
    obtain r w1 where o: "op_act V ch tag op w = (r, w1)" by (cases "op_act V ch tag op w")
    have w': "w' = w1" using assms Todo Cons o by (auto split: sum.splits)
    show ?thesis
    proof (cases op)
      case (Record att)
      then show ?thesis using o Todo Cons by (auto simp: op_act_def w' dest!: on_dbE)
    next
      case (PublishRetry nid a p)
      then show ?thesis using o by (auto simp: op_act_def w' bindA_def emit_eq split: sum.splits)
    qed (use o in \<open>auto simp: op_act_def w' emit_eq dest!: on_dbE updates_keep_attempts\<close>)
  qed (use assms Todo in simp)
qed (use assms in \<open>auto simp: on_router_def zoomA_def split: prod.splits sum.splits if_splits\<close>)

text \<open>Recording adds at most the row of that attempt.\<close>

lemma upsert_rows:
  assumes "upsert_attempt E k a d = Inr (u, d')" "t' \<in> set (delivery_attempts d')"
  shows "(\<exists>t\<in>set (delivery_attempts d). t_notification_id t' = t_notification_id t \<and>
      t_attempt_number t' = t_attempt_number t \<and> t_channel t' = t_channel t) \<or>
    t_notification_id t' = t_notification_id a \<and> t_attempt_number t' = nat k \<and> t_channel t' = t_channel a"
proof -
  let ?row = "a\<lparr>t_id := next_attempt_id d, t_attempt_number := nat k\<rparr>"
  let ?upd = "\<lambda>b. b\<lparr>t_status := t_status a, t_provider_ref := t_provider_ref a, t_error_message := t_error_message a\<rparr>"
  have "delivery_attempts d' = map (\<lambda>b. if same_attempt E b ?row then ?upd b else b) (delivery_attempts d) \<or>
      delivery_attempts d' = delivery_attempts d @ [?row]"
    using assms(1) by (auto simp: upsert_attempt_def Let_def split: if_splits)
  then have "(\<exists>b\<in>set (delivery_attempts d). t' = b \<or> t' = ?upd b) \<or> t' = ?row" using assms(2) by auto
  then show ?thesis by auto
qed

lemma record_rows:
  assumes "record_attempt E att d = (r, d')" "t' \<in> set (delivery_attempts d')"
  shows "(\<exists>t\<in>set (delivery_attempts d). t_notification_id t' = t_notification_id t \<and>
      t_attempt_number t' = t_attempt_number t \<and> t_channel t' = t_channel t) \<or>
    t_notification_id t' = a_notificationId att \<and> t_attempt_number t' = nat (a_attemptNumber att) \<and>
      t_channel t' = toString_Channel (a_channel att)"
proof (cases r)
  case (Inl e)
  with assms record_Inl [of E att d e d'] show ?thesis by auto
next
  case (Inr u)
  with assms(1) record_Inr [of E att d u d']
  have "upsert_attempt E (a_attemptNumber att) (attemptRow att) (pop_fault d) = Inr (u, d')" by simp
  from upsert_rows [OF this assms(2)] show ?thesis by (simp add: attemptRow_def)
qed

section \<open>The invariant\<close>

definition allowed :: "Config \<Rightarrow> nat" where
  "allowed config = nat (max 1 (maxRetries config + 1))"

definition trail_ok :: "'j deployment \<Rightarrow> database \<Rightarrow> bool" where
  "trail_ok D d \<longleftrightarrow> (\<forall>t\<in>set (delivery_attempts d).
     1 \<le> t_attempt_number t \<and> t_attempt_number t \<le> allowed (dp_config D) \<and>
     (\<exists>row\<in>set (notifications d). r_id row = t_notification_id t \<and> r_channel row = t_channel t))"

definition slots_ok :: "'j deployment \<Rightarrow> (nat \<Rightarrow> worker_slot) \<Rightarrow> bool" where
  "slots_ok D W \<longleftrightarrow> (\<forall>i ch body tag pc. W i = Busy ch body tag pc \<longrightarrow> records_own (dp_json D) ch body pc)"

definition audit_inv :: "'j deployment \<Rightarrow> zsys \<Rightarrow> bool" where
  "audit_inv D z \<longleftrightarrow> trail_ok D (t_db (z_sys z)) \<and> slots_ok D (t_workers (z_sys z)) \<and> slots_ok D (z_zombies z)"

lemma slots_ok_upd:
  "slots_ok D W \<Longrightarrow> (\<And>ch body tag pc. x = Busy ch body tag pc \<Longrightarrow> records_own (dp_json D) ch body pc) \<Longrightarrow>
   slots_ok D (W(i := x))"
  unfolding slots_ok_def by (auto split: if_splits)

lemma slots_okD: "slots_ok D W \<Longrightarrow> W i = Busy ch body tag pc \<Longrightarrow> records_own (dp_json D) ch body pc"
  unfolding slots_ok_def by blast

lemma trail_ok_same:
  assumes "trail_ok D d" "keeps_rows d d'" "delivery_attempts d' = delivery_attempts d"
  shows "trail_ok D d'"
  using assms unfolding trail_ok_def keeps_rows_def by (auto; metis)

text \<open>A step of a handler, attached or not.\<close>

lemma trail_ok_work:
  assumes trail: "trail_ok D d" and V: "we_db V = dp_db D" "we_json V = dp_json D"
    and h: "handler_step V ch (dp_config D) body tag pc \<lparr>w_db = d, w_router = rt, w_ops = []\<rparr> = (pc', w')"
    and own: "records_own (dp_json D) ch body pc" and good: "good_msg D d ch body" and keeps: "keeps_rows d (w_db w')"
  shows "trail_ok D (w_db w')"
proof -
  consider "delivery_attempts (w_db w') = delivery_attempts d"
    | att r where "att \<in> records pc" "record_attempt (we_db V) att d = (r, w_db w')"
    using step_records [OF h] by auto
  then show ?thesis
  proof cases
    case 1
    then show ?thesis by (rule trail_ok_same [OF trail keeps])
  next
    case (2 att r)
    obtain p where dec: "decode (dp_json D) body = Inr (a_notificationId att, a_attemptNumber att, p)"
      and ch: "a_channel att = ch"
      using own 2(1) by (auto simp: records_own_def)
    then obtain row where a: "1 \<le> a_attemptNumber att" "a_attemptNumber att \<le> max 1 (maxRetries (dp_config D) + 1)"
      and row: "row \<in> set (notifications d)" "r_id row = a_notificationId att" "r_channel row = toString_Channel ch"
      using good by (auto simp: good_msg_def)
    have n: "notifications (w_db w') = notifications d" using record_frame [OF 2(2)] by simp
    have "1 \<le> nat (a_attemptNumber att)" "nat (a_attemptNumber att) \<le> allowed (dp_config D)"
      using a unfolding allowed_def by linarith+
    with record_rows [OF 2(2)] row ch trail show ?thesis
      unfolding trail_ok_def n by metis
  qed
qed

lemma audit_inv_attached:
  assumes z: "zsys_inv D z" and inv: "audit_inv D z" and step: "tsys_step D (z_sys z) s'"
  shows "trail_ok D (t_db s')" "slots_ok D (t_workers s')"
proof -
  have core: "core_inv D (z_sys z)" using z by (simp add: zsys_inv_def)
  note keeps = step_keeps [OF core step]
  have t: "trail_ok D (t_db (z_sys z))" and w: "slots_ok D (t_workers (z_sys z))"
    using inv by (simp_all add: audit_inv_def)
  show "trail_ok D (t_db s')"
    using step
  proof cases
    case (work i ch body tag pc V pc' w')
    from workers_okD [OF core_invD(4) [OF core] work(2)] have good: "good_msg D (t_db (z_sys z)) ch body" by blast
    have "keeps_rows (t_db (z_sys z)) (w_db w')" using keeps by (simp add: work(1))
    from trail_ok_work [OF t work(3,4,5) slots_okD [OF w work(2)] good this] show ?thesis by (simp add: work(1))
  next
    case (check i n r d')
    then have "delivery_attempts (t_db s') = delivery_attempts (t_db (z_sys z))"
      using findByIdempotencyKey_state [of "dp_db D" "n_idempotencyKey n" "t_db (z_sys z)"] by simp
    then show ?thesis by (rule trail_ok_same [OF t keeps])
  next
    case (insert i n u r d')
    then have "delivery_attempts (t_db s') = delivery_attempts (t_db (z_sys z))"
      using insertTransaction_outcome [OF insert(4)] by (auto simp: Let_def same_tables_def with_inserted_def)
    then show ?thesis by (rule trail_ok_same [OF t keeps])
  qed (use trail_ok_same [OF t keeps] in simp_all)
  show "slots_ok D (t_workers s')"
    using step
  proof cases
    case (work i ch body tag pc V pc' w')
    have "pc_ok (we_json V) (dp_config D) (body \<in> set (t_queues (z_sys z) (dlq ch))) body pc"
      using workers_okD [OF core_invD(4) [OF core] work(2)] work(4) by simp
    from records_own_step [OF work(5) this] slots_okD [OF w work(2)] work(4)
    have own: "records_own (dp_json D) ch body pc'" by simp
    show ?thesis
    proof (cases "Ack tag \<in> set (w_ops w')")
      case True
      then show ?thesis using slots_ok_upd [OF w, of Free i] by (simp add: work(1))
    next
      case False
      then show ?thesis using slots_ok_upd [OF w, of "Busy ch body tag pc'" i] own by (simp add: work(1))
    qed
  qed (use w in \<open>auto simp: records_own_def intro!: slots_ok_upd\<close>)
qed

lemma audit_inv_step:
  assumes z: "zsys_inv D z" and inv: "audit_inv D z" and step: "zsys_step D z z'"
  shows "audit_inv D z'"
  using step
proof cases
  case (attached s')
  from audit_inv_attached [OF z inv attached(2)] show ?thesis
    using inv by (simp add: audit_inv_def attached(1))
next
  case (connection_lost s i ch body tag pc j)
  then have "records_own (dp_json D) ch body pc" using inv slots_okD by (auto simp: audit_inv_def)
  then show ?thesis using inv connection_lost by (auto simp: audit_inv_def intro!: slots_ok_upd)
next
  case (detached s j ch body tag pc V pc' w')
  have zok: "zombies_ok D (t_db s) (z_zombies z)" using z detached(2) by (simp add: zsys_inv_def)
  have good: "good_msg D (t_db s) ch body" and ok: "pc_ok (we_json V) (dp_config D) True body pc"
    using zombies_okD [OF zok detached(3)] detached(5) by simp_all
  obtain nid a p where dec: "decode (we_json V) body = Inr (nid, a, p)"
    using good detached(5) by (auto simp: good_msg_def)
  have keeps: "keeps_rows (t_db s) (w_db w')"
    using touched_keeps [OF handler_step_touches [OF detached(6) ok dec]] by simp
  have own: "records_own (dp_json D) ch body pc"
    using inv detached(3) slots_okD by (auto simp: audit_inv_def)
  have "trail_ok D (t_db s)" using inv detached(2) by (simp add: audit_inv_def)
  from trail_ok_work [OF this detached(4,5,6) own good keeps]
  have "trail_ok D (w_db w')" .
  moreover have "records_own (dp_json D) ch body pc'"
    using records_own_step [OF detached(6) ok] own detached(5) by simp
  ultimately show ?thesis
    using inv detached(1,2) by (auto simp: audit_inv_def intro!: slots_ok_upd)
next
  case (zombie_ends j)
  then show ?thesis using inv by (auto simp: audit_inv_def intro!: slots_ok_upd)
qed

lemma audit_inv_reach: "zsys_reach D z \<Longrightarrow> deployable D \<Longrightarrow> audit_inv D z"
proof (induction rule: zsys_reach.induct)
  case init
  show ?case by (simp add: audit_inv_def slots_ok_def zsys_init_def tsys_init_def trail_ok_def db_empty_def)
qed (auto intro: audit_inv_step zsys_inv_reach)

section \<open>Property\<close>

text \<open>C17: the audit trail is bounded and consistent. With threads interleaved at single
  statements, submissions repeated, messages redelivered, and handlers that have lost their
  connection, every notification has at most \<open>maxRetries + 1\<close> recorded attempts (one when
  \<open>maxRetries\<close> is negative), with distinct numbers from 1 up to that bound, all of its own
  channel; this is the list that \<open>findByNotificationId\<close> reads.\<close>

theorem audit_trail_bounded:
  assumes "deployable D" "zsys_reach D z" "row \<in> set (notifications (t_db (z_sys z)))"
  shows "length (select_attempts (dp_db D) (r_id row) (t_db (z_sys z))) \<le> nat (max 1 (maxRetries (dp_config D) + 1)) \<and>
    distinct (map t_attempt_number (select_attempts (dp_db D) (r_id row) (t_db (z_sys z)))) \<and>
    (\<forall>t\<in>set (select_attempts (dp_db D) (r_id row) (t_db (z_sys z))).
       1 \<le> t_attempt_number t \<and> int (t_attempt_number t) \<le> max 1 (maxRetries (dp_config D) + 1) \<and>
       t_channel t = r_channel row)"
proof -
  let ?E = "dp_db D" and ?d = "t_db (z_sys z)"
  let ?ts = "select_attempts ?E (r_id row) ?d"
  have "core_inv D (z_sys z)" using zsys_inv_reach [OF assms(2,1)] by (simp add: zsys_inv_def)
  then have key: "key_inv ?E ?d" by (rule core_invD(2))
  have trail: "trail_ok D ?d" using audit_inv_reach [OF assms(2,1)] by (simp add: audit_inv_def)
  have d: "distinct (map t_attempt_number ?ts)" by (rule select_attempts_distinct [OF key])
  have t: "1 \<le> t_attempt_number t \<and> t_attempt_number t \<le> allowed (dp_config D) \<and> t_channel t = r_channel row"
    if "t \<in> set ?ts" for t
  proof -
    have m: "t \<in> set (delivery_attempts ?d)" "same_key ?E (t_notification_id t) (r_id row)"
      using that by (simp_all add: select_attempts_def)
    then obtain row' where "row' \<in> set (notifications ?d)" "r_id row' = t_notification_id t" "r_channel row' = t_channel t"
      "1 \<le> t_attempt_number t" "t_attempt_number t \<le> allowed (dp_config D)"
      using trail by (auto simp: trail_ok_def)
    then show ?thesis using key_inv_unique [OF key _ assms(3), of row'] m(2) by auto
  qed
  then have "set (map t_attempt_number ?ts) \<subseteq> {1..allowed (dp_config D)}" by auto
  then have "card (set (map t_attempt_number ?ts)) \<le> allowed (dp_config D)"
    using card_mono [of "{1..allowed (dp_config D)}"] by fastforce
  then have "length ?ts \<le> allowed (dp_config D)" using distinct_card [OF d] by simp
  moreover have "int k \<le> max 1 (maxRetries (dp_config D) + 1)" if "k \<le> allowed (dp_config D)" for k
    using that unfolding allowed_def by linarith
  ultimately show ?thesis using d t unfolding allowed_def by blast
qed

theorem audit_trail_bounded_witness:
  "\<exists>z. zsys_reach sample_deployment z \<and> z_zombies z 0 \<noteq> Free \<and>
     length (select_attempts plain_env (n_id sample_saved) (t_db (z_sys z))) \<le> 4"
proof -
  let ?row = "bump_count (set_status Sent (inserted_row sample_saved 0))"
  obtain z where z: "zsys_reach sample_deployment z"
    "z_zombies z = (\<lambda>_. Free)(0 := Busy Sms (sample_body 1) 1 (Claim (n_id sample_saved) 1 5 sample_saved))"
    "calm sample_deployment (n_id sample_saved) ?row (z_sys z)"
    using sample_zombie by blast
  have "?row \<in> set (notifications (t_db (z_sys z)))"
    using calmD(4) [OF z(3)] select_by_id_SomeD by blast
  from audit_trail_bounded [OF deployable_sample z(1) this]
  have "length (select_attempts plain_env (n_id sample_saved) (t_db (z_sys z))) \<le> 4"
    by (simp add: sample_deployment_def Config_default_def bump_count_def set_status_def inserted_row_def newRow_def)
  then show ?thesis using z(1,2) by (intro exI [of _ z]) simp
qed

end
