(* ===== verification/RetryLadder.thy ===== *)
theory RetryLadder
  imports System
begin

text \<open>
  One notification climbing the retry ladder: a message is handled, what the handler issues goes
  to the broker, a retry waits on the rung it was put on until it expires, and what then lies in
  the main queue is handled in turn. \<open>chase\<close> follows that; the theorem bounds its length and
  shows how it ends. A retry for which no rung has been declared is discarded here, as it is by
  the broker.
\<close>

section \<open>Following one message through the broker\<close>

text \<open>
  The time of a queue passes: every message in it expires and is republished to the queue's
  dead-letter target. Queues without TTL or target keep what they have.
\<close>

definition expire_queue ::
  "'j deployment \<Rightarrow> string \<Rightarrow> (string \<Rightarrow> string list) \<Rightarrow> string \<Rightarrow> string list" where
  "expire_queue D q Q =
     (case (message_ttl (declareAll (dp_config D)) q, dead_letter_target (declareAll (dp_config D)) q) of
        (Some ttl, Some (x, k)) \<Rightarrow>
          fold (\<lambda>body. broker_op (routes D) (Publish x k (newEnvelope body))) (Q q) (Q(q := []))
      | _ \<Rightarrow> Q)"

definition expire_all :: "'j deployment \<Rightarrow> (string \<Rightarrow> string list) \<Rightarrow> string \<Rightarrow> string list" where
  "expire_all D Q = fold (expire_queue D) (declared_queues (declareAll (dp_config D))) Q"

text \<open>
  The deliveries of channel \<open>ch\<close>, one environment (provider answer and clock) for each: the
  first message of the main queue is handled, the operations of the handler reach the broker,
  and the delays pass. It stops when the main queue is empty. The result counts the deliveries.
\<close>

fun chase ::
  "'j deployment \<Rightarrow> Channel \<Rightarrow> ('j, 'p) worker_env list \<Rightarrow> (string \<Rightarrow> string list) \<Rightarrow> 'p world \<Rightarrow>
   nat \<times> 'p world \<times> (string \<Rightarrow> string list)" where
  "chase D ch [] Q w = (0, w, Q)"
| "chase D ch (V # Vs) Q w =
     (case Q (mainQueue ch) of
        [] \<Rightarrow> (0, w, Q)
      | body # rest \<Rightarrow>
          let w' = snd (onMessage V ch (dp_config D) body 0 (w\<lparr>w_ops := []\<rparr>));
              Q' = (if Ack 0 \<in> set (w_ops w') then Q(mainQueue ch := rest) else Q);
              Q'' = expire_all D (broker_ops (routes D) (w_ops w') Q')
          in (case chase D ch Vs Q'' w' of (k, result) \<Rightarrow> (Suc k, result)))"

text \<open>A broker that holds one message, and nothing else.\<close>

definition only :: "string \<Rightarrow> string \<Rightarrow> string \<Rightarrow> string list" where
  "only q body = (\<lambda>_. [])(q := [body])"

lemma put_only: "put body q (\<lambda>_. []) = only q body"
  by (simp add: put_def only_def)

lemma only_taken: "(only q body)(q := []) = (\<lambda>_. [])"
  by (simp add: only_def fun_eq_iff)

lemma only_apply [simp]: "only q body q' = (if q' = q then [body] else [])"
  by (simp add: only_def)

lemma chase_done: "Q (mainQueue ch) = [] \<Longrightarrow> chase D ch Vs Q w = (0, w, Q)"
  by (cases Vs) simp_all

lemma expire_queue_empty: "Q q = [] \<Longrightarrow> expire_queue D q Q = Q"
  by (simp add: expire_queue_def fun_upd_idem split: option.split prod.split)

lemma expire_queue_plain [simp]: "expire_queue D (mainQueue ch) Q = Q" "expire_queue D (dlq ch) Q = Q"
  by (simp_all add: expire_queue_def plain_queues_target)

lemma expire_queue_rung:
  assumes "broker_laws (dp_route D)" "live D ch (retryQueue ch a)"
  shows "expire_queue D (retryQueue ch a) (only (retryQueue ch a) body) = only (mainQueue ch) body"
proof -
  have r: "1 \<le> a" "a \<le> int (length (retryDelaysMs (dp_config D)))" using assms(2) by simp_all
  show ?thesis
    using rung_args [OF r, of ch] route_queue(3) [OF assms(1), of ch]
    by (simp add: expire_queue_def newEnvelope_def only_taken put_only)
qed

text \<open>Only rungs expire; a message in the main or a dead-letter queue stays.\<close>

lemma expire_rest:
  "(\<And>q. q \<in> set qs \<Longrightarrow> expire_queue D q Q = Q) \<Longrightarrow> fold (expire_queue D) qs Q = Q"
  by (induction qs) simp_all

lemma expire_only: "q = mainQueue ch \<or> q = dlq ch \<Longrightarrow> expire_queue D q' (only q body) = only q body"
  by (cases "q' = q") (auto simp: expire_queue_empty)

lemma expire_all_kept:
  "expire_all D (\<lambda>_. []) = (\<lambda>_. [])" "expire_all D (only (dlq ch) body) = only (dlq ch) body"
  unfolding expire_all_def by (auto intro!: expire_rest expire_queue_empty expire_only)

lemma expire_all_rung:
  assumes "broker_laws (dp_route D)" "live D ch (retryQueue ch a)"
  shows "expire_all D (only (retryQueue ch a) body) = only (mainQueue ch) body"
proof -
  let ?r = "retryQueue ch a"
  have "?r \<in> set (declared_queues (declareAll (dp_config D)))" using assms(2) by (simp add: declared_queue_iff)
  then obtain xs ys where qs: "declared_queues (declareAll (dp_config D)) = xs @ ?r # ys" "?r \<notin> set xs"
    using split_list_first by metis
  have "fold (expire_queue D) xs (only ?r body) = only ?r body"
    using qs(2) by (intro expire_rest expire_queue_empty) auto
  moreover have "fold (expire_queue D) ys (only (mainQueue ch) body) = only (mainQueue ch) body"
    by (intro expire_rest expire_only) simp
  ultimately show ?thesis by (simp add: expire_all_def qs(1) expire_queue_rung [OF assms])
qed

text \<open>A provider keeps the contract of \<open>NotificationProvider\<close>: it returns a reference or throws a
  \<open>ProviderException\<close>, with texts that fit the columns they are recorded in.\<close>

definition polite :: "exn + ProviderResult \<Rightarrow> bool" where
  "polite oc \<longleftrightarrow> (\<exists>res. oc = Inr res \<and> varchar 255 (providerRef res)) \<or>
     (\<exists>m t. oc = Inl (ProviderException m t) \<and> varchar 1024 m)"

section \<open>Faults do not appear by themselves\<close>

lemma fault_free_on_db:
  "preserves fault_free m \<Longrightarrow> preserves (\<lambda>w. fault_free (w_db w)) (on_db m)"
  by (erule preserves_on_db) simp_all

lemma fault_free_ops:
  "preserves fault_free (findById E i)" "preserves fault_free (record_attempt E a)"
  "preserves fault_free (markProcessing E i)" "preserves fault_free (markSent E i)"
  "preserves fault_free (markDeadLettered E i)" "preserves fault_free (incrementAttemptCount E i)"
proof -
  have u: "preserves fault_free (upd i)" if "row_update E upd f" for upd f
  proof (rule preservesI)
    fix s r t assume "fault_free s" "upd i s = (r, t)"
    then show "fault_free t" using row_update.upd_outcome [OF that, of i s] by auto
  qed
  show "preserves fault_free (markProcessing E i)" by (rule u [OF mp.row_update_axioms])
  show "preserves fault_free (markSent E i)" by (rule u [OF ms.row_update_axioms])
  show "preserves fault_free (markDeadLettered E i)" by (rule u [OF md.row_update_axioms])
  show "preserves fault_free (incrementAttemptCount E i)" by (rule u [OF ic.row_update_axioms])
  show "preserves fault_free (findById E i)" by (simp add: preserves_def)
  show "preserves fault_free (record_attempt E a)"
    by (rule preservesI) (use record_frame fault_free_tl in blast)
qed

lemma fault_free_router: "preserves (\<lambda>w. fault_free (w_db w)) (on_router m)"
  by (rule preservesI) (auto simp: on_router_def zoomA_def split: prod.splits)

lemma fault_free_emit: "preserves (\<lambda>w. fault_free (w_db w)) (emit op)"
  by (simp add: preserves_def emit_def)

lemmas fault_free_intros = preserves_intros fault_free_on_db fault_free_ops fault_free_router fault_free_emit

lemma fault_free_onMessage: "preserves (\<lambda>w. fault_free (w_db w)) (onMessage V ch config body tag)"
proof (cases "decode (we_json V) body")
  case (Inl e)
  then show ?thesis by (simp add: onMessage_def fault_free_emit)
next
  case (Inr m)
  then show ?thesis
    by (cases m)
      (auto simp: onMessage_def deliver_def on_failure_def schedule_retry_def dead_letter_def Let_def
        intro!: fault_free_intros)
qed

section \<open>One delivery\<close>

lemma router_send_polite:
  assumes "router_inv r" and "\<And>p. polite (prov p n)"
  shows "polite (fst (router_send prov t1 t2 n r))"
proof -
  obtain e where e: "entries r (int_of_Channel (n_channel n)) = Some e"
    using assms(1) by (auto simp: router_inv_def)
  have "varchar 1024 (''circuit breaker open for channel '' @ toString_Channel c)" for c
    by (cases c) (simp_all add: varchar_def utf8_length_def)
  then show ?thesis
    using assms(2) [of "e_provider e"]
    by (auto simp: router_send_def e guarded_send_def polite_def split: prod.splits)
qed

text \<open>A ready message of a polite provider is delivered, parked, or retried with the next number.\<close>

lemma delivery_cases:
  assumes rd: "ready V w body nid a p row n" and inv: "router_inv (w_router w)"
    and prov: "\<And>p. polite (we_provider V p n)" and laws: "json_laws (we_json V)" "ascii nid"
    and rng: "int32_range (a + 1)" and new: "w_ops w = []"
  obtains (sent) w' where "onMessage V ch config body tag w = (Inr (), w')" "w_ops w' = [Ack tag]"
      "select_by_id (we_db V) nid (w_db w') =
         Some (row\<lparr>r_status := ''SENT'', r_attempt_count := r_attempt_count row + 1\<rparr>)"
  | (parked) w' where "onMessage V ch config body tag w = (Inr (), w')"
      "w_ops w' = [Publish '''' (dlq ch) (dlq_message body), Ack tag]"
      "select_by_id (we_db V) nid (w_db w') =
         Some (row\<lparr>r_status := ''DEAD_LETTERED'', r_attempt_count := r_attempt_count row + 1\<rparr>)"
  | (retry) w' payload where "onMessage V ch config body tag w = (Inr (), w')"
      "a \<le> maxRetries config" "w_ops w' = [Publish '''' (retryQueue ch a) (message payload p), Ack tag]"
      "decode (we_json V) payload = Inr (nid, a + 1, p)"
      "select_by_id (we_db V) nid (w_db w') =
         Some (row\<lparr>r_status := ''PROCESSING'', r_attempt_count := r_attempt_count row + 1\<rparr>)"
proof -
  obtain oc rt where s: "router_send (we_provider V) (we_t1 V) (we_t2 V) n (w_router w) = (oc, rt)"
    by (cases "router_send (we_provider V) (we_t1 V) (we_t2 V) n (w_router w)")
  have "polite oc"
    using router_send_polite [where prov = "we_provider V", OF inv prov, of "we_t1 V" "we_t2 V"] s by simp
  then consider (ok) res where "oc = Inr res" "varchar 255 (providerRef res)"
    | (again) m where "oc = Inl (ProviderException m True)" "varchar 1024 m" "a \<le> maxRetries config"
    | (dead) m t where "oc = Inl (ProviderException m t)" "varchar 1024 m" "\<not> t \<or> maxRetries config < a"
    by (force simp: polite_def not_less)
  then show ?thesis
  proof cases
    case ok
    from success_outcome [OF rd s [unfolded ok(1)] ok(2), of ch config tag] show ?thesis
      using sent new by auto
  next
    case again
    obtain payload where pay: "j_dump (we_json V) (retryBody (we_json V) nid a p) = Inr payload"
      using delivery_prints [OF laws, of "a + 1" p] by (auto simp: retryBody_fields)
    from retry_outcome [OF rd s [unfolded again(1)] again(3) rng again(2) laws(1) pay, of ch tag]
    show ?thesis using again(3) retry new by auto
  next
    case dead
    from dead_letter_outcome [OF rd s [unfolded dead(1)] dead(3,2), of ch tag] show ?thesis
      using parked new by auto
  qed
qed

lemma ready_again:
  assumes "schema_inv (we_db V) (w_db w)" "fault_free (w_db w)"
    and "decode (we_json V) body = Inr (nid, a, p)" "0 \<le> a" "a \<le> int uint32_max"
    and "select_by_id (we_db V) nid (w_db w) = Some row" "r_status row \<notin> {''SENT'', ''CANCELLED''}"
    and "r_attempt_count row < uint32_max"
  obtains n where "ready V w body nid a p row n"
proof -
  have "enum_row row"
    using select_by_id_SomeD [OF assms(6)] key_inv_schema [OF assms(1)]
    by (auto simp: key_inv_def list_all_iff)
  then obtain n where n: "rowToNotification row = Inr n" using rowToNotification_total by blast
  moreover have "deliverable n"
    using rowToNotification_fields(4) [OF n] assms(7) \<open>enum_row row\<close>
    by (auto simp: deliverable_def enum_row_def)
  ultimately show ?thesis using assms by (intro that [of n]) (simp add: ready_def)
qed

text \<open>The state of a chain before its next delivery.\<close>

definition climbing ::
  "db_env \<Rightarrow> 'j json_lib \<Rightarrow> 'p world \<Rightarrow> string \<Rightarrow> string \<Rightarrow> int \<Rightarrow> 8 word \<Rightarrow> notification_row \<Rightarrow> bool" where
  "climbing E J w body nid a p row \<longleftrightarrow>
     schema_inv E (w_db w) \<and> router_inv (w_router w) \<and> fault_free (w_db w) \<and>
     decode J body = Inr (nid, a, p) \<and> 1 \<le> a \<and> select_by_id E nid (w_db w) = Some row \<and>
     r_status row \<notin> {''SENT'', ''CANCELLED''}"

text \<open>How a chain ends: nothing is left at the broker when the notification is SENT, and the last
  message alone lies in the dead-letter queue when it is DEAD_LETTERED.\<close>

definition chain_end ::
  "'j deployment \<Rightarrow> Channel \<Rightarrow> string \<Rightarrow> int \<Rightarrow> 8 word \<Rightarrow> string \<Rightarrow> (string \<Rightarrow> string list) \<Rightarrow> bool" where
  "chain_end D ch nid a p st Q \<longleftrightarrow> st = ''SENT'' \<and> Q = (\<lambda>_. []) \<or>
     st = ''DEAD_LETTERED'' \<and> (\<exists>last. Q = only (dlq ch) last \<and> decode (dp_json D) last = Inr (nid, a, p))"

lemma chase_bounded:
  fixes Vs :: "('j, 'p) worker_env list"
  assumes dep: "deployable D" and "ascii nid" "int32_range (maxRetries (dp_config D) + 2)"
    and "list_all (\<lambda>V. we_db V = dp_db D \<and> we_json V = dp_json D \<and> (\<forall>p n. polite (we_provider V p n))) Vs"
    and "climbing (dp_db D) (dp_json D) w body nid a p row" "a \<le> maxRetries (dp_config D) + 1"
    and "maxRetries (dp_config D) + 2 - a \<le> int (length Vs)"
    and "int (r_attempt_count row) + (maxRetries (dp_config D) + 2 - a) \<le> int uint32_max"
  shows "\<exists>k w' st Q. chase D ch Vs (only (mainQueue ch) body) w = (k, w', Q) \<and>
    1 \<le> k \<and> int k \<le> maxRetries (dp_config D) + 2 - a \<and> chain_end D ch nid (a + int k - 1) p st Q \<and>
    select_by_id (dp_db D) nid (w_db w') = Some (row\<lparr>r_status := st, r_attempt_count := r_attempt_count row + k\<rparr>)"
  using assms(4-8)
proof (induction Vs arbitrary: w body a row)
  case Nil
  then show ?case by simp
next
  case (Cons V Vs)
  let ?w = "w\<lparr>w_ops := []\<rparr>" and ?Q = "only (mainQueue ch) body"
  have b: "broker_laws (dp_route D)" and laws: "json_laws (dp_json D)"
    and rungs: "maxRetries (dp_config D) \<le> int (length (retryDelaysMs (dp_config D)))"
    using dep by (simp_all add: deployable_def)
  have V: "we_db V = dp_db D" "we_json V = dp_json D" "\<And>p n. polite (we_provider V p n)"
    using Cons.prems(1) by simp_all
  have c: "schema_inv (dp_db D) (w_db w)" "router_inv (w_router w)" "fault_free (w_db w)"
    "decode (dp_json D) body = Inr (nid, a, p)" "1 \<le> a" "select_by_id (dp_db D) nid (w_db w) = Some row"
    "r_status row \<notin> {''SENT'', ''CANCELLED''}"
    using Cons.prems(2) by (simp_all add: climbing_def)
  have a: "0 \<le> a" "a \<le> int uint32_max" "int32_range (a + 1)" "r_attempt_count row < uint32_max"
    using c(5) Cons.prems(3,5) assms(3) by (simp_all add: int32_range_def uint32_max_def)
  obtain n where rd: "ready V ?w body nid a p row n"
    by (rule ready_again [of V ?w body nid a p row]) (use V c a in simp_all)
  have inv: "router_inv (w_router ?w)" using c(2) by simp
  have new: "w_ops ?w = []" by simp
  from rd inv V(3) laws [folded V(2)] assms(2) a(3) new show ?case
  proof (cases rule: delivery_cases [where ch = ch and config = "dp_config D" and tag = 0])
    case (sent w')
    then have "chase D ch (V # Vs) ?Q w = (1, w', \<lambda>_. [])"
      by (simp add: only_taken expire_all_kept chase_done)
    then show ?thesis
      by (intro exI [of _ 1] exI [of _ w'] exI [of _ "''SENT''"] exI [of _ "\<lambda>_. []"])
        (use sent(3) Cons.prems(3) V(1) in \<open>simp add: chain_end_def del: chase.simps only_apply\<close>)
  next
    case (parked w')
    then have "chase D ch (V # Vs) ?Q w = (1, w', only (dlq ch) body)"
      by (simp add: only_taken route_queue(1) [OF b] put_only expire_all_kept chase_done dlq_message_def)
    then show ?thesis
      by (intro exI [of _ 1] exI [of _ w'] exI [of _ "''DEAD_LETTERED''"] exI [of _ "only (dlq ch) body"])
        (use parked(3) Cons.prems(3) V(1) c(4) in \<open>auto simp: chain_end_def simp del: chase.simps only_apply\<close>)
  next
    case (retry w' payload)
    have l: "live D ch (retryQueue ch a)" using c(5) retry(2) rungs by simp
    have cl: "climbing (dp_db D) (dp_json D) w' payload nid (a + 1) p
        (row\<lparr>r_status := ''PROCESSING'', r_attempt_count := r_attempt_count row + 1\<rparr>)"
    proof -
      have "world_inv (dp_db D) w'"
        using preservesD [OF world_inv_onMessage [OF V(1)] _ retry(1)] c by (simp add: world_inv_def)
      moreover have "fault_free (w_db w')"
        using preservesD [OF fault_free_onMessage _ retry(1)] c(3) by simp
      ultimately show ?thesis using retry(4,5) c(5) V by (simp add: climbing_def world_inv_def)
    qed
    obtain k w'' st Q where
      k: "chase D ch Vs (only (mainQueue ch) payload) w' = (k, w'', Q)"
      "1 \<le> k" "int k \<le> maxRetries (dp_config D) + 2 - (a + 1)" "chain_end D ch nid (a + int k) p st Q"
      "select_by_id (dp_db D) nid (w_db w'') = Some (row\<lparr>r_status := st, r_attempt_count := r_attempt_count row + 1 + k\<rparr>)"
      using Cons.IH [OF _ cl] Cons.prems(1,4,5) retry(2) by fastforce
    have "chase D ch (V # Vs) ?Q w = (Suc k, w'', Q)"
      using retry(1,3) k(1)
      by (simp add: only_taken route_queue(2) [OF b l] message_def put_only expire_all_rung [OF b l])
    then show ?thesis using k by (intro exI [of _ "Suc k"] exI [of _ w''] exI [of _ st] exI [of _ Q])
        (simp del: chase.simps only_apply)
  qed
qed

section \<open>Property\<close>

text \<open>C8: delivery ends. Let a message about a stored notification that is not yet SENT or CANCELLED
  lie in its main queue, the ladder have a rung for every retry (\<open>deployable\<close>, the condition of
  C33), the database answer, and the providers keep their contract but fail in any way they
  like. Then handling the main queue, with every retry going through the declared topology and
  coming back when its rung expires, comes to an end after at most \<open>maxRetries + 2 - a\<close>
  deliveries (\<open>maxRetries + 1\<close> from the first attempt), with exactly one attempt counted per
  delivery: the notification is SENT and no message about it is left at the broker, or it is
  DEAD_LETTERED and the message of its last attempt alone is in the dead-letter queue.\<close>

theorem retry_ladder_ends:
  fixes Vs :: "('j, 'p) worker_env list"
  assumes "deployable D" "ascii nid" "int32_range (maxRetries (dp_config D) + 2)"
    and "list_all (\<lambda>V. we_db V = dp_db D \<and> we_json V = dp_json D \<and> (\<forall>p n. polite (we_provider V p n))) Vs"
    and "climbing (dp_db D) (dp_json D) w body nid a p row" "a \<le> maxRetries (dp_config D) + 1"
    and "maxRetries (dp_config D) + 2 - a \<le> int (length Vs)"
    and "int (r_attempt_count row) + (maxRetries (dp_config D) + 2 - a) \<le> int uint32_max"
  shows "\<exists>k w' st Q. chase D ch Vs ((\<lambda>_. [])(mainQueue ch := [body])) w = (k, w', Q) \<and>
    1 \<le> k \<and> int k \<le> maxRetries (dp_config D) + 2 - a \<and>
    select_by_id (dp_db D) nid (w_db w') = Some (row\<lparr>r_status := st, r_attempt_count := r_attempt_count row + k\<rparr>) \<and>
    (st = ''SENT'' \<and> Q = (\<lambda>_. []) \<or>
     st = ''DEAD_LETTERED'' \<and> (\<exists>last. Q = (\<lambda>_. [])(dlq ch := [last]) \<and>
       decode (dp_json D) last = Inr (nid, a + int k - 1, p)))"
  using chase_bounded [OF assms, of ch] unfolding chain_end_def only_def by metis

theorem retry_ladder_ends_witness:
  "\<exists>k w' st Q. chase sample_deployment Sms
       (replicate 4 (sample_env (Inl (ProviderException ''timeout'' True))))
       ((\<lambda>_. [])(mainQueue Sms := [sample_body 1])) sample_world = (k, w', Q) \<and> k \<le> 4 \<and>
     map_option r_status (select_by_id plain_env (n_id sample_saved) (w_db w')) = Some st \<and>
     (st = ''SENT'' \<or> st = ''DEAD_LETTERED'' \<and> Q (dlq Sms) \<noteq> [])"
proof -
  let ?V = "sample_env (Inl (ProviderException ''timeout'' True))"
  let ?row = "inserted_row sample_saved 0" and ?D = sample_deployment
  have D: "dp_db ?D = plain_env" "dp_json ?D = chunk_json" "maxRetries (dp_config ?D) = 3"
    by (simp_all add: sample_deployment_def Config_default_def)
  have r: "int32_range 1" "int32_range (maxRetries (dp_config ?D) + 2)" by (simp_all add: D int32_range_def)
  have asc: "ascii (n_id sample_saved)" by (simp add: ascii_def sample_saved_def)
  have cl: "climbing (dp_db ?D) (dp_json ?D) sample_world (sample_body 1) (n_id sample_saved) 1 5 ?row"
    by (simp add: D climbing_def sample_world_def schema_inv_sample router_inv_new decode_sample r sample_row
        fault_free_def) (simp add: sample_db_def db_empty_def inserted_row_def newRow_def)
  have count: "r_attempt_count ?row = 0" by (simp add: inserted_row_def newRow_def)
  have vs: "list_all (\<lambda>V. we_db V = dp_db ?D \<and> we_json V = dp_json ?D \<and>
      (\<forall>p n. polite (we_provider V p n))) (replicate 4 ?V)"
    by (auto simp: D list_all_iff polite_def varchar_def utf8_length_def)
  have p: "1 \<le> maxRetries (dp_config ?D) + 1" "maxRetries (dp_config ?D) + 2 - 1 \<le> int (length (replicate 4 ?V))"
    "int (r_attempt_count ?row) + (maxRetries (dp_config ?D) + 2 - 1) \<le> int uint32_max"
    by (simp_all add: D count uint32_max_def)
  obtain k w' st Q where "chase ?D Sms (replicate 4 ?V) ((\<lambda>_. [])(mainQueue Sms := [sample_body 1])) sample_world = (k, w', Q)"
    "int k \<le> 3 + 2 - 1"
    "select_by_id plain_env (n_id sample_saved) (w_db w') =
       Some (?row\<lparr>r_status := st, r_attempt_count := r_attempt_count ?row + k\<rparr>)"
    "st = ''SENT'' \<or> st = ''DEAD_LETTERED'' \<and> (\<exists>last. Q = (\<lambda>_. [])(dlq Sms := [last]))"
    using retry_ladder_ends [OF deployable_sample asc r(2) vs cl p, of Sms] unfolding D by blast
  then show ?thesis by (intro exI [of _ k] exI [of _ w'] exI [of _ st] exI [of _ Q]) auto
qed

end
