(* ===== verification/Healthy.thy ===== *)
theory Healthy
  imports Quiescence AuditTrail RetryLadder
begin

text \<open>
  The service with the repository's own providers and a database that answers: no exception
  ever leaves a handler, so that at rest (\<open>Quiescence\<close>) every notification has been delivered
  or parked. What has to be excluded on the way is every other source of exceptions: columns
  that overflow, texts that do not fit, rows that do not decode, channels without a provider,
  bodies that cannot be printed.
\<close>

section \<open>The environment\<close>

definition mock_answers :: "answers set" where
  "mock_answers = {mock_send d | d. valid_draws (refDraws d)}"

definition no_faults :: "string option list set" where
  "no_faults = {fs. \<forall>f\<in>set fs. f = None}"

lemma utf8_length_append [simp]: "utf8_length (xs @ ys) = utf8_length xs + utf8_length ys"
  by (simp add: utf8_length_def)

lemma utf8_length_le: "utf8_length xs \<le> length xs"
  by (simp add: utf8_length_def)

lemma varchar_length: "length xs \<le> n \<Longrightarrow> varchar n xs"
  using utf8_length_le [of xs] by (simp add: varchar_def)

text \<open>The mock providers' texts fit their columns when the recipient fits its own.\<close>

lemma simulate_polite:
  assumes "varchar 255 (n_recipient n)" "length p \<le> 5"
  shows "polite (simulate d n p)"
proof -
  have "utf8_length (p @ m @ n_recipient n) \<le> 1024" if "length m \<le> 100" for m
    using assms that utf8_length_le [of p] utf8_length_le [of m] by (simp add: varchar_def)
  from this [of "'' provider rejected recipient ''"]
  have "utf8_length (p @ '' provider rejected recipient '' @ n_recipient n) \<le> 1024" by (simp del: utf8_length_append)
  moreover have "varchar 1024 (p @ '' provider timed out'')" "varchar 255 (p @ ''-'' @ uuid4 (refDraws d))"
    by (rule varchar_length; use assms(2) in simp)+
  ultimately show ?thesis by (auto simp: simulate_def polite_def varchar_def)
qed

lemma mock_polite: "A \<in> mock_answers \<Longrightarrow> varchar 255 (n_recipient n) \<Longrightarrow> polite (A m n)"
  by (cases m) (auto simp: mock_answers_def intro!: simulate_polite)

section \<open>Rows and router\<close>

text \<open>A statement keeps the recipients and adds at most one to an attempt count.\<close>

definition grown :: "database \<Rightarrow> database \<Rightarrow> bool" where
  "grown d d' \<longleftrightarrow> (\<forall>row'\<in>set (notifications d'). \<exists>row\<in>set (notifications d).
     r_recipient row' = r_recipient row \<and> r_attempt_count row' \<le> Suc (r_attempt_count row))"

lemma grown_same: "notifications d' = notifications d \<Longrightarrow> grown d d'"
  by (auto simp: grown_def)

lemma grown_update:
  assumes "row_update E upd f" "upd i d = (r, d')"
    and "\<And>row. r_recipient (f row) = r_recipient row \<and> r_attempt_count (f row) \<le> Suc (r_attempt_count row)"
  shows "grown d d'"
proof -
  have "d' = pop_fault d \<or> d' = rewrite_rows E f i (pop_fault d)"
    using row_update.upd_outcome [OF assms(1), of i d] assms(2) by auto
  then show ?thesis using assms(3) by (fastforce simp: grown_def rewrite_rows_def)
qed

lemmas updates_grow =
  grown_update [OF mp.row_update_axioms] grown_update [OF ms.row_update_axioms]
  grown_update [OF md.row_update_axioms] grown_update [OF ic.row_update_axioms]

lemma growth [simp]:
  "r_recipient (set_status st row) = r_recipient row" "r_attempt_count (set_status st row) = r_attempt_count row"
  "r_recipient (bump_count row) = r_recipient row" "r_attempt_count (bump_count row) = Suc (r_attempt_count row)"
  by (simp_all add: set_status_def bump_count_def)

lemma op_act_grown:
  assumes "op_act V ch tag op w = (r, w')" shows "grown (w_db w) (w_db w')"
proof (cases op)
  case (Record att)
  with assms show ?thesis by (auto simp: op_act_def dest!: on_dbE record_frame intro: grown_same)
next
  case (PublishRetry i b q)
  with assms show ?thesis by (auto simp: op_act_def bindA_def emit_eq intro!: grown_same split: sum.splits)
qed (use assms in \<open>auto simp: op_act_def emit_eq dest!: on_dbE intro: updates_grow grown_same\<close>)

lemma handler_step_grown:
  assumes "handler_step V ch config body tag pc w = (pc', w')" shows "grown (w_db w) (w_db w')"
proof (cases pc)
  case (Lookup i b q)
  obtain r w1 where f: "on_db (findById (we_db V) i) w = (r, w1)" by (cases "on_db (findById (we_db V) i) w")
  then have "w_db w1 = pop_fault (w_db w)"
    using on_dbE [OF f] findById_state [of "we_db V" i "w_db w"] by simp
  moreover have "w' = w1" using assms f Lookup by (auto split: sum.splits option.splits if_splits)
  ultimately show ?thesis by (simp add: grown_same)
next
  case (Claim i b q n)
  with assms show ?thesis by (auto dest!: on_dbE intro: updates_grow split: prod.splits sum.splits)
next
  case (Todo ops)
  show ?thesis
  proof (cases ops)
    case (Cons op rest)
    obtain r w1 where o: "op_act V ch tag op w = (r, w1)" by (cases "op_act V ch tag op w")
    then have "w' = w1" using assms Todo Cons by (auto split: sum.splits)
    then show ?thesis using op_act_grown [OF o] by simp
  qed (use assms Todo in \<open>simp add: grown_same\<close>)
qed (use assms in \<open>auto simp: on_router_def zoomA_def intro!: grown_same split: prod.splits sum.splits if_splits\<close>)

text \<open>Every channel keeps its entry.\<close>

definition entries_ok :: "'p ProviderRouter \<Rightarrow> bool" where
  "entries_ok r \<longleftrightarrow> (\<forall>c. entries r (int_of_Channel c) \<noteq> None)"

lemma router_entries_ok:
  "router_admit t n r = (x, r') \<Longrightarrow> entries_ok r \<Longrightarrow> entries_ok r'"
  "router_call prov n r = (y, r') \<Longrightarrow> entries_ok r \<Longrightarrow> entries_ok r'"
  "router_report t n oc r = (z, r') \<Longrightarrow> entries_ok r \<Longrightarrow> entries_ok r'"
  by (auto simp: router_admit_def router_call_def router_report_def entries_ok_def Let_def split: option.splits prod.splits)

lemma handler_step_entries:
  assumes "handler_step V ch config body tag pc w = (pc', w')" "entries_ok (w_router w)"
  shows "entries_ok (w_router w')"
proof (cases pc)
  case (Calling i b q n)
  with assms show ?thesis
    by (auto simp: on_router_def zoomA_def dest: router_entries_ok(1) split: prod.splits sum.splits if_splits)
next
  case (Sending i b q n)
  with assms show ?thesis
    by (auto simp: on_router_def zoomA_def dest: router_entries_ok(2) split: prod.splits sum.splits if_splits)
next
  case (Reporting i b q n outcome)
  with assms show ?thesis
    by (auto simp: on_router_def zoomA_def dest: router_entries_ok(3) split: prod.splits sum.splits if_splits)
next
  case (Todo ops)
  show ?thesis
  proof (cases ops)
    case (Cons op rest)
    obtain r w1 where o: "op_act V ch tag op w = (r, w1)" by (cases "op_act V ch tag op w")
    have "w_router w1 = w_router w"
      using o by (cases op) (auto simp: op_act_def emit_eq bindA_def dest!: on_dbE split: sum.splits)
    moreover have "w' = w1" using assms(1) Todo Cons o by (auto split: sum.splits)
    ultimately show ?thesis using assms(2) by simp
  qed (use assms Todo in simp)
qed (use assms in \<open>auto dest!: on_dbE split: prod.splits sum.splits option.splits if_splits\<close>)

text \<open>In every reachable state recipients fit their column and every channel has its provider.\<close>

definition fitting :: "tsys \<Rightarrow> bool" where
  "fitting s \<longleftrightarrow> (\<forall>row\<in>set (notifications (t_db s)). varchar 255 (r_recipient row)) \<and> entries_ok (t_router s)"

lemma fitting_step:
  assumes f: "fitting s" and step: "tsys_step D s s'" shows "fitting s'"
  using step
proof cases
  case (work i ch body tag pc V pc' w')
  have "grown (t_db s) (w_db w')" using handler_step_grown [OF work(5)] by simp
  moreover have "entries_ok (w_router w')" using handler_step_entries [OF work(5)] f by (simp add: fitting_def)
  ultimately show ?thesis using f unfolding fitting_def grown_def by (auto simp: work(1))
next
  case (check i n r d')
  then have "notifications (t_db s') = notifications (t_db s)"
    using findByIdempotencyKey_state [of "dp_db D" "n_idempotencyKey n" "t_db s"] by simp
  then show ?thesis using f by (simp add: fitting_def check(1))
next
  case (insert i n u r d')
  then have "\<forall>row\<in>set (notifications d'). row \<in> set (notifications (t_db s)) \<or> varchar 255 (r_recipient row)"
    using insertTransaction_outcome [OF insert(4)]
    by (auto simp: Let_def same_tables_def with_inserted_def notification_fits_def inserted_row_def newRow_def)
  then show ?thesis using f by (auto simp: fitting_def insert(1))
next
  case new_router
  then show ?thesis using f by (simp add: fitting_def entries_ok_def newRouter_entries)
qed (use f in \<open>auto simp: fitting_def\<close>)

lemma fitting_reach: "tsys_reach D s \<Longrightarrow> fitting s"
proof (induction rule: tsys_reach.induct)
  case init
  show ?case by (simp add: fitting_def entries_ok_def tsys_init_def db_empty_def newRouter_entries)
qed (rule fitting_step)

section \<open>No exception leaves a handler\<close>

text \<open>What a handler holds fits the columns it will be written to.\<close>

definition fits :: "handler_pc \<Rightarrow> bool" where
  "fits pc \<longleftrightarrow>
     (case pc of
        Claim nid a p n \<Rightarrow> varchar 255 (n_recipient n)
      | Calling nid a p n \<Rightarrow> varchar 255 (n_recipient n)
      | Sending nid a p n \<Rightarrow> varchar 255 (n_recipient n)
      | Reporting nid a p n outcome \<Rightarrow> polite outcome
      | Todo ops \<Rightarrow> (\<forall>att. Record att \<in> set ops \<longrightarrow>
          varchar_null 255 (a_providerRef att) \<and> varchar_null 1024 (a_errorMessage att))
      | Threw ex \<Rightarrow> False
      | _ \<Rightarrow> True)"

lemma fits_simps [simp]:
  "fits Begin" "fits (Lookup nid a p)" "\<not> fits (Threw ex)" "fits (Todo [])" "fits (Todo [AckMessage])"
  "fits (Claim nid a p n) \<longleftrightarrow> varchar 255 (n_recipient n)"
  "fits (Calling nid a p n) \<longleftrightarrow> varchar 255 (n_recipient n)"
  "fits (Sending nid a p n) \<longleftrightarrow> varchar 255 (n_recipient n)"
  "fits (Reporting nid a p n outcome) \<longleftrightarrow> polite outcome"
  by (simp_all add: fits_def)

lemma fits_rest: "fits (Todo (op # rest)) \<Longrightarrow> fits (Todo rest)"
  by (simp add: fits_def)

lemma ops_fit:
  "varchar 255 (providerRef result) \<Longrightarrow> fits (Todo (success_ops ch nid a result))"
  "varchar 1024 (what ex) \<Longrightarrow> fits (Todo (failure_ops ch config nid a p body ex))"
  by (auto simp: fits_def success_ops_def failure_ops_def Let_def newAttempt_def DeliveryAttempt_default_def
      varchar_null_def)

lemma circuit_open_fits: "varchar 1024 (''circuit breaker open for channel '' @ toString_Channel c)"
  by (rule varchar_length) (cases c; simp)

text \<open>The state in which a handler takes its step.\<close>

definition serviceable :: "'j deployment \<Rightarrow> database \<Rightarrow> bool" where
  "serviceable D d \<longleftrightarrow> schema_inv (dp_db D) d \<and> fault_free d \<and> (\<forall>row\<in>set (notifications d).
     varchar 255 (r_recipient row) \<and> r_attempt_count row < uint32_max \<and> ascii (r_id row))"

lemma op_returns:
  assumes dep: "deployable D" and d: "serviceable D (w_db w)" and V: "we_db V = dp_db D" "we_json V = dp_json D"
    and good: "good_msg D (w_db w) ch body" and ok: "pc_ok (dp_json D) (dp_config D) K body (Todo (op # rest))"
    and own: "records_own (dp_json D) ch body (Todo (op # rest))" and fit: "fits (Todo (op # rest))"
  shows "\<exists>w'. op_act V ch tag op w = (Inr (), w') \<and> fault_free (w_db w')"
proof -
  have s: "schema_inv (dp_db D) (w_db w)" "fault_free (w_db w)" "no_fault (w_db w)"
    using d fault_free_no_fault by (auto simp: serviceable_def)
  have db: "\<exists>w'. on_db m w = (Inr (), w') \<and> fault_free (w_db w')" if "m (w_db w) = (Inr (), d')" "fault_free d'" for m d'
    using that by (simp add: on_db_def zoomA_def)
  obtain nid a p row where row: "decode (dp_json D) body = Inr (nid, a, p)" "1 \<le> a"
    "a \<le> max 1 (maxRetries (dp_config D) + 1)" "row \<in> set (notifications (w_db w))" "r_id row = nid"
    using good by (auto simp: good_msg_def)
  show ?thesis
  proof (cases op)
    case (Record att)
    then obtain p' where "decode (dp_json D) body = Inr (a_notificationId att, a_attemptNumber att, p')"
      using own by (auto simp: records_own_def)
    then have att: "a_notificationId att = nid" "a_attemptNumber att = a" using row(1) by simp_all
    have "select_by_id (dp_db D) nid (w_db w) = Some row"
      by (rule select_by_id_unique [OF key_inv_schema [OF s(1)] row(4)]) (simp add: row(5))
    moreover have "0 \<le> a" "a \<le> int uint32_max"
      using row(2,3) dep by (auto simp: deployable_def int32_range_def uint32_max_def)
    moreover have "varchar_null 255 (a_providerRef att)" "varchar_null 1024 (a_errorMessage att)"
      using fit Record by (simp_all add: fits_def)
    ultimately obtain d' where "record_attempt (dp_db D) att (w_db w) = (Inr (), d')" "fault_free d'"
      using record_returns [OF s(2), of att "dp_db D" row] unfolding att by blast
    from db [where m = "record_attempt (dp_db D) att", OF this] show ?thesis by (simp add: op_act_def Record V)
  next
    case (MarkSent i)
    then show ?thesis using db [where m = "markSent (dp_db D) i", OF mark_no_fault(2) [OF s(3)]] s(2) by (simp add: op_act_def V)
  next
    case (Increment i)
    have "incrementAttemptCount (dp_db D) i (w_db w) = (Inr (), rewrite_rows (dp_db D) bump_count i (pop_fault (w_db w)))"
      by (rule increment_no_fault [OF s(3)]) (use d in \<open>auto simp: serviceable_def\<close>)
    from db [where m = "incrementAttemptCount (dp_db D) i", OF this] show ?thesis
      using s(2) by (simp add: op_act_def V Increment)
  next
    case (PublishRetry i b q)
    have "i = nid" using ok row(1) PublishRetry by (auto simp: pc_ok_def)
    then have "ascii i" using d row(4,5) by (auto simp: serviceable_def)
    moreover have "json_laws (dp_json D)" using dep by (simp add: deployable_def)
    ultimately obtain msg where "j_dump (dp_json D) (retryBody (dp_json D) i b q) = Inr msg"
      using delivery_prints unfolding retryBody_fields by blast
    then show ?thesis using s(2) by (simp add: op_act_def V PublishRetry bindA_def liftE_def emit_eq)
  next
    case (MarkDeadLettered i)
    then show ?thesis using db [where m = "markDeadLettered (dp_db D) i", OF mark_no_fault(3) [OF s(3)]] s(2) by (simp add: op_act_def V)
  qed (use s(2) in \<open>simp_all add: op_act_def emit_eq\<close>)
qed

lemma healthy_step:
  assumes dep: "deployable D" and d: "serviceable D (w_db w)" and r: "entries_ok (w_router w)"
    and V: "we_db V = dp_db D" "we_json V = dp_json D" "we_provider V \<in> mock_answers"
    and h: "handler_step V ch (dp_config D) body tag pc w = (pc', w')"
    and good: "good_msg D (w_db w) ch body" and ok: "pc_ok (dp_json D) (dp_config D) K body pc"
    and own: "records_own (dp_json D) ch body pc" and fit: "fits pc"
  shows "fits pc' \<and> fault_free (w_db w')"
proof -
  have s: "schema_inv (dp_db D) (w_db w)" "fault_free (w_db w)" "no_fault (w_db w)"
    using d fault_free_no_fault by (auto simp: serviceable_def)
  show ?thesis
  proof (cases pc)
    case Begin
    then show ?thesis using h good s(2) V by (auto simp: good_msg_def)
  next
    case (Lookup nid a p)
    show ?thesis
    proof (cases "select_by_id (dp_db D) nid (w_db w)")
      case None
      then show ?thesis
        using h s(2) Lookup V findById_none [OF s(3) None] by (auto simp: on_db_def zoomA_def)
    next
      case (Some row)
      then have m: "row \<in> set (notifications (w_db w))" using select_by_id_SomeD by blast
      then have "enum_row row" using key_inv_schema [OF s(1)] by (auto simp: key_inv_def list_all_iff)
      then obtain n where n: "rowToNotification row = Inr n" using rowToNotification_total by blast
      have "varchar 255 (n_recipient n)" using m d rowToNotification_fields(5) [OF n] by (simp add: serviceable_def)
      then show ?thesis
        using h s(2) Lookup V findById_some [OF s(3) Some n] by (auto simp: on_db_def zoomA_def split: if_splits)
    qed
  next
    case (Claim nid a p n)
    then show ?thesis
      using h s(2) V fit mark_no_fault(1) [OF s(3), of "dp_db D" nid] by (auto simp: on_db_def zoomA_def)
  next
    case (Calling nid a p n)
    obtain e where e: "entries (w_router w) (int_of_Channel (n_channel n)) = Some e" using r by (auto simp: entries_ok_def)
    obtain x r' where x: "router_admit (we_t1 V) n (w_router w) = (x, r')" by (cases "router_admit (we_t1 V) n (w_router w)")
    then have "x = Inr () \<or> x = Inl (circuit_open (n_channel n))"
      by (auto simp: router_admit_def e circuit_open_def split: prod.splits if_splits)
    moreover have "fits (Todo (failure_ops ch (dp_config D) nid a p body (circuit_open (n_channel n))))"
      by (rule ops_fit(2)) (simp only: circuit_open_def what.simps circuit_open_fits)
    moreover have "is_ProviderException (circuit_open c)" for c by (simp add: circuit_open_def)
    ultimately show ?thesis using h s(2) fit x by (auto simp: Calling on_router_def zoomA_def)
  next
    case (Sending nid a p n)
    obtain e where e: "entries (w_router w) (int_of_Channel (n_channel n)) = Some e" using r by (auto simp: entries_ok_def)
    have "polite (we_provider V (e_provider e) n)"
      by (rule mock_polite [OF V(3)]) (use fit Sending in simp)
    then show ?thesis
      using h s(2) router_call_known [OF e, of "we_provider V"] by (auto simp: Sending on_router_def zoomA_def)
  next
    case (Reporting nid a p n x)
    obtain r' where r: "router_report (we_t2 V) n x (w_router w) = (x, r')"
      using router_report_outcome by (metis eq_fst_iff)
    have "polite x" using fit Reporting by simp
    then consider res where "x = Inr res" "varchar 255 (providerRef res)"
      | m t where "x = Inl (ProviderException m t)" "varchar 1024 m"
      by (auto simp: polite_def)
    then show ?thesis
    proof cases
      case (1 res)
      then show ?thesis using h s(2) r ops_fit(1) [OF 1(2)]
        by (auto simp: Reporting on_router_def zoomA_def)
    next
      case (2 m t)
      have "fits (Todo (failure_ops ch (dp_config D) nid a p body (ProviderException m t)))"
        by (rule ops_fit(2)) (simp add: 2(2))
      then show ?thesis using h s(2) r 2(1) by (auto simp: Reporting on_router_def zoomA_def)
    qed
  next
    case (Todo ops)
    show ?thesis
    proof (cases ops)
      case Nil
      then show ?thesis using h Todo s(2) by auto
    next
      case (Cons op rest)
      obtain w1 where "op_act V ch tag op w = (Inr (), w1)" "fault_free (w_db w1)"
        using op_returns [OF dep d V(1,2) good] ok own fit unfolding Todo Cons by blast
      then show ?thesis using h fits_rest fit Todo Cons by auto
    qed
  qed (use fit in simp)
qed

section \<open>Healthy runs\<close>

text \<open>
  Nothing fails from outside, every handler is at work as it should be, and the attempt counts
  are far enough from the end of their column for the work that is left.
\<close>

definition healthy :: "'j deployment \<Rightarrow> tsys \<Rightarrow> bool" where
  "healthy D s \<longleftrightarrow> fault_free (t_db s) \<and> work_left D s \<le> uint32_max \<and>
     (\<forall>row\<in>set (notifications (t_db s)). r_attempt_count row + work_left D s \<le> uint32_max) \<and>
     (\<forall>i ch body tag pc. t_workers s i = Busy ch body tag pc \<longrightarrow> fits pc \<and> records_own (dp_json D) ch body pc)"

lemma healthyD:
  assumes "healthy D s"
  shows "fault_free (t_db s)" "work_left D s \<le> uint32_max"
    and "row \<in> set (notifications (t_db s)) \<Longrightarrow> r_attempt_count row + work_left D s \<le> uint32_max"
    and "t_workers s i = Busy ch body tag pc \<Longrightarrow> fits pc \<and> records_own (dp_json D) ch body pc"
  using assms by (simp_all add: healthy_def)

lemma counts_step:
  assumes step: "serve_step P D s s'" and row': "row' \<in> set (notifications (t_db s'))"
  shows "r_attempt_count row' = 0 \<or>
    (\<exists>row\<in>set (notifications (t_db s)). r_attempt_count row' \<le> Suc (r_attempt_count row))"
  using step
proof cases
  case (work i ch body tag pc V pc' w')
  have "grown (t_db s) (w_db w')" using handler_step_grown [OF work(7)] by simp
  then show ?thesis using row' unfolding grown_def work(1) by auto
next
  case (check i n r d')
  then have "row' \<in> set (notifications (t_db s))"
    using findByIdempotencyKey_state [of "dp_db D" "n_idempotencyKey n" "t_db s"] row' by simp
  then show ?thesis by (meson le_SucI order_refl)
next
  case (insert i n u r d')
  then have "row' \<in> set (notifications (t_db s)) \<or> r_attempt_count row' = 0"
    using insertTransaction_outcome [OF insert(4)] row'
    by (auto simp: Let_def same_tables_def with_inserted_def inserted_row_def newRow_def)
  then show ?thesis by (meson le_SucI order_refl)
qed (use row' in \<open>simp_all, (meson le_SucI order_refl)+\<close>)

lemma fault_free_rollback: "preserves fault_free (rollback snap)"
proof (rule preservesI)
  fix d r t assume "fault_free d" "rollback snap d = (r, t)"
  then show "fault_free t" using rollback_state [of snap d] fault_free_pop [of "restore snap d"]
    by (simp add: restore_def fault_free_def)
qed

lemma fault_free_insert: "preserves fault_free (insertTransaction E u n)"
  unfolding insertTransaction_def startTransaction_def commit_def Let_def
  by (intro preserves_intros fault_free_rollback preserves_query preserves_execute)
    (rule fault_free_pop | fastforce simp: insert_notification_def insert_outbox_def fault_free_def split: if_splits)+

lemma healthy_serve:
  assumes dep: "deployable D" and r: "tsys_reach D s" and hs: "healthy D s" and step: "serve_step mock_answers D s s'"
  shows "healthy D s'"
proof -
  have core: "core_inv D s" using tsys_inv_reach [OF r dep] by (simp add: tsys_inv_def)
  note I = core_invD [OF core] and H = healthyD [OF hs] and fit = fitting_reach [OF r]
  have less: "work_left D s' < work_left D s" by (rule serve_decreases [OF dep core few_threads_reach [OF r] step])
  have count: "r_attempt_count row' + work_left D s' \<le> uint32_max" if "row' \<in> set (notifications (t_db s'))" for row'
    using counts_step [OF step that] less H(2,3) by fastforce
  have serv: "serviceable D (t_db s)"
    using I(1) H(1,3) less fit printableD(1) [OF printable_reach [OF r dep]]
    by (fastforce simp: serviceable_def fitting_def)
  have "fault_free (t_db s') \<and> (\<forall>i ch body tag pc. t_workers s' i = Busy ch body tag pc \<longrightarrow>
      fits pc \<and> records_own (dp_json D) ch body pc)"
    using step
  proof cases
    case (work i ch body tag pc V pc' w')
    note w = workers_okD [OF I(4) work(2)]
    have "fits pc' \<and> fault_free (w_db w')"
      by (rule healthy_step [where K = "body \<in> set (t_queues s (dlq ch))", OF dep _ _ work(4,5,6,7)]) (use w serv fit H(4) [OF work(2)] in \<open>simp_all add: fitting_def\<close>)
    moreover have "records_own (dp_json D) ch body pc'"
      using records_own_step [where K = "body \<in> set (t_queues s (dlq ch))", OF work(7)] w H(4) [OF work(2)] work(5) by simp
    ultimately show ?thesis using H(4) by (auto simp: work(1) split: if_splits)
  next
    case (check i n q d')
    then have "t_db s' = pop_fault (t_db s)"
      using findByIdempotencyKey_state [of "dp_db D" "n_idempotencyKey n" "t_db s"] by simp
    then show ?thesis using H(1,4) by (simp add: check(1))
  next
    case (insert i n u q d')
    then show ?thesis using H(4) preservesD [OF fault_free_insert H(1) insert(4)] by simp
  qed (use H(1,4) in \<open>auto simp: fits_def records_own_def split: if_splits\<close>)
  then show ?thesis using count less H(2) by (simp add: healthy_def)
qed

lemma healthy_quiet:
  "healthy D s \<Longrightarrow> healthy D (s\<lparr>t_router := r\<rparr>)"
  "healthy D s \<Longrightarrow> fs \<in> no_faults \<Longrightarrow> healthy D (s\<lparr>t_db := (t_db s)\<lparr>db_faults := fs, db_now := now\<rparr>\<rparr>)"
proof -
  have "work_left D (s\<lparr>t_router := r\<rparr>) = work_left D s" "work_left D (s\<lparr>t_db := d\<rparr>) = work_left D s" for d
    by (simp_all add: work_left_def)
  then show "healthy D s \<Longrightarrow> healthy D (s\<lparr>t_router := r\<rparr>)"
    and "healthy D s \<Longrightarrow> fs \<in> no_faults \<Longrightarrow> healthy D (s\<lparr>t_db := (t_db s)\<lparr>db_faults := fs, db_now := now\<rparr>\<rparr>)"
    by (simp_all add: healthy_def no_faults_def fault_free_def)
qed

lemma healthy_run:
  assumes "serves mock_answers no_faults D n s s'" "deployable D" "tsys_reach D s" "healthy D s"
  shows "healthy D s'"
  using assms
proof (induction rule: serves.induct)
  case start
  then show ?case by simp
next
  case (serve n s s' s'')
  show ?case
    by (rule healthy_serve [OF serve.prems(1) serves_reach [OF serve.hyps(1) serve.prems(2)] serve.IH [OF serve.prems] serve.hyps(2)])
next
  case (environment n s s' fs now)
  then show ?case by (intro healthy_quiet(2)) simp_all
next
  case (new_router n s s')
  then show ?case by (intro healthy_quiet(1)) simp_all
qed

section \<open>A submission that has just been stored\<close>

lemma some_mock_answer: "mock_send \<lparr>roll = 0, refDraws = zero_draws\<rparr> \<in> mock_answers"
  by (auto simp: mock_answers_def valid_draws_def zero_draws_def intro!: exI [of _ "\<lparr>roll = 0, refDraws = zero_draws\<rparr>"])

lemma sample_healthy:
  "t_workers sample_committed = (\<lambda>_. Free)" "fault_free (t_db sample_committed)"
  "work_left sample_deployment sample_committed \<le> uint32_max"
  "\<forall>row\<in>set (notifications (t_db sample_committed)).
     r_attempt_count row + work_left sample_deployment sample_committed \<le> uint32_max"
  "t_lost sample_committed = []"
proof -
  let ?D = sample_deployment and ?s = sample_committed
  have s: "t_workers ?s = (\<lambda>_. Free)" "t_posts ?s = (\<lambda>_. NoPost)(0 := Stored sample_saved)" "t_queues ?s = (\<lambda>_. [])"
    "t_lost ?s = []" "t_db ?s = sample_db"
    by (simp_all add: sample_committed_def sample_start_def)
  have "{i. t_posts ?s i \<noteq> NoPost} = {0}" by (auto simp: s)
  then have w: "work_left ?D ?s = 52"
    by (simp add: work_left_def queues_work_def queue_work_def s sample_deployment_def Config_default_def)
  show "t_workers ?s = (\<lambda>_. Free)" "t_lost ?s = []" by (fact s(1,4))+
  show "fault_free (t_db ?s)" by (simp add: s(5) sample_tables)
  show "work_left ?D ?s \<le> uint32_max" by (simp add: w uint32_max_def)
  show "\<forall>row\<in>set (notifications (t_db ?s)). r_attempt_count row + work_left ?D ?s \<le> uint32_max"
    unfolding s(5) w by (simp add: sample_db_def inserted_row_def newRow_def uint32_max_def)
qed

section \<open>Property\<close>

text \<open>The healthy service delivers or parks everything. Let no handler be at work in a
  reachable state (the workers have just been started, say), let the database answer every
  statement and the providers be the repository's own, and the attempt counts not be about to
  overflow. Then in every run without new requests and deaths of threads no exception ever
  leaves a handler, and when the run has come to rest, as it does within \<open>work_left\<close> steps (C4),
  every stored notification is SENT, or DEAD_LETTERED with its message in the dead-letter
  queue, except those whose announcement had been lost before the run.\<close>

theorem healthy_service_settles:
  assumes "deployable D" "tsys_reach D s" "t_workers s = (\<lambda>_. Free)" "fault_free (t_db s)" "work_left D s \<le> uint32_max"
    and "\<forall>row\<in>set (notifications (t_db s)). r_attempt_count row + work_left D s \<le> uint32_max"
    and "serves mock_answers no_faults D n s s'"
  shows "(\<forall>i ch body tag ex. t_workers s' i \<noteq> Busy ch body tag (Threw ex)) \<and>
    (at_rest D s' \<longrightarrow> (\<forall>row\<in>set (notifications (t_db s')).
       r_status row = ''SENT'' \<or> r_status row = ''DEAD_LETTERED'' \<and> parked D (t_queues s') row \<or>
       r_status row = ''PENDING'' \<and> r_id row \<in> set (t_lost s)))"
proof -
  have "healthy D s" using assms(3-6) by (simp add: healthy_def)
  from healthy_run [OF assms(7,1,2) this] have no_throw: "t_workers s' i \<noteq> Busy ch body tag (Threw ex)" for i ch body tag ex
    using healthyD(4) by (fastforce simp: fits_def)
  then have "\<not> crashed D s' row" for row by (simp add: crashed_def)
  then show ?thesis using no_throw rest_outcomes [OF assms(1,2,7)] by blast
qed

theorem healthy_service_settles_witness:
  "\<exists>n s'. serves mock_answers no_faults sample_deployment n sample_committed s' \<and> at_rest sample_deployment s' \<and>
     (\<forall>row\<in>set (notifications (t_db s')). r_status row = ''SENT'' \<or> r_status row = ''DEAD_LETTERED'')"
proof -
  note h = sample_healthy
  obtain n s' where run: "serves mock_answers no_faults sample_deployment n sample_committed s'" "at_rest sample_deployment s'"
    using rest_is_reached [OF deployable_sample some_mock_answer sample_committed_reachable] by blast
  from healthy_service_settles [OF deployable_sample sample_committed_reachable h(1-4) run(1)] run
  show ?thesis by (intro exI [of _ n] exI [of _ s']) (auto simp: h(5))
qed

end
