(* ===== verification/Database.thy ===== *)
theory Database
  imports Config "HOL-Library.Multiset"
begin

text \<open>
  include/notification/Database.hpp and src/Database.cpp: the connection pool and the RAII
  handle. First the operations under the pool's mutex, then the interleaving of the threads
  that use the pool: HTTP threads, whose \<open>insertWithOutbox\<close> acquires a second session
  while it holds one, and all other repository calls, which hold one session at a time.
  Sessions are numbered by their creation order.
\<close>

section \<open>The pool and its operations\<close>

type_synonym session = nat

record ConnectionPool =
  available :: "session list"

text \<open>The constructor pushes \<open>size\<close> fresh sessions.\<close>

definition newPool :: "nat \<Rightarrow> ConnectionPool" where
  "newPool sz = \<lparr>available = foldl (\<lambda>q s. q @ [s]) [] [0..<sz]\<rparr>"

text \<open>\<open>static_cast<size_t>\<close> of a 32-bit \<open>int\<close>: main.cpp computes the pool size this way.\<close>

definition pool_size :: "Config \<Rightarrow> nat" where
  "pool_size c = unat (word_of_int (dbPoolSize c) :: 64 word)"

text \<open>
  \<open>acquire\<close> waits on the condition variable while the queue is empty: \<open>None\<close> means that
  the caller keeps waiting.
\<close>

definition acquire :: "ConnectionPool \<Rightarrow> (session \<times> ConnectionPool) option" where
  "acquire p = (case available p of [] \<Rightarrow> None | s # r \<Rightarrow> Some (s, p\<lparr>available := r\<rparr>))"

definition release :: "session \<Rightarrow> ConnectionPool \<Rightarrow> ConnectionPool" where
  "release s p = p\<lparr>available := available p @ [s]\<rparr>"

text \<open>
  \<open>PooledSession\<close>: the handle, null after it has been moved from. The destructor returns the
  session unless the handle is null; the defaulted move constructor empties its source.
\<close>

record PooledSession =
  session_ptr :: "session option"

definition newPooledSession :: "session \<Rightarrow> PooledSession" where
  "newPooledSession s = \<lparr>session_ptr = Some s\<rparr>"

text \<open>\<open>get\<close> dereferences the pointer: \<open>None\<close> is the undefined behaviour of a null pointer.\<close>

definition get_session :: "PooledSession \<Rightarrow> session option" where
  "get_session h = session_ptr h"

definition move_handle :: "PooledSession \<Rightarrow> PooledSession \<times> PooledSession" where
  "move_handle h = (h, h\<lparr>session_ptr := None\<rparr>)"

definition destroy_handle :: "PooledSession \<Rightarrow> ConnectionPool \<Rightarrow> ConnectionPool" where
  "destroy_handle h p = (case session_ptr h of None \<Rightarrow> p | Some s \<Rightarrow> release s p)"

section \<open>The pool as an interface\<close>

text \<open>A pool hands its idle sessions out in first-in first-out order and waits when empty.\<close>

locale session_pool =
  fixes idle :: "'p \<Rightarrow> 's list"
    and acq :: "'p \<Rightarrow> ('s \<times> 'p) option"
    and rel :: "'s \<Rightarrow> 'p \<Rightarrow> 'p"
  assumes acq_None: "acq p = None \<longleftrightarrow> idle p = []"
    and acq_Some: "acq p = Some (s, q) \<Longrightarrow> idle p = s # idle q"
    and idle_rel: "idle (rel s p) = idle p @ [s]"
begin

lemma acq_progress: "idle p \<noteq> [] \<Longrightarrow> \<exists>s q. acq p = Some (s, q)"
  using acq_None [of p] by (cases "acq p") auto

lemma acq_mset: "acq p = Some (s, q) \<Longrightarrow> mset (idle p) = add_mset s (mset (idle q))"
  by (drule acq_Some) simp

lemma rel_mset: "mset (idle (rel s p)) = add_mset s (mset (idle p))"
  by (simp add: idle_rel)

lemma acq_rel_mset: "acq p = Some (s, q) \<Longrightarrow> mset (idle (rel s q)) = mset (idle p)"
  by (simp add: acq_mset rel_mset)

end

interpretation pool: session_pool available acquire release
  by unfold_locales (auto simp: acquire_def release_def split: list.splits)

lemma available_newPool [simp]: "available (newPool n) = [0..<n]"
proof -
  have "foldl (\<lambda>q s. q @ [s]) ys xs = ys @ xs" for xs ys :: "nat list"
    by (induction xs arbitrary: ys) simp_all
  then show ?thesis by (simp add: newPool_def)
qed

lemma newPool_eq: "newPool n = \<lparr>available = [0..<n]\<rparr>"
  by (rule ConnectionPool.equality) simp_all

text \<open>
  Destroying the handle and its moved-from source returns the session exactly once.
\<close>

lemma destroy_after_move:
  assumes "move_handle h = (h1, h2)"
  shows "destroy_handle h1 (destroy_handle h2 p) = destroy_handle h p"
  using assms by (auto simp: move_handle_def destroy_handle_def split: option.splits)

text \<open>A handle moved on to the caller is usable there, and only there, until it gives the session back.\<close>

lemma handle_lifetime:
  assumes "move_handle (newPooledSession s) = (h, source)"
  shows "get_session h = Some s" "get_session source = None"
    and "destroy_handle source p = p" "destroy_handle h p = release s p"
  using assms by (auto simp: move_handle_def newPooledSession_def get_session_def destroy_handle_def)

section \<open>Threads sharing the pool\<close>

text \<open>
  The use each repository call makes of the pool. \<open>SingleAcquire\<close>: one handle for the
  duration of the call (all calls but one). \<open>InsertWithOutbox\<close>: a handle at the start, a
  second one inside \<open>findByIdempotencyKey\<close>, released when that returns or throws, and the
  first released at the end.
\<close>

datatype pool_call = SingleAcquire | InsertWithOutbox

datatype thread_pc =
    Idle
  | Wants pool_call
  | Holds pool_call session
  | Nested session session
  | AfterNested session

record pool_sys =
  ps_pool :: ConnectionPool
  ps_threads :: "nat \<Rightarrow> thread_pc"

definition pool_init :: "nat \<Rightarrow> pool_sys" where
  "pool_init sz = \<lparr>ps_pool = newPool sz, ps_threads = (\<lambda>_. Idle)\<rparr>"

text \<open>
  \<open>T\<close> is the set of all threads (workers and HTTP acceptors), \<open>H \<subseteq> T\<close> the HTTP threads, the
  only ones that call \<open>insertWithOutbox\<close>. Starting a call is a choice of the environment.
\<close>

inductive begin_call :: "nat set \<Rightarrow> nat set \<Rightarrow> pool_sys \<Rightarrow> pool_sys \<Rightarrow> bool" for T H where
  begin_single:
    "i \<in> T \<Longrightarrow> ps_threads s i = Idle \<Longrightarrow>
     begin_call T H s (s\<lparr>ps_threads := (ps_threads s)(i := Wants SingleAcquire)\<rparr>)"
| begin_insert:
    "i \<in> H \<Longrightarrow> ps_threads s i = Idle \<Longrightarrow>
     begin_call T H s (s\<lparr>ps_threads := (ps_threads s)(i := Wants InsertWithOutbox)\<rparr>)"

inductive pool_work :: "pool_sys \<Rightarrow> pool_sys \<Rightarrow> bool" where
  work_acquire:
    "ps_threads s i = Wants c \<Longrightarrow> acquire (ps_pool s) = Some (x, p) \<Longrightarrow>
     pool_work s (s\<lparr>ps_pool := p, ps_threads := (ps_threads s)(i := Holds c x)\<rparr>)"
| work_release:
    "ps_threads s i = Holds SingleAcquire x \<Longrightarrow>
     pool_work s (s\<lparr>ps_pool := release x (ps_pool s), ps_threads := (ps_threads s)(i := Idle)\<rparr>)"
| work_nested_acquire:
    "ps_threads s i = Holds InsertWithOutbox x \<Longrightarrow> acquire (ps_pool s) = Some (y, p) \<Longrightarrow>
     pool_work s (s\<lparr>ps_pool := p, ps_threads := (ps_threads s)(i := Nested x y)\<rparr>)"
| work_nested_release:
    "ps_threads s i = Nested x y \<Longrightarrow>
     pool_work s (s\<lparr>ps_pool := release y (ps_pool s), ps_threads := (ps_threads s)(i := AfterNested x)\<rparr>)"
| work_outer_release:
    "ps_threads s i = AfterNested x \<Longrightarrow>
     pool_work s (s\<lparr>ps_pool := release x (ps_pool s), ps_threads := (ps_threads s)(i := Idle)\<rparr>)"

inductive pool_reach :: "nat \<Rightarrow> nat set \<Rightarrow> nat set \<Rightarrow> pool_sys \<Rightarrow> bool" for sz T H where
  reach_init: "pool_reach sz T H (pool_init sz)"
| reach_begin: "pool_reach sz T H s \<Longrightarrow> begin_call T H s t \<Longrightarrow> pool_reach sz T H t"
| reach_work: "pool_reach sz T H s \<Longrightarrow> pool_work s t \<Longrightarrow> pool_reach sz T H t"

section \<open>Conservation of sessions\<close>

fun held :: "thread_pc \<Rightarrow> session multiset" where
  "held Idle = {#}"
| "held (Wants c) = {#}"
| "held (Holds c x) = {#x#}"
| "held (Nested x y) = {#x, y#}"
| "held (AfterNested x) = {#x#}"

fun inserting :: "thread_pc \<Rightarrow> bool" where
  "inserting Idle = False"
| "inserting (Wants c) = (c = InsertWithOutbox)"
| "inserting (Holds c x) = (c = InsertWithOutbox)"
| "inserting (Nested x y) = True"
| "inserting (AfterNested x) = True"

definition pool_inv :: "nat \<Rightarrow> nat set \<Rightarrow> nat set \<Rightarrow> pool_sys \<Rightarrow> bool" where
  "pool_inv sz T H s \<longleftrightarrow>
     mset (available (ps_pool s)) + (\<Sum>i\<in>T. held (ps_threads s i)) = mset [0..<sz] \<and>
     (\<forall>i. i \<notin> T \<longrightarrow> ps_threads s i = Idle) \<and>
     (\<forall>i. inserting (ps_threads s i) \<longrightarrow> i \<in> H)"

lemma sum_held_upd:
  assumes "finite T" "i \<in> T"
  shows "(\<Sum>j\<in>T. held ((f(i := c)) j)) + held (f i) = (\<Sum>j\<in>T. held (f j)) + held c"
proof -
  have "(\<Sum>j\<in>T - {i}. held ((f(i := c)) j)) = (\<Sum>j\<in>T - {i}. held (f j))"
    by (rule sum.cong) auto
  with assms show ?thesis
    by (simp add: sum.remove [of T i])
qed

text \<open>Rewriting a thread's state keeps the sum when what it gains is what the pool loses.\<close>

lemma pool_inv_update:
  assumes inv: "pool_inv sz T H s" and fin: "finite T" and i: "i \<in> T"
    and bal: "mset (available p) + held c = mset (available (ps_pool s)) + held (ps_threads s i)"
    and ins: "inserting c \<Longrightarrow> i \<in> H"
  shows "pool_inv sz T H (s\<lparr>ps_pool := p, ps_threads := (ps_threads s)(i := c)\<rparr>)"
proof -
  let ?S = "\<Sum>j\<in>T. held (ps_threads s j)"
  let ?S' = "\<Sum>j\<in>T. held (((ps_threads s)(i := c)) j)"
  have upd: "?S' + held (ps_threads s i) = ?S + held c"
    by (rule sum_held_upd [OF fin i])
  have "mset (available p) + ?S' + held (ps_threads s i) = mset (available p) + held c + ?S"
    using upd by (simp add: ac_simps)
  also have "\<dots> = mset (available (ps_pool s)) + ?S + held (ps_threads s i)"
    using bal by (simp add: ac_simps)
  finally have "mset (available p) + ?S' = mset (available (ps_pool s)) + ?S"
    by simp
  with inv i ins show ?thesis by (auto simp: pool_inv_def)
qed

lemma pool_inv_init: "finite T \<Longrightarrow> pool_inv sz T H (pool_init sz)"
  by (simp add: pool_inv_def pool_init_def)

lemma pool_inv_busy: "pool_inv sz T H s \<Longrightarrow> ps_threads s i \<noteq> Idle \<Longrightarrow> i \<in> T"
  by (auto simp: pool_inv_def)

lemma pool_inv_begin:
  assumes "begin_call T H s t" "pool_inv sz T H s" "finite T" "H \<subseteq> T"
  shows "pool_inv sz T H t"
  using assms
proof (cases rule: begin_call.cases)
  case (begin_single i)
  then show ?thesis
    using pool_inv_update [OF assms(2,3), of i "ps_pool s" "Wants SingleAcquire"] by simp
next
  case (begin_insert i)
  then show ?thesis
    using pool_inv_update [OF assms(2,3), of i "ps_pool s" "Wants InsertWithOutbox"] assms(4) by auto
qed

lemma pool_inv_work:
  assumes "pool_work s t" "pool_inv sz T H s" "finite T"
  shows "pool_inv sz T H t"
  using assms(1)
proof (cases rule: pool_work.cases)
  case (work_acquire i c x p)
  then have "i \<in> T" "inserting (Holds c x) \<Longrightarrow> i \<in> H"
    using assms(2) by (auto simp: pool_inv_def dest!: spec [of _ i])
  then show ?thesis
    using work_acquire pool_inv_update [OF assms(2,3), of i p "Holds c x"] pool.acq_mset by simp
next
  case (work_release i x)
  then have "i \<in> T" using pool_inv_busy [OF assms(2), of i] by simp
  then show ?thesis
    using work_release pool_inv_update [OF assms(2,3), of i "release x (ps_pool s)" Idle]
    by (simp add: pool.rel_mset)
next
  case (work_nested_acquire i x y p)
  then have "i \<in> T" "i \<in> H"
    using assms(2) by (auto simp: pool_inv_def dest!: spec [of _ i])
  then show ?thesis
    using work_nested_acquire pool_inv_update [OF assms(2,3), of i p "Nested x y"] pool.acq_mset
    by simp
next
  case (work_nested_release i x y)
  then have "i \<in> T" "i \<in> H"
    using assms(2) by (auto simp: pool_inv_def dest!: spec [of _ i])
  then show ?thesis
    using work_nested_release
      pool_inv_update [OF assms(2,3), of i "release y (ps_pool s)" "AfterNested x"]
    by (simp add: pool.rel_mset add_mset_commute)
next
  case (work_outer_release i x)
  then have "i \<in> T" using pool_inv_busy [OF assms(2), of i] by simp
  then show ?thesis
    using work_outer_release pool_inv_update [OF assms(2,3), of i "release x (ps_pool s)" Idle]
    by (simp add: pool.rel_mset)
qed

lemma pool_reach_inv:
  "pool_reach sz T H s \<Longrightarrow> finite T \<Longrightarrow> H \<subseteq> T \<Longrightarrow> pool_inv sz T H s"
  by (induction rule: pool_reach.induct) (auto intro: pool_inv_init pool_inv_begin pool_inv_work)

section \<open>Exclusive sessions\<close>

lemma pool_inv_count:
  "pool_inv sz T H s \<Longrightarrow>
   count (mset (available (ps_pool s))) x + (\<Sum>i\<in>T. count (held (ps_threads s i)) x) \<le> 1"
proof -
  assume "pool_inv sz T H s"
  then have "count (mset (available (ps_pool s)) + (\<Sum>i\<in>T. held (ps_threads s i))) x =
      count (mset [0..<sz]) x"
    by (simp add: pool_inv_def)
  then show ?thesis by (simp add: count_sum count_mset_set')
qed

lemma pool_inv_exclusive:
  assumes "pool_inv sz T H s" "finite T" "x \<in># held (ps_threads s i)"
  shows "x \<notin> set (available (ps_pool s))" and "x \<in># held (ps_threads s j) \<Longrightarrow> j = i"
proof -
  have busy: "x \<in># held (ps_threads s k) \<Longrightarrow> k \<in> T" for k
    using pool_inv_busy [OF assms(1), of k] by (cases "ps_threads s k") auto
  let ?f = "\<lambda>i. count (held (ps_threads s i)) x"
  have i: "i \<in> T" "1 \<le> ?f i" using busy assms(3) by (auto simp: Suc_le_eq)
  then have sum: "(\<Sum>i\<in>T. ?f i) = ?f i + (\<Sum>i\<in>T - {i}. ?f i)"
    using assms(2) by (simp add: sum.remove)
  have le: "count (mset (available (ps_pool s))) x + (\<Sum>i\<in>T. ?f i) \<le> 1"
    by (rule pool_inv_count [OF assms(1)])
  from le sum i(2) have "count (mset (available (ps_pool s))) x = 0" by linarith
  then show "x \<notin> set (available (ps_pool s))" by (simp add: count_mset_0_iff)
  show "j = i" if "x \<in># held (ps_threads s j)"
  proof (rule ccontr)
    assume "j \<noteq> i"
    with busy that have "?f j \<le> (\<Sum>i\<in>T - {i}. ?f i)"
      using assms(2) by (intro member_le_sum) auto
    moreover have "1 \<le> ?f j" using that by (simp add: Suc_le_eq)
    ultimately show False using le sum i(2) by simp
  qed
qed

section \<open>Progress\<close>

definition all_idle :: "pool_sys \<Rightarrow> bool" where
  "all_idle s \<longleftrightarrow> (\<forall>i. ps_threads s i = Idle)"

definition stuck :: "pool_sys \<Rightarrow> bool" where
  "stuck s \<longleftrightarrow> \<not> all_idle s \<and> \<not> (\<exists>t. pool_work s t)"

text \<open>When nothing moves, the pool is empty and every session is held by an inserting thread.\<close>

lemma stuck_pc:
  assumes "\<not> (\<exists>t. pool_work s t)"
  shows "ps_threads s i = Idle \<or>
         (available (ps_pool s) = [] \<and>
          ((\<exists>c. ps_threads s i = Wants c) \<or> (\<exists>x. ps_threads s i = Holds InsertWithOutbox x)))"
proof (cases "ps_threads s i")
  case Idle
  then show ?thesis by simp
next
  case (Wants c)
  then have "acquire (ps_pool s) = None"
    using assms by (metis work_acquire not_None_eq surj_pair)
  with Wants show ?thesis by (simp add: pool.acq_None)
next
  case (Holds c x)
  show ?thesis
  proof (cases c)
    case SingleAcquire
    with Holds assms show ?thesis by (metis work_release)
  next
    case InsertWithOutbox
    then have "acquire (ps_pool s) = None"
      using assms Holds by (metis work_nested_acquire not_None_eq surj_pair)
    with Holds InsertWithOutbox show ?thesis by (simp add: pool.acq_None)
  qed
next
  case (Nested x y)
  with assms show ?thesis by (metis work_nested_release)
next
  case (AfterNested x)
  with assms show ?thesis by (metis work_outer_release)
qed

lemma enough_sessions_not_stuck:
  assumes inv: "pool_inv sz T H s" and fin: "finite T" and sub: "H \<subseteq> T" and less: "card H < sz"
  shows "\<not> stuck s"
proof
  assume st: "stuck s"
  then obtain i where "ps_threads s i \<noteq> Idle" by (auto simp: stuck_def all_idle_def)
  with st have empty: "available (ps_pool s) = []"
    using stuck_pc [of s i] by (auto simp: stuck_def)
  have "sz = size (mset (available (ps_pool s)) + (\<Sum>i\<in>T. held (ps_threads s i)))"
    using inv by (simp add: pool_inv_def)
  also have "\<dots> = (\<Sum>i\<in>T. size (held (ps_threads s i)))"
    using empty by simp
  also have "\<dots> \<le> (\<Sum>i\<in>T. if i \<in> H then 1 else 0)"
  proof (rule sum_mono)
    fix i assume "i \<in> T"
    show "size (held (ps_threads s i)) \<le> (if i \<in> H then 1 else 0)"
      using stuck_pc [of s i] st inv by (auto simp: stuck_def pool_inv_def dest!: spec [of _ i])
  qed
  also have "\<dots> = card H"
    using fin sub by (simp add: sum.If_cases Int_absorb1)
  finally show False using less by simp
qed

text \<open>Every step of an ongoing call brings it closer to its end.\<close>

fun pc_rank :: "thread_pc \<Rightarrow> nat" where
  "pc_rank Idle = 0"
| "pc_rank (Wants c) = (if c = InsertWithOutbox then 4 else 2)"
| "pc_rank (Holds c x) = (if c = InsertWithOutbox then 3 else 1)"
| "pc_rank (Nested x y) = 2"
| "pc_rank (AfterNested x) = 1"

definition sys_rank :: "nat set \<Rightarrow> pool_sys \<Rightarrow> nat" where
  "sys_rank T s = (\<Sum>i\<in>T. pc_rank (ps_threads s i))"

lemma sys_rank_upd:
  assumes "finite T" "i \<in> T" "pc_rank c < pc_rank (ps_threads s i)"
  shows "sys_rank T (s\<lparr>ps_pool := p, ps_threads := (ps_threads s)(i := c)\<rparr>) < sys_rank T s"
proof -
  have "(\<Sum>j\<in>T. pc_rank (((ps_threads s)(i := c)) j)) < (\<Sum>j\<in>T. pc_rank (ps_threads s j))"
    using assms by (intro sum_strict_mono_ex1) auto
  then show ?thesis by (simp add: sys_rank_def)
qed

lemma pool_work_rank:
  assumes "pool_work s t" "pool_inv sz T H s" "finite T"
  shows "sys_rank T t < sys_rank T s"
  using assms(1)
  by cases (auto intro!: sys_rank_upd [OF assms(3)] pool_inv_busy [OF assms(2)] split: pool_call.splits)

lemma pool_completes:
  assumes "pool_inv sz T H s" "finite T" "H \<subseteq> T" "card H < sz"
  shows "\<exists>t. pool_work\<^sup>*\<^sup>* s t \<and> all_idle t"
  using assms(1)
proof (induction "sys_rank T s" arbitrary: s rule: less_induct)
  case less
  show ?case
  proof (cases "all_idle s")
    case True
    then show ?thesis by blast
  next
    case False
    with enough_sessions_not_stuck [OF less.prems assms(2-4)] obtain t where t: "pool_work s t"
      by (auto simp: stuck_def)
    with less pool_work_rank [OF t less.prems assms(2)] pool_inv_work [OF t less.prems assms(2)]
    show ?thesis by (meson converse_rtranclp_into_rtranclp)
  qed
qed

section \<open>Deadlock\<close>

text \<open>
  \<open>n\<close> HTTP threads that have each taken their first session inside \<open>insertWithOutbox\<close>, in
  the order of the list.
\<close>

definition holding :: "nat \<Rightarrow> nat list \<Rightarrow> nat \<Rightarrow> pool_sys" where
  "holding sz is n =
     \<lparr>ps_pool = \<lparr>available = [n..<sz]\<rparr>,
      ps_threads = (\<lambda>i. case map_of (zip (take n is) [0..<n]) i of
                          None \<Rightarrow> Idle | Some x \<Rightarrow> Holds InsertWithOutbox x)\<rparr>"

lemma reach_holding:
  assumes "set is \<subseteq> H" "distinct is" "length is \<le> sz" "n \<le> length is"
  shows "pool_reach sz T H (holding sz is n)"
  using assms(4)
proof (induction n)
  case 0
  have "holding sz is 0 = pool_init sz"
    by (simp add: holding_def pool_init_def newPool_eq)
  then show ?case by (simp add: reach_init)
next
  case (Suc n)
  let ?i = "is ! n"
  let ?s = "holding sz is n"
  have n: "n < length is" using Suc.prems by simp
  have "?i \<notin> set (take n is)"
    using n assms(2) by (auto simp: in_set_conv_nth nth_eq_iff_index_eq)
  then have notin: "map_of (zip (take n is) [0..<n]) ?i = None"
    by (auto simp: map_of_eq_None_iff dest: set_zip_leftD)
  then have idle: "ps_threads ?s ?i = Idle" by (simp add: holding_def)
  have "zip (take (Suc n) is) [0..<Suc n] = zip (take n is) [0..<n] @ [(?i, n)]"
    using n by (simp add: take_Suc_conv_app_nth)
  then have m: "map_of (zip (take (Suc n) is) [0..<Suc n]) =
      (map_of (zip (take n is) [0..<n]))(?i \<mapsto> n)"
    by (auto simp: map_add_def fun_eq_iff notin simp del: map_of_zip_is_None split: option.split)
  let ?s1 = "?s\<lparr>ps_threads := (ps_threads ?s)(?i := Wants InsertWithOutbox)\<rparr>"
  have "?i \<in> H" using assms(1) n nth_mem by blast
  then have r1: "pool_reach sz T H ?s1"
    using Suc by (intro reach_begin [OF _ begin_insert [OF _ idle]]) auto
  have acq: "acquire (ps_pool ?s1) = Some (n, \<lparr>available = [Suc n..<sz]\<rparr>)"
    using n assms(3) by (simp add: acquire_def holding_def upt_conv_Cons)
  have "holding sz is (Suc n) =
      ?s1\<lparr>ps_pool := \<lparr>available = [Suc n..<sz]\<rparr>,
           ps_threads := (ps_threads ?s1)(?i := Holds InsertWithOutbox n)\<rparr>"
    unfolding holding_def m by (simp add: fun_eq_iff)
  with r1 show ?case
    using reach_work [OF r1 work_acquire [OF _ acq, of ?i InsertWithOutbox]] by simp
qed

text \<open>A state in which sessions have run out among inserting threads.\<close>

definition starved :: "nat set \<Rightarrow> pool_sys \<Rightarrow> bool" where
  "starved D s \<longleftrightarrow> available (ps_pool s) = [] \<and>
     (\<forall>i\<in>D. \<exists>x. ps_threads s i = Holds InsertWithOutbox x) \<and>
     (\<forall>i. i \<notin> D \<longrightarrow> ps_threads s i = Idle \<or> (\<exists>c. ps_threads s i = Wants c))"

lemma starved_pc:
  assumes "starved D s"
  shows "acquire (ps_pool s) = None"
    and "ps_threads s i = Idle \<or> (\<exists>c. ps_threads s i = Wants c) \<or>
         (\<exists>x. ps_threads s i = Holds InsertWithOutbox x)"
  using assms by (auto simp: starved_def pool.acq_None)

lemma starved_no_work: "starved D s \<Longrightarrow> \<not> pool_work s t"
proof
  assume st: "starved D s" and "pool_work s t"
  from this(2) show False
  proof cases
    case (work_release i x)
    then show False using starved_pc(2) [OF st, of i] by simp
  next
    case (work_nested_release i x y)
    then show False using starved_pc(2) [OF st, of i] by simp
  next
    case (work_outer_release i x)
    then show False using starved_pc(2) [OF st, of i] by simp
  qed (simp_all add: starved_pc(1) [OF st])
qed

lemma starved_begin: "starved D s \<Longrightarrow> begin_call T H s t \<Longrightarrow> starved D t"
  by (erule begin_call.cases) (auto simp: starved_def)

lemma starved_stuck: "starved D s \<Longrightarrow> D \<noteq> {} \<Longrightarrow> stuck s"
  using starved_no_work [of D s] by (fastforce simp: stuck_def all_idle_def starved_def)

lemma starved_forever:
  "(\<lambda>a b. begin_call T H a b \<or> pool_work a b)\<^sup>*\<^sup>* s t \<Longrightarrow> starved D s \<Longrightarrow> starved D t"
  by (induction rule: rtranclp_induct) (auto dest: starved_begin starved_no_work)

lemma starved_holding:
  assumes "length is = sz" "distinct is"
  shows "starved (set is) (holding sz is sz)"
proof -
  have z: "zip (take sz is) [0..<sz] = zip is [0..<sz]" using assms(1) by simp
  have "\<exists>x. map_of (zip is [0..<sz]) i = Some x" if "i \<in> set is" for i
    using that assms(1) by (metis map_of_zip_is_Some length_upt diff_zero)
  moreover have "map_of (zip is [0..<sz]) i = None" if "i \<notin> set is" for i
    using that assms(1) by (simp add: map_of_zip_is_None)
  ultimately show ?thesis by (fastforce simp: starved_def holding_def z)
qed

section \<open>Properties\<close>

text \<open>Mutual exclusion: in every interleaving, a session held by one thread is neither
  idle in the pool nor held by another thread, so no two threads ever use the same
  (thread-unsafe) \<open>mysqlx::Session\<close>.\<close>

theorem pool_sessions_exclusive:
  assumes "pool_reach sz T H s" and "finite T" and "H \<subseteq> T" and "x \<in># held (ps_threads s i)"
  shows "x \<notin> set (available (ps_pool s)) \<and> {j. x \<in># held (ps_threads s j)} = {i}"
  using pool_inv_exclusive [OF pool_reach_inv [OF assms(1-3)] assms(2,4)] assms(4) by blast

theorem pool_sessions_exclusive_witness:
  "{j. 0 \<in># held (ps_threads (holding 2 [5, 6] 1) j)} = {5}"
  using pool_sessions_exclusive [OF reach_holding [of "[5, 6]" "{5, 6}" 2 1 "{5, 6}"], of 0 5]
  by (simp add: holding_def)

text \<open>No deadlock with the shipped sizing: when the pool has more sessions than there
  are HTTP threads, the calls in progress can always run to completion from any reachable
  state, and no reachable state with a call in progress is stuck.\<close>

theorem pool_no_deadlock:
  assumes "pool_reach sz T H s" and "finite T" and "H \<subseteq> T" and "card H < sz"
  shows "\<not> stuck s \<and> (\<exists>t. pool_work\<^sup>*\<^sup>* s t \<and> all_idle t)"
  using enough_sessions_not_stuck [OF pool_reach_inv [OF assms(1-3)] assms(2-4)]
    pool_completes [OF pool_reach_inv [OF assms(1-3)] assms(2-4)] by blast

theorem pool_no_deadlock_witness:
  "\<not> stuck (holding (pool_size Config_default) [0, 1, 2, 3] 4)"
proof -
  have sz: "pool_size Config_default = 8"
    by (simp add: pool_size_def Config_default_def)
  have "pool_reach 8 {0..<16} {0..<nat (httpThreads Config_default)} (holding 8 [0, 1, 2, 3] 4)"
    by (rule reach_holding) (auto simp: Config_default_def)
  from pool_no_deadlock [OF this] show ?thesis
    unfolding sz by (simp add: Config_default_def)
qed

text \<open>Deadlock otherwise: because \<open>insertWithOutbox\<close> holds one session while
  \<open>findByIdempotencyKey\<close> waits for a second, as soon as there are at least as many HTTP
  threads as sessions a state can be reached from which no continuation ever completes the
  calls in progress.\<close>

theorem pool_deadlock:
  assumes "0 < sz" and "sz \<le> card H" and "finite H"
  shows "\<exists>s. pool_reach sz T H s \<and>
    (\<forall>t. (\<lambda>a b. begin_call T H a b \<or> pool_work a b)\<^sup>*\<^sup>* s t \<longrightarrow> stuck t)"
proof -
  obtain D where D: "D \<subseteq> H" "card D = sz" "finite D"
    using assms by (metis obtain_subset_with_card_n)
  then obtain js where js: "set js = D" "distinct js" "length js = sz"
    by (metis finite_distinct_list distinct_card)
  then have "pool_reach sz T H (holding sz js sz)"
    using D by (intro reach_holding) auto
  moreover have "stuck t" if "(\<lambda>a b. begin_call T H a b \<or> pool_work a b)\<^sup>*\<^sup>* (holding sz js sz) t" for t
    using starved_forever [OF that starved_holding [OF js(3,2)]] js assms(1) D(2)
    by (auto intro!: starved_stuck)
  ultimately show ?thesis by blast
qed

theorem pool_deadlock_witness:
  "\<exists>s. pool_reach 1 {0, 1} {0} s \<and>
    (\<forall>t. (\<lambda>a b. begin_call {0, 1} {0} a b \<or> pool_work a b)\<^sup>*\<^sup>* s t \<longrightarrow> stuck t)"
  by (rule pool_deadlock) simp_all

end
