(* ===== verification/Pooled.thy ===== *)
theory Pooled
  imports Healthy Database
begin

text \<open>
  The service with its session pool. \<open>Threads\<close> lets a thread issue its statement whenever the
  scheduler picks it; here every statement needs a session of the pool (theory \<open>Database\<close>), which
  the thread has to wait for, and there are as many HTTP threads, workers of each channel and
  sessions as the configuration says. The system is the product of the two: it projects to
  either (\<open>pooled_refines\<close>), it freezes when submissions exhaust the pool, and otherwise it
  works off what it has been given.
\<close>

section \<open>States and steps\<close>

text \<open>
  The threads of the pool are numbered: first the HTTP threads of \<open>HttpServer::start\<close>, then the
  workers in the order of the \<open>WorkerPool\<close> constructor.
\<close>

definition http_count :: "'j deployment \<Rightarrow> nat" where
  "http_count D = nat (httpThreads (dp_config D))"

definition workers_of :: "'j deployment \<Rightarrow> WorkerThread list" where
  "workers_of D = snd (newWorkerPool (dp_config D))"

definition thread_count :: "'j deployment \<Rightarrow> nat" where
  "thread_count D = http_count D + length (workers_of D)"

definition session_count :: "'j deployment \<Rightarrow> nat" where
  "session_count D = pool_size (dp_config D)"

record psys =
  p_sys :: tsys
  p_pool :: pool_sys

text \<open>The operations of a handler that are calls of a repository.\<close>

fun op_needs_session :: "handler_op \<Rightarrow> bool" where
  "op_needs_session (Record attempt) = True"
| "op_needs_session (MarkSent nid) = True"
| "op_needs_session (Increment nid) = True"
| "op_needs_session (MarkDeadLettered nid) = True"
| "op_needs_session _ = False"

fun needs_session :: "handler_pc \<Rightarrow> bool" where
  "needs_session (Lookup nid a p) = True"
| "needs_session (Claim nid a p n) = True"
| "needs_session (Todo (op # ops)) = op_needs_session op"
| "needs_session _ = False"

abbreviation becomes :: "nat \<Rightarrow> thread_pc \<Rightarrow> pool_sys \<Rightarrow> pool_sys" where
  "becomes j c p \<equiv> p\<lparr>ps_threads := (ps_threads p)(j := c)\<rparr>"

abbreviation releases :: "session \<Rightarrow> pool_sys \<Rightarrow> pool_sys" where
  "releases x p \<equiv> p\<lparr>ps_pool := release x (ps_pool p)\<rparr>"

text \<open>One step of worker \<open>i\<close>, as in \<open>Threads\<close>.\<close>

inductive worker_acts :: "answers set \<Rightarrow> 'j deployment \<Rightarrow> nat \<Rightarrow> handler_pc \<Rightarrow> tsys \<Rightarrow> tsys \<Rightarrow> bool" for P D i pc where
  acts: "t_workers s i = Busy ch body tag pc \<Longrightarrow> 0 < fuel_left pc \<Longrightarrow>
    we_db V = dp_db D \<Longrightarrow> we_json V = dp_json D \<Longrightarrow> we_provider V \<in> P \<Longrightarrow>
    handler_step V ch (dp_config D) body tag pc \<lparr>w_db = t_db s, w_router = t_router s, w_ops = []\<rparr> = (pc', w') \<Longrightarrow>
    worker_acts P D i pc s (s\<lparr>t_db := w_db w', t_router := w_router w',
      t_queues := broker_ops (routes D) (w_ops w') (t_queues s),
      t_workers := (t_workers s)(i := (if Ack tag \<in> set (w_ops w') then Free else Busy ch body tag pc'))\<rparr>)"

text \<open>
  Working off what is there. A repository call takes its session, which may mean waiting,
  executes its statements and destroys its handle when it returns or throws (statement and
  return are one step); \<open>insertWithOutbox\<close> takes one session, a second one for
  \<open>findByIdempotencyKey\<close>, gives that back, and keeps the first until it returns. A worker takes
  messages of its own channel only.
\<close>

inductive pooled_step :: "answers set \<Rightarrow> 'j deployment \<Rightarrow> psys \<Rightarrow> psys \<Rightarrow> bool" for P D where
  take_message: "p_sys z = s \<Longrightarrow> t_queues s (mainQueue ch) = xs @ body # ys \<Longrightarrow> t_workers s i = Free \<Longrightarrow>
    i < length (workers_of D) \<Longrightarrow> wt_channel (workers_of D ! i) = ch \<Longrightarrow>
    pooled_step P D z (z\<lparr>p_sys := s\<lparr>t_queues := (t_queues s)(mainQueue ch := xs @ ys),
      t_workers := (t_workers s)(i := Busy ch body tag Begin)\<rparr>\<rparr>)"
| work: "worker_acts P D i pc (p_sys z) s' \<Longrightarrow> \<not> needs_session pc \<Longrightarrow> pooled_step P D z (z\<lparr>p_sys := s'\<rparr>)"
| worker_wants: "t_workers (p_sys z) i = Busy ch body tag pc \<Longrightarrow> needs_session pc \<Longrightarrow>
    p_pool z = p \<Longrightarrow> ps_threads p (http_count D + i) = Idle \<Longrightarrow>
    pooled_step P D z (z\<lparr>p_pool := becomes (http_count D + i) (Wants SingleAcquire) p\<rparr>)"
| work_db: "worker_acts P D i pc (p_sys z) s' \<Longrightarrow> needs_session pc \<Longrightarrow>
    p_pool z = p \<Longrightarrow> ps_threads p (http_count D + i) = Holds SingleAcquire x \<Longrightarrow>
    pooled_step P D z \<lparr>p_sys = s', p_pool = becomes (http_count D + i) Idle (releases x p)\<rparr>"
| gets_session: "p_pool z = p \<Longrightarrow> ps_threads p j = Wants c \<Longrightarrow> acquire (ps_pool p) = Some (x, q) \<Longrightarrow>
    pooled_step P D z (z\<lparr>p_pool := becomes j (Holds c x) (p\<lparr>ps_pool := q\<rparr>)\<rparr>)"
| gets_second: "p_pool z = p \<Longrightarrow> ps_threads p j = Holds InsertWithOutbox x \<Longrightarrow> acquire (ps_pool p) = Some (y, q) \<Longrightarrow>
    pooled_step P D z (z\<lparr>p_pool := becomes j (Nested x y) (p\<lparr>ps_pool := q\<rparr>)\<rparr>)"
| post_wants: "t_posts (p_sys z) i = Parsed n \<Longrightarrow> p_pool z = p \<Longrightarrow> ps_threads p i = Idle \<Longrightarrow>
    pooled_step P D z (z\<lparr>p_pool := becomes i (Wants InsertWithOutbox) p\<rparr>)"
| check: "p_sys z = s \<Longrightarrow> t_posts s i = Parsed n \<Longrightarrow> p_pool z = p \<Longrightarrow> ps_threads p i = Nested x y \<Longrightarrow>
    findByIdempotencyKey (dp_db D) (n_idempotencyKey n) (t_db s) = (r, d') \<Longrightarrow>
    pooled_step P D z \<lparr>p_sys = s\<lparr>t_db := d', t_posts := (t_posts s)(i :=
      (case r of Inl ex \<Rightarrow> NoPost | Inr (Some m) \<Rightarrow> Stored m | Inr None \<Rightarrow> Absent n))\<rparr>,
      p_pool = becomes i (AfterNested x) (releases y p)\<rparr>"
| insert: "p_sys z = s \<Longrightarrow> t_posts s i = Absent n \<Longrightarrow> p_pool z = p \<Longrightarrow> ps_threads p i = AfterNested x \<Longrightarrow>
    valid_draws u \<Longrightarrow> insertTransaction (dp_db D) u n (t_db s) = (r, d') \<Longrightarrow>
    pooled_step P D z \<lparr>p_sys = s\<lparr>t_db := d', t_posts := (t_posts s)(i :=
      (case r of Inl ex \<Rightarrow> NoPost | Inr m \<Rightarrow> Stored m))\<rparr>,
      p_pool = becomes i Idle (releases x p)\<rparr>"
| post_returns: "t_posts (p_sys z) i = NoPost \<or> t_posts (p_sys z) i = Stored m \<Longrightarrow>
    p_pool z = p \<Longrightarrow> ps_threads p i = AfterNested x \<Longrightarrow>
    pooled_step P D z (z\<lparr>p_pool := becomes i Idle (releases x p)\<rparr>)"
| publish: "p_sys z = s \<Longrightarrow> t_posts s i = Stored m \<Longrightarrow> ps_threads (p_pool z) i = Idle \<Longrightarrow>
    j_dump (dp_json D) (deliveryMessage (dp_json D) m) = Inr msg \<Longrightarrow>
    pooled_step P D z (z\<lparr>p_sys := s\<lparr>t_queues := broker_op (routes D) (Publish exchangeName (routingKey (n_channel m))
        (message msg (priorityWeight (n_priority m)))) (t_queues s),
      t_posts := (t_posts s)(i := NoPost)\<rparr>\<rparr>)"
| expire: "p_sys z = s \<Longrightarrow> t_queues s q = xs @ body # ys \<Longrightarrow>
    message_ttl (declareAll (dp_config D)) q = Some ttl \<Longrightarrow>
    dead_letter_target (declareAll (dp_config D)) q = Some (x, k) \<Longrightarrow>
    pooled_step P D z (z\<lparr>p_sys := s\<lparr>t_queues := broker_op (routes D) (Publish x k (newEnvelope body))
      ((t_queues s)(q := xs @ ys))\<rparr>\<rparr>)"
| read_ends: "p_pool z = p \<Longrightarrow> i < http_count D \<Longrightarrow> ps_threads p i = Holds SingleAcquire x \<Longrightarrow>
    pooled_step P D z (z\<lparr>p_pool := becomes i Idle (releases x p)\<rparr>)"

text \<open>Requests arrive: a submission, or a repository call of a route that only reads.\<close>

inductive arrival :: "'j deployment \<Rightarrow> psys \<Rightarrow> psys \<Rightarrow> bool" for D where
  parse: "p_sys z = s \<Longrightarrow> t_posts s i = NoPost \<Longrightarrow> i < http_count D \<Longrightarrow> ps_threads (p_pool z) i = Idle \<Longrightarrow>
    he_db V = dp_db D \<Longrightarrow> he_json V = dp_json D \<Longrightarrow> parse_submission V content = Inr n \<Longrightarrow>
    arrival D z (z\<lparr>p_sys := s\<lparr>t_posts := (t_posts s)(i := Parsed n)\<rparr>\<rparr>)"
| read_begins: "t_posts (p_sys z) i = NoPost \<Longrightarrow> i < http_count D \<Longrightarrow> p_pool z = p \<Longrightarrow> ps_threads p i = Idle \<Longrightarrow>
    arrival D z (z\<lparr>p_pool := becomes i (Wants SingleAcquire) p\<rparr>)"

text \<open>The environment moves the clock and chooses the statements that will fail.\<close>

definition environs :: "string option list \<Rightarrow> int \<Rightarrow> psys \<Rightarrow> psys" where
  "environs fs now z = z\<lparr>p_sys := (p_sys z)\<lparr>t_db := (t_db (p_sys z))\<lparr>db_faults := fs, db_now := now\<rparr>\<rparr>\<rparr>"

text \<open>
  The process ends (killed, or by an exception that leaves a handler) and is started again: the
  broker takes back every unacknowledged message, submissions in progress are gone, pool and
  breakers are new.
\<close>

definition worker_gone :: "nat \<Rightarrow> tsys \<Rightarrow> tsys" where
  "worker_gone i s = (case t_workers s i of
     Free \<Rightarrow> s
   | Busy ch body tag pc \<Rightarrow> s\<lparr>t_queues := (t_queues s)(mainQueue ch := body # t_queues s (mainQueue ch)),
       t_workers := (t_workers s)(i := Free)\<rparr>)"

definition post_gone :: "nat \<Rightarrow> tsys \<Rightarrow> tsys" where
  "post_gone i s = s\<lparr>t_posts := (t_posts s)(i := NoPost),
     t_lost := (case t_posts s i of Stored m \<Rightarrow> n_id m # t_lost s | _ \<Rightarrow> t_lost s)\<rparr>"

definition restarted :: "'j deployment \<Rightarrow> psys \<Rightarrow> psys" where
  "restarted D z = \<lparr>p_sys = (fold post_gone [0..<http_count D] (fold worker_gone [0..<length (workers_of D)] (p_sys z)))
       \<lparr>t_router := newRouter (cbFailureThreshold (dp_config D)) (cbOpenDurationMs (dp_config D))\<rparr>,
     p_pool = pool_init (session_count D)\<rparr>"

definition pooled_init :: "'j deployment \<Rightarrow> psys" where
  "pooled_init D = \<lparr>p_sys = tsys_init D, p_pool = pool_init (session_count D)\<rparr>"

inductive pooled_reach :: "'j deployment \<Rightarrow> psys \<Rightarrow> bool" for D where
  init: "pooled_reach D (pooled_init D)"
| serve: "pooled_reach D z \<Longrightarrow> pooled_step P D z z' \<Longrightarrow> pooled_reach D z'"
| arrive: "pooled_reach D z \<Longrightarrow> arrival D z z' \<Longrightarrow> pooled_reach D z'"
| environ: "pooled_reach D z \<Longrightarrow> pooled_reach D (environs fs now z)"
| restart: "pooled_reach D z \<Longrightarrow> pooled_reach D (restarted D z)"

section \<open>The two projections\<close>

lemma worker_acts_serve: "worker_acts P D i pc s s' \<Longrightarrow> serve_step P D s s'"
  by (erule worker_acts.cases) (simp add: serve_step.work)

lemma pooled_step_sys: "pooled_step P D z z' \<Longrightarrow> p_sys z' = p_sys z \<or> serve_step P D (p_sys z) (p_sys z')"
  by (erule pooled_step.cases)
    (simp_all add: serve_step.take_message serve_step.check serve_step.insert serve_step.publish serve_step.expire
      worker_acts_serve del: broker_op.simps)

lemma arrival_sys: "arrival D z z' \<Longrightarrow> p_sys z' = p_sys z \<or> tsys_step D (p_sys z) (p_sys z')"
  by (erule arrival.cases) (auto intro: tsys_step.parse)

lemma worker_gone_steps: "(tsys_step D)\<^sup>*\<^sup>* s (worker_gone i s)"
  by (cases "t_workers s i") (simp_all add: worker_gone_def r_into_rtranclp tsys_step.worker_dies)

lemma post_gone_steps: "(tsys_step D)\<^sup>*\<^sup>* s (post_gone i s)"
  unfolding post_gone_def by (intro r_into_rtranclp tsys_step.post_dies refl)

lemma fold_steps:
  assumes "\<And>i s. (tsys_step D)\<^sup>*\<^sup>* s (f i s)" shows "(tsys_step D)\<^sup>*\<^sup>* s (fold f is s)"
  by (induction "is" arbitrary: s) (auto intro: rtranclp_trans [OF assms])

lemma restarted_sys: "(tsys_step D)\<^sup>*\<^sup>* (p_sys z) (p_sys (restarted D z))"
proof -
  have "(tsys_step D)\<^sup>*\<^sup>* (p_sys z) (fold post_gone [0..<http_count D] (fold worker_gone [0..<length (workers_of D)] (p_sys z)))"
    by (rule rtranclp_trans [OF fold_steps [OF worker_gone_steps] fold_steps [OF post_gone_steps]])
  then show ?thesis
    unfolding restarted_def by (simp add: rtranclp.rtrancl_into_rtrancl tsys_step.new_router)
qed

lemma pooled_reach_sys: "pooled_reach D z \<Longrightarrow> tsys_reach D (p_sys z)"
proof (induction rule: pooled_reach.induct)
  case (serve z P z')
  then show ?case using pooled_step_sys serve_is_step tsys_reach.step by metis
next
  case (arrive z z')
  then show ?case using arrival_sys tsys_reach.step by metis
next
  case (restart z)
  then show ?case using reach_steps [OF restarted_sys] by blast
qed (auto simp: pooled_init_def environs_def intro: tsys_reach.intros tsys_step.environment)

text \<open>How what a thread is doing and its part of the pool fit together.\<close>

fun worker_link :: "worker_slot \<Rightarrow> thread_pc \<Rightarrow> bool" where
  "worker_link w Idle = True"
| "worker_link w (Wants c) = (c = SingleAcquire \<and> (\<exists>ch body tag pc. w = Busy ch body tag pc \<and> needs_session pc))"
| "worker_link w (Holds c x) = (c = SingleAcquire \<and> (\<exists>ch body tag pc. w = Busy ch body tag pc \<and> needs_session pc))"
| "worker_link w _ = False"

fun post_link :: "post_slot \<Rightarrow> thread_pc \<Rightarrow> bool" where
  "post_link q Idle = (\<forall>n. q \<noteq> Absent n)"
| "post_link q (Wants c) = (if c = InsertWithOutbox then \<exists>n. q = Parsed n else q = NoPost)"
| "post_link q (Holds c x) = (if c = InsertWithOutbox then \<exists>n. q = Parsed n else q = NoPost)"
| "post_link q (Nested x y) = (\<exists>n. q = Parsed n)"
| "post_link q (AfterNested x) = (\<forall>n. q \<noteq> Parsed n)"

definition linked :: "'j deployment \<Rightarrow> psys \<Rightarrow> bool" where
  "linked D z \<longleftrightarrow>
     (\<forall>i<http_count D. post_link (t_posts (p_sys z) i) (ps_threads (p_pool z) i)) \<and>
     (\<forall>i<length (workers_of D). worker_link (t_workers (p_sys z) i) (ps_threads (p_pool z) (http_count D + i))) \<and>
     (\<forall>i. http_count D \<le> i \<longrightarrow> t_posts (p_sys z) i = NoPost) \<and>
     (\<forall>i. length (workers_of D) \<le> i \<longrightarrow> t_workers (p_sys z) i = Free) \<and>
     (\<forall>j. thread_count D \<le> j \<longrightarrow> ps_threads (p_pool z) j = Idle)"

lemma linkedD:
  assumes "linked D z"
  shows "i < http_count D \<Longrightarrow> post_link (t_posts (p_sys z) i) (ps_threads (p_pool z) i)"
    and "i < length (workers_of D) \<Longrightarrow> worker_link (t_workers (p_sys z) i) (ps_threads (p_pool z) (http_count D + i))"
    and "t_posts (p_sys z) i \<noteq> NoPost \<Longrightarrow> i < http_count D"
    and "t_workers (p_sys z) i \<noteq> Free \<Longrightarrow> i < length (workers_of D)"
    and "ps_threads (p_pool z) j \<noteq> Idle \<Longrightarrow> j < thread_count D"
  using assms unfolding linked_def by (meson not_le)+

text \<open>A step of one HTTP thread, or of one worker.\<close>

lemma linked_post:
  assumes "linked D z" "i < http_count D" "post_link q c"
    and "t_posts s' = (t_posts (p_sys z))(i := q)" "t_workers s' = t_workers (p_sys z)"
    and "ps_threads p' = (ps_threads (p_pool z))(i := c)"
  shows "linked D \<lparr>p_sys = s', p_pool = p'\<rparr>"
  using assms unfolding linked_def thread_count_def by auto

lemma linked_worker:
  assumes "linked D z" "i < length (workers_of D)" "worker_link q c"
    and "t_workers s' = (t_workers (p_sys z))(i := q)" "t_posts s' = t_posts (p_sys z)"
    and "ps_threads p' = (ps_threads (p_pool z))(http_count D + i := c)"
  shows "linked D \<lparr>p_sys = s', p_pool = p'\<rparr>"
  using assms unfolding linked_def thread_count_def by auto

text \<open>Which of the two a thread of the pool is.\<close>

lemma thread_cases:
  assumes "j < thread_count D"
  obtains "j < http_count D" | i where "i < length (workers_of D)" "j = http_count D + i"
proof (cases "j < http_count D")
  case False
  then show ?thesis using assms that(2) [of "j - http_count D"] by (auto simp: thread_count_def)
qed (use that in simp)

lemma linked_thread:
  assumes "linked D z" "j < thread_count D"
    and "j < http_count D \<Longrightarrow> post_link (t_posts (p_sys z) j) c"
    and "\<And>i. i < length (workers_of D) \<Longrightarrow> j = http_count D + i \<Longrightarrow> worker_link (t_workers (p_sys z) i) c"
    and "ps_threads p' = (ps_threads (p_pool z))(j := c)"
  shows "linked D (z\<lparr>p_pool := p'\<rparr>)"
  using assms unfolding linked_def by auto

lemma psys_eq: "z\<lparr>p_sys := s\<rparr> = \<lparr>p_sys = s, p_pool = p_pool z\<rparr>" "z\<lparr>p_pool := p\<rparr> = \<lparr>p_sys = p_sys z, p_pool = p\<rparr>"
  by simp_all

lemma linked_acts:
  assumes "linked D z" "worker_acts P D i pc (p_sys z) s'"
    and "p' = p_pool z \<and> ps_threads p' (http_count D + i) = Idle \<or>
      ps_threads p' = (ps_threads (p_pool z))(http_count D + i := Idle)"
  shows "linked D \<lparr>p_sys = s', p_pool = p'\<rparr>"
  using assms(2)
proof cases
  case (acts ch body tag V pc' w')
  then have "i < length (workers_of D)" using linkedD(4) [OF assms(1)] by simp
  moreover have "ps_threads p' = (ps_threads (p_pool z))(http_count D + i := Idle)"
    using assms(3) by (auto simp: fun_eq_iff)
  ultimately show ?thesis
    by (intro linked_worker [OF assms(1)]) (auto simp: acts(1))
qed

lemma linked_step:
  assumes "linked D z" "pooled_step P D z z'"
  shows "linked D z'"
  using assms(2)
proof cases
  case (take_message s ch xs body ys i tag)
  then have "worker_link Free (ps_threads (p_pool z) (http_count D + i))" using linkedD(2) [OF assms(1), of i] by simp
  then have "ps_threads (p_pool z) (http_count D + i) = Idle" by (cases "ps_threads (p_pool z) (http_count D + i)") auto
  then show ?thesis
    unfolding take_message(1) psys_eq by (intro linked_worker [OF assms(1) take_message(5), where c = Idle]) (auto simp: take_message(2))
next
  case (work i pc s')
  then obtain ch body tag where w: "t_workers (p_sys z) i = Busy ch body tag pc" by (auto elim: worker_acts.cases)
  then have "i < length (workers_of D)" using linkedD(4) [OF assms(1)] by simp
  then have "worker_link (Busy ch body tag pc) (ps_threads (p_pool z) (http_count D + i))"
    using linkedD(2) [OF assms(1)] w by metis
  then have "ps_threads (p_pool z) (http_count D + i) = Idle"
    using work(3) by (cases "ps_threads (p_pool z) (http_count D + i)") auto
  then show ?thesis unfolding work(1) psys_eq by (intro linked_acts [OF assms(1) work(2)]) simp_all
next
  case (worker_wants i ch body tag pc p)
  then have "i < length (workers_of D)" using linkedD(4) [OF assms(1)] by simp
  then show ?thesis
    unfolding worker_wants(1) psys_eq
    by (intro linked_worker [OF assms(1), where c = "Wants SingleAcquire" and q = "t_workers (p_sys z) i"])
      (use worker_wants in auto)
next
  case (work_db i pc s' p x)
  then show ?thesis by (auto intro!: linked_acts [OF assms(1) work_db(2)])
next
  case (gets_session p j c x q)
  then have "j < thread_count D" using linkedD(5) [OF assms(1), of j] by simp
  then show ?thesis
    unfolding gets_session(1)
    by (rule linked_thread [OF assms(1), where c = "Holds c x"])
      (use linkedD(1,2) [OF assms(1)] gets_session(2,3) in \<open>fastforce\<close>)+
next
  case (gets_second p j x y q)
  then have "j < thread_count D" using linkedD(5) [OF assms(1), of j] by simp
  then show ?thesis
    unfolding gets_second(1)
    by (rule linked_thread [OF assms(1), where c = "Nested x y"])
      (use linkedD(1,2) [OF assms(1)] gets_second(2,3) in \<open>fastforce\<close>)+
next
  case (post_wants i n p)
  then have "i < http_count D" using linkedD(3) [OF assms(1)] by simp
  then show ?thesis
    unfolding post_wants(1) psys_eq
    by (intro linked_post [OF assms(1), where c = "Wants InsertWithOutbox" and q = "t_posts (p_sys z) i"])
      (use post_wants in auto)
next
  case (check s i n p x y r d')
  then have "i < http_count D" using linkedD(3) [OF assms(1)] by simp
  then show ?thesis
    unfolding check(1) by (rule linked_post [OF assms(1), where c = "AfterNested x"])
      (use check in \<open>auto split: sum.splits option.splits\<close>)
next
  case (insert s i n p x u r d')
  then have "i < http_count D" using linkedD(3) [OF assms(1)] by simp
  then show ?thesis
    unfolding insert(1) by (rule linked_post [OF assms(1), where c = Idle])
      (use insert in \<open>auto split: sum.splits\<close>)
next
  case (post_returns i m p x)
  have "i < thread_count D" using post_returns linkedD(5) [OF assms(1), of i] by simp
  moreover have "\<not> worker_link w (AfterNested x)" for w by simp
  ultimately have "i < http_count D" using linkedD(2) [OF assms(1)] post_returns(3,4) by (metis thread_cases)
  then show ?thesis
    unfolding post_returns(1) psys_eq
    by (intro linked_post [OF assms(1), where c = Idle and q = "t_posts (p_sys z) i"]) (use post_returns in auto)
next
  case (publish s i m msg)
  then have "i < http_count D" using linkedD(3) [OF assms(1)] by simp
  then show ?thesis
    unfolding publish(1) psys_eq
    by (intro linked_post [OF assms(1), where c = Idle and q = NoPost]) (use publish in auto)
next
  case (expire s q xs body ys ttl x k)
  then show ?thesis using assms(1) by (simp add: linked_def)
next
  case (read_ends p i x)
  then have "post_link (t_posts (p_sys z) i) (Holds SingleAcquire x)" using linkedD(1) [OF assms(1)] by metis
  then show ?thesis
    unfolding read_ends(1) psys_eq
    by (intro linked_post [OF assms(1) read_ends(3), where c = Idle and q = "t_posts (p_sys z) i"]) (use read_ends in auto)
qed

lemma linked_arrival:
  assumes "linked D z" "arrival D z z'"
  shows "linked D z'"
  using assms(2)
proof cases
  case (parse s i V content n)
  then show ?thesis
    unfolding parse(1) psys_eq by (intro linked_post [OF assms(1) parse(4), where c = Idle and q = "Parsed n"]) auto
next
  case (read_begins i p)
  then show ?thesis
    unfolding read_begins(1) psys_eq
    by (intro linked_post [OF assms(1) read_begins(3), where c = "Wants SingleAcquire" and q = NoPost]) auto
qed

lemma worker_gone_parts [simp]:
  "t_workers (worker_gone i s) = (t_workers s)(i := Free)" "t_posts (worker_gone i s) = t_posts s"
  by (auto simp: worker_gone_def fun_eq_iff split: worker_slot.split)

lemma workers_gone:
  "t_workers (fold worker_gone is s) = (\<lambda>i. if i \<in> set is then Free else t_workers s i)"
  "t_posts (fold worker_gone is s) = t_posts s"
  by (induction "is" arbitrary: s) (auto simp: fun_eq_iff)

lemma posts_gone:
  "t_posts (fold post_gone is s) = (\<lambda>i. if i \<in> set is then NoPost else t_posts s i)"
  "t_workers (fold post_gone is s) = t_workers s"
  by (induction "is" arbitrary: s) (auto simp: post_gone_def fun_eq_iff)

lemma linked_restarted: "linked D z \<Longrightarrow> linked D (restarted D z)"
  by (auto simp: linked_def restarted_def workers_gone posts_gone pool_init_def)

lemma pooled_reach_linked: "pooled_reach D z \<Longrightarrow> linked D z"
proof (induction rule: pooled_reach.induct)
  case init
  show ?case by (simp add: linked_def pooled_init_def tsys_init_def pool_init_def)
next
  case (environ z fs now)
  then show ?case by (simp add: linked_def environs_def)
qed (blast intro: linked_step linked_arrival linked_restarted)+

abbreviation pool_moves :: "'j deployment \<Rightarrow> pool_sys \<Rightarrow> pool_sys \<Rightarrow> bool" where
  "pool_moves D p p' \<equiv> begin_call {..<thread_count D} {..<http_count D} p p' \<or> pool_work p p'"

text \<open>To the pool, a step of the service is one of its steps, or nothing.\<close>

lemma pooled_step_pool:
  assumes "linked D z" "pooled_step P D z z'"
  shows "p_pool z' = p_pool z \<or> pool_moves D (p_pool z) (p_pool z')"
  using assms(2)
proof cases
  case (worker_wants i ch body tag pc p)
  then have "i < length (workers_of D)" using linkedD(4) [OF assms(1)] by simp
  then show ?thesis
    using worker_wants begin_single [of "http_count D + i" "{..<thread_count D}" p "{..<http_count D}"]
    by (simp add: thread_count_def)
next
  case (work_db i pc s' p x)
  then show ?thesis using work_release [of p "http_count D + i" x] by simp
next
  case (gets_session p j c x q)
  then show ?thesis using work_acquire [of p j c x q] by simp
next
  case (gets_second p j x y q)
  then show ?thesis using work_nested_acquire [of p j x y q] by simp
next
  case (post_wants i n p)
  then have "i < http_count D" using linkedD(3) [OF assms(1)] by simp
  then show ?thesis
    using post_wants begin_insert [of i "{..<http_count D}" p "{..<thread_count D}"] by simp
next
  case (check s i n p x y r d')
  then show ?thesis using work_nested_release [of p i x y] by simp
next
  case (insert s i n p x u r d')
  then show ?thesis using work_outer_release [of p i x] by simp
next
  case (post_returns i m p x)
  then show ?thesis using work_outer_release [of p i x] by simp
next
  case (read_ends p i x)
  then show ?thesis using work_release [of p i x] by simp
qed simp_all

lemma arrival_pool:
  assumes "arrival D z z'"
  shows "p_pool z' = p_pool z \<or> pool_moves D (p_pool z) (p_pool z')"
  using assms
proof cases
  case (read_begins i p)
  then show ?thesis
    using begin_single [of i "{..<thread_count D}" p "{..<http_count D}"] by (simp add: thread_count_def)
qed simp

lemma pooled_reach_pool:
  "pooled_reach D z \<Longrightarrow> pool_reach (session_count D) {..<thread_count D} {..<http_count D} (p_pool z)"
proof (induction rule: pooled_reach.induct)
  case (serve z P z')
  then show ?case using pooled_step_pool [OF pooled_reach_linked] by (metis reach_begin reach_work)
next
  case (arrive z z')
  then show ?case using arrival_pool by (metis reach_begin reach_work)
qed (simp_all add: pooled_init_def environs_def restarted_def reach_init)

lemma http_threads: "{..<http_count D} \<subseteq> {..<thread_count D}"
  by (auto simp: thread_count_def)

lemma pooled_inv:
  "pooled_reach D z \<Longrightarrow> pool_inv (session_count D) {..<thread_count D} {..<http_count D} (p_pool z)"
  using pool_reach_inv [OF pooled_reach_pool _ http_threads] by simp

section \<open>Statements are executed under a session only\<close>

lemma handler_quiet:
  assumes "handler_step V ch config body tag pc w = (pc', w')" "\<not> needs_session pc"
  shows "w_db w' = w_db w"
proof (cases pc)
  case (Todo ops)
  show ?thesis
  proof (cases ops)
    case (Cons op rest)
    obtain r w1 where o: "op_act V ch tag op w = (r, w1)" by (cases "op_act V ch tag op w")
    have "w_db w1 = w_db w"
      using o assms(2) Todo Cons by (cases op) (auto simp: op_act_def emit_eq bindA_def split: sum.splits)
    moreover have "w' = w1" using assms(1) Todo Cons o by (auto split: sum.splits)
    ultimately show ?thesis by simp
  qed (use assms(1) Todo in simp)
qed (use assms in \<open>auto simp: on_router_def zoomA_def split: prod.splits sum.splits if_splits\<close>)

lemma acts_quiet: "worker_acts P D i pc s s' \<Longrightarrow> \<not> needs_session pc \<Longrightarrow> t_db s' = t_db s"
  by (erule worker_acts.cases) (auto dest!: handler_quiet)

definition executing :: "psys \<Rightarrow> nat \<Rightarrow> bool" where
  "executing z j \<longleftrightarrow> (\<exists>x y. ps_threads (p_pool z) j \<in> {Holds SingleAcquire x, Nested x y, AfterNested x})"

lemma db_step_executing:
  "pooled_step P D z z' \<Longrightarrow> t_db (p_sys z') = t_db (p_sys z) \<or> (\<exists>j. executing z j)"
  by (erule pooled_step.cases) (auto simp: acts_quiet executing_def)

section \<open>Each statement under the session of its own thread\<close>

text \<open>Thread \<open>j\<close> of the pool executes a repository call in the step from \<open>z\<close> to \<open>z'\<close>: its worker,
  or its submission, moves on from a point where the next thing it does is a call.\<close>

definition issues :: "'j deployment \<Rightarrow> psys \<Rightarrow> psys \<Rightarrow> nat \<Rightarrow> bool" where
  "issues D z z' j \<longleftrightarrow>
     (\<exists>i ch body tag pc. j = http_count D + i \<and> t_workers (p_sys z) i = Busy ch body tag pc \<and>
        needs_session pc \<and> t_workers (p_sys z') i \<noteq> t_workers (p_sys z) i) \<or>
     j < http_count D \<and> (\<exists>n. t_posts (p_sys z) j \<in> {Parsed n, Absent n}) \<and>
        t_posts (p_sys z') j \<noteq> t_posts (p_sys z) j"

text \<open>It does so under a session of its own, which it gives back: the only one of a worker's
  call, the second one for \<open>findByIdempotencyKey\<close>, the first one for the insert transaction.\<close>

definition uses_session :: "psys \<Rightarrow> psys \<Rightarrow> nat \<Rightarrow> bool" where
  "uses_session z z' j \<longleftrightarrow> (\<exists>x y. let p = p_pool z in
     ps_threads p j = Holds SingleAcquire x \<and> p_pool z' = becomes j Idle (releases x p) \<or>
     (\<exists>n. t_posts (p_sys z) j = Parsed n) \<and> ps_threads p j = Nested x y \<and>
       p_pool z' = becomes j (AfterNested x) (releases y p) \<or>
     (\<exists>n. t_posts (p_sys z) j = Absent n) \<and> ps_threads p j = AfterNested x \<and>
       p_pool z' = becomes j Idle (releases x p))"

lemma acts_moves:
  assumes "worker_acts P D i pc s s'"
  shows "t_workers s' i \<noteq> t_workers s i" "k \<noteq> i \<Longrightarrow> t_workers s' k = t_workers s k" "t_posts s' = t_posts s"
    and "\<exists>ch body tag. t_workers s i = Busy ch body tag pc"
proof -
  show "t_workers s' i \<noteq> t_workers s i"
    using assms
  proof cases
    case (acts ch body tag V pc' w')
    have "fuel_left pc' < fuel_left pc"
      using step_uses_fuel [of V ch "dp_config D" body tag pc "\<lparr>w_db = t_db s, w_router = t_router s, w_ops = []\<rparr>"]
        acts(3,7) by simp
    then show ?thesis by (auto simp: acts(1,2))
  qed
qed (use assms in \<open>auto elim: worker_acts.cases\<close>)

text \<open>A worker's statement is issued by its thread alone, and so is that of a submission.\<close>

lemma issues_worker:
  assumes "linked D z" "worker_acts P D i pc (p_sys z) (p_sys z')"
  shows "issues D z z' j \<longleftrightarrow> needs_session pc \<and> j = http_count D + i"
proof -
  obtain ch body tag where w: "t_workers (p_sys z) i = Busy ch body tag pc" using acts_moves(4) [OF assms(2)] by blast
  have "k = i" if "t_workers (p_sys z') k \<noteq> t_workers (p_sys z) k" for k
    using that acts_moves(2) [OF assms(2)] by blast
  then show ?thesis
    using acts_moves(1,3) [OF assms(2)] w unfolding issues_def by auto
qed

lemma issues_post:
  assumes "t_workers (p_sys z') = t_workers (p_sys z)" "t_posts (p_sys z') = (t_posts (p_sys z))(i := q)"
    and "t_posts (p_sys z) i \<noteq> q" "i < http_count D"
  shows "issues D z z' j \<longleftrightarrow> j = i \<and> (\<exists>n. t_posts (p_sys z) i \<in> {Parsed n, Absent n})"
  using assms unfolding issues_def by auto

lemma issues_none:
  "t_workers (p_sys z') = t_workers (p_sys z) \<Longrightarrow> t_posts (p_sys z') = t_posts (p_sys z) \<Longrightarrow> \<not> issues D z z' j"
  by (simp add: issues_def)

lemma own_session:
  assumes link: "linked D z" and step: "pooled_step P D z z'"
  shows "(\<forall>j. issues D z z' j \<longrightarrow> uses_session z z' j) \<and>
    (t_db (p_sys z') \<noteq> t_db (p_sys z) \<longrightarrow> (\<exists>!j. issues D z z' j))"
  using step
proof cases
  case (take_message s ch xs body ys i tag)
  then have "\<not> issues D z z' j" for j by (auto simp: issues_def)
  then show ?thesis using take_message by simp
next
  case (work i pc s')
  have "worker_acts P D i pc (p_sys z) (p_sys z')" using work by simp
  from issues_worker [OF link this] acts_quiet [OF this work(3)] show ?thesis using work(3) by simp
next
  case (work_db i pc s' p x)
  have "worker_acts P D i pc (p_sys z) (p_sys z')" using work_db by simp
  from issues_worker [OF link this] show ?thesis using work_db by (auto simp: uses_session_def Let_def)
next
  case (check s i n p x y r d')
  then have i: "i < http_count D" using linkedD(3) [OF link] by simp
  let ?q = "case r of Inl ex \<Rightarrow> NoPost | Inr (Some m) \<Rightarrow> Stored m | Inr None \<Rightarrow> Absent n"
  have "issues D z z' j \<longleftrightarrow> j = i" for j
    by (subst issues_post [of z' z i ?q, OF _ _ _ i]) (use check in \<open>auto split: sum.splits option.splits\<close>)
  then show ?thesis using check by (auto simp: uses_session_def Let_def)
next
  case (insert s i n p x u r d')
  then have i: "i < http_count D" using linkedD(3) [OF link] by simp
  let ?q = "case r of Inl ex \<Rightarrow> NoPost | Inr m \<Rightarrow> Stored m"
  have "issues D z z' j \<longleftrightarrow> j = i" for j
    by (subst issues_post [of z' z i ?q, OF _ _ _ i]) (use insert in \<open>auto split: sum.splits\<close>)
  then show ?thesis using insert by (auto simp: uses_session_def Let_def)
next
  case (publish s i m msg)
  then have "\<not> issues D z z' j" for j by (auto simp: issues_def)
  then show ?thesis using publish by simp
qed (simp_all add: issues_none)

section \<open>Exhausting the pool\<close>

text \<open>Whatever may happen while the process runs.\<close>

inductive pooled_any :: "'j deployment \<Rightarrow> psys \<Rightarrow> psys \<Rightarrow> bool" for D where
  any_step: "pooled_step P D z z' \<Longrightarrow> pooled_any D z z'"
| any_arrival: "arrival D z z' \<Longrightarrow> pooled_any D z z'"
| any_environment: "pooled_any D z (environs fs now z)"

lemma linked_environs [simp]: "linked D (environs fs now z) = linked D z"
  by (simp add: environs_def linked_def)

lemma linked_any: "pooled_any D z z' \<Longrightarrow> linked D z \<Longrightarrow> linked D z'"
  by (erule pooled_any.cases) (auto intro: linked_step linked_arrival)

lemma pooled_any_reach: "(pooled_any D)\<^sup>*\<^sup>* z z' \<Longrightarrow> pooled_reach D z \<Longrightarrow> pooled_reach D z'"
  by (induction rule: rtranclp_induct) (auto elim!: pooled_any.cases intro: pooled_reach.intros)

lemma starved_any:
  assumes st: "starved S (p_pool z)" and link: "linked D z" and any: "pooled_any D z z'"
  shows "starved S (p_pool z') \<and> same_tables (t_db (p_sys z)) (t_db (p_sys z'))"
proof -
  have quiet: "\<not> executing z j" for j using starved_pc(2) [OF st, of j] by (auto simp: executing_def)
  have pool: "starved S (p_pool z')" if "p_pool z' = p_pool z \<or> pool_moves D (p_pool z) (p_pool z')"
    using that st starved_begin [OF st] starved_no_work [OF st] by auto
  show ?thesis
    using any
  proof cases
    case (any_step P)
    then show ?thesis
      using pool [OF pooled_step_pool [OF link any_step]] db_step_executing [OF any_step] quiet by (simp add: same_tables_def)
  next
    case any_arrival
    then have "t_db (p_sys z') = t_db (p_sys z)" by cases simp_all
    then show ?thesis using pool [OF arrival_pool [OF any_arrival]] by (simp add: same_tables_def)
  next
    case (any_environment fs now)
    then show ?thesis using st by (simp add: environs_def same_tables_def)
  qed
qed

lemma starved_runs:
  assumes "(pooled_any D)\<^sup>*\<^sup>* z z'" "starved S (p_pool z)" "linked D z"
  shows "starved S (p_pool z') \<and> linked D z' \<and> same_tables (t_db (p_sys z)) (t_db (p_sys z'))"
  using assms
proof (induction rule: rtranclp_induct)
  case (step y z')
  then have "starved S (p_pool y)" "linked D y" by simp_all
  from starved_any [OF this step.hyps(2)] linked_any [OF step.hyps(2) this(2)] step show ?case
    by (auto simp: same_tables_def)
qed (simp add: same_tables_def)

text \<open>The first \<open>k\<close> HTTP threads have parsed a submission and taken their first session.\<close>

definition exhausted :: "'j deployment \<Rightarrow> nat \<Rightarrow> psys \<Rightarrow> psys \<Rightarrow> bool" where
  "exhausted D k z z' \<longleftrightarrow> (pooled_any D)\<^sup>*\<^sup>* z z' \<and> t_db (p_sys z') = t_db (p_sys z) \<and>
     (\<forall>i<k. \<exists>x. ps_threads (p_pool z') i = Holds InsertWithOutbox x) \<and>
     (\<forall>i\<ge>k. ps_threads (p_pool z') i = Idle \<and> t_posts (p_sys z') i = NoPost) \<and>
     length (available (ps_pool (p_pool z'))) = session_count D - k"

lemma exhaust_one:
  assumes ex: "exhausted D k z z1" and k: "k < http_count D" "k < session_count D"
    and n: "he_db V = dp_db D" "he_json V = dp_json D" "parse_submission V content = Inr n"
  shows "\<exists>z2. exhausted D (Suc k) z z2"
proof -
  have z1: "ps_threads (p_pool z1) k = Idle" "t_posts (p_sys z1) k = NoPost" using ex by (simp_all add: exhausted_def)
  let ?z2 = "z1\<lparr>p_sys := (p_sys z1)\<lparr>t_posts := (t_posts (p_sys z1))(k := Parsed n)\<rparr>\<rparr>"
  have "arrival D z1 ?z2" by (rule arrival.parse [OF refl z1(2) k(1) z1(1) n])
  moreover let ?z3 = "?z2\<lparr>p_pool := becomes k (Wants InsertWithOutbox) (p_pool z1)\<rparr>"
  have "pooled_step UNIV D ?z2 ?z3" by (rule pooled_step.post_wants [of _ _ n]) (simp_all add: z1)
  moreover obtain x q where x: "available (ps_pool (p_pool z1)) = x # available q" "acquire (ps_pool (p_pool z1)) = Some (x, q)"
  proof -
    have "available (ps_pool (p_pool z1)) \<noteq> []" using ex k(2) by (auto simp: exhausted_def)
    then show ?thesis using that pool.acq_progress pool.acq_Some by blast
  qed
  let ?z4 = "?z3\<lparr>p_pool := becomes k (Holds InsertWithOutbox x) ((p_pool ?z3)\<lparr>ps_pool := q\<rparr>)\<rparr>"
  have "pooled_step UNIV D ?z3 ?z4" by (rule pooled_step.gets_session [OF refl]) (simp_all add: x(2))
  ultimately have "(pooled_any D)\<^sup>*\<^sup>* z1 ?z4"
    by (meson any_step any_arrival converse_rtranclp_into_rtranclp rtranclp.rtrancl_refl)
  moreover have "length (available (ps_pool (p_pool z1))) = session_count D - k" using ex by (simp add: exhausted_def)
  ultimately have "exhausted D (Suc k) z ?z4"
    using ex x(1) unfolding exhausted_def by (auto simp: less_Suc_eq)
  then show ?thesis by blast
qed

lemma idle_sessions:
  assumes "pooled_reach D z" "all_idle (p_pool z)"
  shows "length (available (ps_pool (p_pool z))) = session_count D"
proof -
  have "mset (available (ps_pool (p_pool z))) = mset [0..<session_count D]"
    using pooled_inv [OF assms(1)] assms(2) by (simp add: pool_inv_def all_idle_def)
  from arg_cong [OF this, of size] show ?thesis by simp
qed

lemma exhaust:
  assumes "pooled_reach D z" "all_idle (p_pool z)" "\<forall>i. t_posts (p_sys z) i = NoPost"
    and n: "he_db V = dp_db D" "he_json V = dp_json D" "parse_submission V content = Inr n"
    and "k \<le> http_count D" "k \<le> session_count D"
  shows "\<exists>z'. exhausted D k z z'"
  using assms(7,8)
proof (induction k)
  case 0
  have "exhausted D 0 z z" using assms(1-3) idle_sessions by (auto simp: exhausted_def all_idle_def)
  then show ?case by blast
next
  case (Suc k)
  then obtain z1 where "exhausted D k z z1" by auto
  from exhaust_one [OF this _ _ n] Suc.prems show ?case by auto
qed

section \<open>A submission with its sessions\<close>

text \<open>A submission up to its commit, for the witnesses: it takes two sessions of the eight and gives both back.\<close>

lemma sample_counts:
  "http_count sample_deployment = 4" "session_count sample_deployment = 8"
  "workersPerChannel (dp_config sample_deployment) = 4"
  by (simp_all add: http_count_def session_count_def sample_deployment_def Config_default_def pool_size_def)

definition sample_parsed :: tsys where
  "sample_parsed = (tsys_init sample_deployment)\<lparr>t_posts := (\<lambda>_. NoPost)(0 := Parsed sample_notification)\<rparr>"

definition sample_nested :: pool_sys where
  "sample_nested = \<lparr>ps_pool = \<lparr>available = [2, 3, 4, 5, 6, 7]\<rparr>, ps_threads = (\<lambda>_. Idle)(0 := Nested 0 1)\<rparr>"

lemma sample_nested_reachable: "pooled_reach sample_deployment \<lparr>p_sys = sample_parsed, p_pool = sample_nested\<rparr>"
proof -
  let ?D = sample_deployment and ?p0 = "pool_init 8"
  let ?s0 = "tsys_init sample_deployment"
  have i: "t_posts ?s0 = (\<lambda>_. NoPost)" "t_db ?s0 = db_empty" "t_router ?s0 = newRouter 5 30000"
    "t_queues ?s0 = (\<lambda>_. [])" "t_workers ?s0 = (\<lambda>_. Free)" "t_lost ?s0 = []"
    by (simp_all add: tsys_init_def sample_deployment_def Config_default_def)
  have pool: "available (ps_pool ?p0) = [0, 1, 2, 3, 4, 5, 6, 7]" "ps_threads ?p0 = (\<lambda>_. Idle)"
    by (simp_all add: pool_init_def eval_nat_numeral)
  have p: "parse_submission sample_http (rq_body (sample_request ''b'')) = Inr sample_notification"
    using sample_parse [of "''b''"] sample_body_b by simp
  let ?s1 = "?s0\<lparr>t_posts := (t_posts ?s0)(0 := Parsed sample_notification)\<rparr>"
  have "arrival ?D (pooled_init ?D) ((pooled_init ?D)\<lparr>p_sys := ?s1\<rparr>)"
    by (rule arrival.parse [where V = sample_http, OF _ _ _ _ _ _ p])
      (simp_all add: pooled_init_def i sample_counts pool_init_def, simp_all add: sample_http_def sample_deployment_def)
  then have "pooled_reach ?D ((pooled_init ?D)\<lparr>p_sys := ?s1\<rparr>)" by (rule pooled_reach.arrive [OF pooled_reach.init])
  then have r1: "pooled_reach ?D \<lparr>p_sys = ?s1, p_pool = ?p0\<rparr>" by (simp add: pooled_init_def sample_counts)
  let ?p1 = "becomes 0 (Wants InsertWithOutbox) ?p0"
  let ?p2 = "becomes 0 (Holds InsertWithOutbox 0) (?p1\<lparr>ps_pool := \<lparr>available = [1, 2, 3, 4, 5, 6, 7]\<rparr>\<rparr>)"
  let ?p3 = "becomes 0 (Nested 0 1) (?p2\<lparr>ps_pool := \<lparr>available = [2, 3, 4, 5, 6, 7]\<rparr>\<rparr>)"
  have "pooled_reach ?D \<lparr>p_sys = ?s1, p_pool = ?p1\<rparr>"
    using pooled_reach.serve [OF r1 pooled_step.post_wants [of _ 0 sample_notification ?p0]] by (simp add: pool)
  from pooled_reach.serve [OF this pooled_step.gets_session [of _ ?p1 0 InsertWithOutbox 0 "\<lparr>available = [1, 2, 3, 4, 5, 6, 7]\<rparr>"]]
  have "pooled_reach ?D \<lparr>p_sys = ?s1, p_pool = ?p2\<rparr>" by (simp add: pool acquire_def)
  from pooled_reach.serve [OF this pooled_step.gets_second [of _ ?p2 0 0 1 "\<lparr>available = [2, 3, 4, 5, 6, 7]\<rparr>"]]
  have "pooled_reach ?D \<lparr>p_sys = ?s1, p_pool = ?p3\<rparr>" by (simp add: acquire_def)
  moreover have "?s1 = sample_parsed" by (simp add: sample_parsed_def i)
  moreover have "?p3 = sample_nested" by (simp add: sample_nested_def pool)
  ultimately show ?thesis by simp
qed

lemma pooled_sample: "\<exists>p. pooled_reach sample_deployment \<lparr>p_sys = sample_committed, p_pool = p\<rparr>"
proof -
  let ?D = sample_deployment and ?s1 = sample_parsed and ?p3 = sample_nested
  let ?p4 = "becomes 0 (AfterNested 0) (releases 1 ?p3)"
  have i: "t_posts ?s1 = (\<lambda>_. NoPost)(0 := Parsed sample_notification)" "t_db ?s1 = db_empty"
    "t_router ?s1 = newRouter 5 30000" "t_queues ?s1 = (\<lambda>_. [])" "t_workers ?s1 = (\<lambda>_. Free)" "t_lost ?s1 = []"
    by (simp_all add: sample_parsed_def tsys_init_def sample_deployment_def Config_default_def)
  note r3 = sample_nested_reachable
  have f: "findByIdempotencyKey (dp_db ?D) (n_idempotencyKey sample_notification) (t_db ?s1) = (Inr None, db_empty)"
    by (subst findByIdempotencyKey_none) (simp_all add: i db_empty_def select_by_key_def pop_fault_def)
  let ?s2 = "?s1\<lparr>t_db := db_empty, t_posts := (t_posts ?s1)(0 := Absent sample_notification)\<rparr>"
  have "pooled_step UNIV ?D \<lparr>p_sys = ?s1, p_pool = ?p3\<rparr> \<lparr>p_sys = ?s2, p_pool = ?p4\<rparr>"
    using pooled_step.check [where z = "\<lparr>p_sys = ?s1, p_pool = ?p3\<rparr>" and i = 0 and p = ?p3 and x = 0 and y = 1, OF _ _ _ _ f]
    by (simp add: i sample_nested_def)
  with r3 have r4: "pooled_reach ?D \<lparr>p_sys = ?s2, p_pool = ?p4\<rparr>" by (rule pooled_reach.serve)
  have t: "insertTransaction (dp_db ?D) zero_draws sample_notification (t_db ?s2) = (Inr sample_saved, sample_db)"
    using sample_transaction by (simp add: sample_deployment_def)
  let ?s3 = "?s2\<lparr>t_db := sample_db, t_posts := (t_posts ?s2)(0 := Stored sample_saved)\<rparr>"
  have "pooled_step UNIV ?D \<lparr>p_sys = ?s2, p_pool = ?p4\<rparr> \<lparr>p_sys = ?s3, p_pool = becomes 0 Idle (releases 0 ?p4)\<rparr>"
    using pooled_step.insert [where z = "\<lparr>p_sys = ?s2, p_pool = ?p4\<rparr>" and i = 0 and p = ?p4 and x = 0, OF _ _ _ _ _ t]
    by (simp add: valid_draws_def zero_draws_def)
  with r4 have "pooled_reach ?D \<lparr>p_sys = ?s3, p_pool = becomes 0 Idle (releases 0 ?p4)\<rparr>" by (rule pooled_reach.serve)
  moreover have "?s3 = sample_committed"
    by (rule tsys.equality) (auto simp: i sample_committed_def sample_start_def)
  ultimately show ?thesis by metis
qed

section \<open>Properties\<close>

text \<open>C22: the service with its session pool refines both of its parts. Each of its reachable states
  is one of the interleaved system of \<open>Threads\<close> together with one of the pool, each of its steps
  a step of either or of both, so that what holds of every reachable state of those
  (C1, C17) holds here. A thread that executes a repository call does so under a session it
  holds itself for that call, and gives it back in the same step; what changes in the
  database in a step is the work of exactly one such thread; and no session is held by two
  threads, or by one while it lies in the pool.\<close>

theorem pooled_refines:
  assumes "pooled_reach D z"
  shows "tsys_reach D (p_sys z) \<and> pool_reach (session_count D) {..<thread_count D} {..<http_count D} (p_pool z) \<and>
    (\<forall>P z'. pooled_step P D z z' \<longrightarrow>
       (p_sys z' = p_sys z \<or> serve_step P D (p_sys z) (p_sys z')) \<and>
       (p_pool z' = p_pool z \<or> begin_call {..<thread_count D} {..<http_count D} (p_pool z) (p_pool z') \<or>
          pool_work (p_pool z) (p_pool z')) \<and>
       (\<forall>j. issues D z z' j \<longrightarrow> uses_session z z' j) \<and>
       (t_db (p_sys z') \<noteq> t_db (p_sys z) \<longrightarrow> (\<exists>!j. issues D z z' j))) \<and>
    (\<forall>i x. x \<in># held (ps_threads (p_pool z) i) \<longrightarrow>
       x \<notin> set (available (ps_pool (p_pool z))) \<and> {j. x \<in># held (ps_threads (p_pool z) j)} = {i})"
proof -
  note link = pooled_reach_linked [OF assms]
  have "(p_sys z' = p_sys z \<or> serve_step P D (p_sys z) (p_sys z')) \<and>
      (p_pool z' = p_pool z \<or> pool_moves D (p_pool z) (p_pool z')) \<and>
      (\<forall>j. issues D z z' j \<longrightarrow> uses_session z z' j) \<and>
      (t_db (p_sys z') \<noteq> t_db (p_sys z) \<longrightarrow> (\<exists>!j. issues D z z' j))" if "pooled_step P D z z'" for P z'
    using pooled_step_sys [OF that] pooled_step_pool [OF link that] own_session [OF link that] by blast
  then show ?thesis
    using pooled_reach_sys [OF assms] pooled_reach_pool [OF assms]
      pool_inv_exclusive [OF pooled_inv [OF assms] finite_lessThan] by fast
qed

theorem pooled_refines_witness:
  "tsys_reach sample_deployment sample_parsed \<and> {j. 1 \<in># held (ps_threads sample_nested j)} = {0}"
  using pooled_refines [OF sample_nested_reachable] by (simp add: sample_nested_def)

text \<open>C20: submissions can stop the deliveries. When the pool has no more sessions than there are
  HTTP threads, as many simultaneous submissions as there are sessions, arriving while no
  database call is in progress, can bring the service into a state in which every session is
  held by a submission that waits for a second one: whatever arrives and happens afterwards,
  short of a restart of the process, no table changes any more. No worker looks up, claims, marks
  or counts anything (one that is past its claim may still call its provider, but cannot record
  the outcome), and every notification keeps the status it has.\<close>

theorem submissions_freeze_service:
  assumes "pooled_reach D z" "session_count D \<le> http_count D"
    and "all_idle (p_pool z)" "\<forall>i. t_posts (p_sys z) i = NoPost"
    and "he_db V = dp_db D" "he_json V = dp_json D" "parse_submission V content = Inr n"
  shows "\<exists>z1. (pooled_any D)\<^sup>*\<^sup>* z z1 \<and> t_db (p_sys z1) = t_db (p_sys z) \<and>
    (\<forall>z2. (pooled_any D)\<^sup>*\<^sup>* z1 z2 \<longrightarrow> same_tables (t_db (p_sys z1)) (t_db (p_sys z2)) \<and>
       (\<forall>i < session_count D. \<exists>x. ps_threads (p_pool z2) i = Holds InsertWithOutbox x))"
proof -
  obtain z1 where ex: "exhausted D (session_count D) z z1"
    using exhaust [OF assms(1,3-7,2)] by blast
  then have run: "(pooled_any D)\<^sup>*\<^sup>* z z1" "t_db (p_sys z1) = t_db (p_sys z)"
    and st: "starved {..<session_count D} (p_pool z1)"
    by (auto simp: exhausted_def starved_def not_less)
  have link: "linked D z1" by (rule pooled_reach_linked [OF pooled_any_reach [OF run(1) assms(1)]])
  have "same_tables (t_db (p_sys z1)) (t_db (p_sys z2)) \<and> (\<forall>i < session_count D. \<exists>x. ps_threads (p_pool z2) i = Holds InsertWithOutbox x)"
    if "(pooled_any D)\<^sup>*\<^sup>* z1 z2" for z2
    using starved_runs [OF that st link] by (auto simp: starved_def)
  with run show ?thesis by blast
qed

theorem submissions_freeze_service_witness:
  "let D = sample_deployment\<lparr>dp_config := Config_default\<lparr>dbPoolSize := 2\<rparr>\<rparr> in
   \<exists>z1. (pooled_any D)\<^sup>*\<^sup>* (pooled_init D) z1 \<and>
     (\<forall>z2. (pooled_any D)\<^sup>*\<^sup>* z1 z2 \<longrightarrow> notifications (t_db (p_sys z2)) = [])"
proof -
  let ?D = "sample_deployment\<lparr>dp_config := Config_default\<lparr>dbPoolSize := 2\<rparr>\<rparr>"
  have "session_count ?D \<le> http_count ?D" by (simp add: session_count_def http_count_def pool_size_def Config_default_def)
  moreover have "all_idle (p_pool (pooled_init ?D))" "\<forall>i. t_posts (p_sys (pooled_init ?D)) i = NoPost"
    by (simp_all add: pooled_init_def pool_init_def all_idle_def tsys_init_def)
  moreover have "parse_submission sample_http (rq_body (sample_request ''b'')) = Inr sample_notification"
    using sample_parse [of "''b''"] sample_body_b by simp
  moreover have "he_db sample_http = dp_db ?D" "he_json sample_http = dp_json ?D"
    by (simp_all add: sample_http_def sample_deployment_def)
  ultimately obtain z1 where "(pooled_any ?D)\<^sup>*\<^sup>* (pooled_init ?D) z1" "t_db (p_sys z1) = t_db (p_sys (pooled_init ?D))"
    "\<forall>z2. (pooled_any ?D)\<^sup>*\<^sup>* z1 z2 \<longrightarrow> same_tables (t_db (p_sys z1)) (t_db (p_sys z2))"
    using submissions_freeze_service [OF pooled_reach.init, of ?D sample_http "rq_body (sample_request ''b'')" sample_notification]
    by blast
  then show ?thesis
    unfolding Let_def by (intro exI [of _ z1]) (auto simp: same_tables_def pooled_init_def tsys_init_def db_empty_def)
qed

end
