(* ===== verification/PoolProgress.thy ===== *)
theory PoolProgress
  imports Pooled
begin

text \<open>
  The service with its session pool works off what it has been given, provided that the pool has
  more sessions than there are HTTP threads: a measure of the work that is left, now with the
  waiting for sessions in it, and the absence of states in which threads block each other.
\<close>

section \<open>The work that is left\<close>

text \<open>The steps a thread still takes at most to have, or to give back, the sessions of its current call.\<close>

fun post_sessions :: "post_slot \<Rightarrow> thread_pc \<Rightarrow> nat" where
  "post_sessions q Idle = (case q of Parsed n \<Rightarrow> 4 | _ \<Rightarrow> 0)"
| "post_sessions q (Wants c) = (if c = InsertWithOutbox then 3 else 2)"
| "post_sessions q (Holds c x) = (if c = InsertWithOutbox then 2 else 1)"
| "post_sessions q (Nested x y) = 1"
| "post_sessions q (AfterNested x) = 1"

fun worker_sessions :: "worker_slot \<Rightarrow> thread_pc \<Rightarrow> nat" where
  "worker_sessions w Idle = (case w of Free \<Rightarrow> 0 | Busy ch body tag pc \<Rightarrow> if needs_session pc then 2 else 0)"
| "worker_sessions w (Wants c) = 1"
| "worker_sessions w _ = 0"

definition sessions_left :: "'j deployment \<Rightarrow> psys \<Rightarrow> nat" where
  "sessions_left D z =
     (\<Sum>i<http_count D. post_sessions (t_posts (p_sys z) i) (ps_threads (p_pool z) i)) +
     (\<Sum>i<length (workers_of D). worker_sessions (t_workers (p_sys z) i) (ps_threads (p_pool z) (http_count D + i)))"

text \<open>A step of \<open>Threads\<close> counts three: it may make a call necessary, which takes two more.\<close>

definition pooled_work :: "'j deployment \<Rightarrow> psys \<Rightarrow> nat" where
  "pooled_work D z = 3 * work_left D (p_sys z) + sessions_left D z"

lemma sum_point:
  fixes f g :: "nat \<Rightarrow> nat"
  assumes "i < n" "\<And>j. j \<noteq> i \<Longrightarrow> g j = f j"
  shows "(\<Sum>j<n. g j) + f i = (\<Sum>j<n. f j) + g i"
proof -
  have "(\<Sum>j\<in>{..<n} - {i}. g j) = (\<Sum>j\<in>{..<n} - {i}. f j)" by (rule sum.cong) (use assms(2) in auto)
  then show ?thesis using assms(1) by (simp add: sum.remove [of "{..<n}" i])
qed

lemma sessions_post:
  assumes "i < http_count D"
    and "t_posts s' = (t_posts (p_sys z))(i := q)" "t_workers s' = t_workers (p_sys z)"
    and "ps_threads p' = (ps_threads (p_pool z))(i := c)"
  shows "sessions_left D \<lparr>p_sys = s', p_pool = p'\<rparr> + post_sessions (t_posts (p_sys z) i) (ps_threads (p_pool z) i) =
    sessions_left D z + post_sessions q c"
proof -
  have "(\<Sum>j<http_count D. post_sessions (t_posts s' j) (ps_threads p' j)) + post_sessions (t_posts (p_sys z) i) (ps_threads (p_pool z) i) =
      (\<Sum>j<http_count D. post_sessions (t_posts (p_sys z) j) (ps_threads (p_pool z) j)) + post_sessions (t_posts s' i) (ps_threads p' i)"
    by (rule sum_point [OF assms(1)]) (simp add: assms(2,4))
  moreover have "(\<Sum>j<length (workers_of D). worker_sessions (t_workers s' j) (ps_threads p' (http_count D + j))) =
      (\<Sum>j<length (workers_of D). worker_sessions (t_workers (p_sys z) j) (ps_threads (p_pool z) (http_count D + j)))"
    using assms(1) by (intro sum.cong) (simp_all add: assms(3,4))
  ultimately show ?thesis by (simp add: sessions_left_def assms(2,4))
qed

lemma sessions_worker:
  assumes "i < length (workers_of D)"
    and "t_workers s' = (t_workers (p_sys z))(i := q)" "t_posts s' = t_posts (p_sys z)"
    and "ps_threads p' = (ps_threads (p_pool z))(http_count D + i := c)"
  shows "sessions_left D \<lparr>p_sys = s', p_pool = p'\<rparr> +
      worker_sessions (t_workers (p_sys z) i) (ps_threads (p_pool z) (http_count D + i)) =
    sessions_left D z + worker_sessions q c"
proof -
  have "(\<Sum>j<length (workers_of D). worker_sessions (t_workers s' j) (ps_threads p' (http_count D + j))) +
        worker_sessions (t_workers (p_sys z) i) (ps_threads (p_pool z) (http_count D + i)) =
      (\<Sum>j<length (workers_of D). worker_sessions (t_workers (p_sys z) j) (ps_threads (p_pool z) (http_count D + j))) +
        worker_sessions (t_workers s' i) (ps_threads p' (http_count D + i))"
    by (rule sum_point [OF assms(1)]) (simp add: assms(2,4))
  moreover have "(\<Sum>j<http_count D. post_sessions (t_posts s' j) (ps_threads p' j)) =
      (\<Sum>j<http_count D. post_sessions (t_posts (p_sys z) j) (ps_threads (p_pool z) j))"
    by (intro sum.cong) (simp_all add: assms(3,4))
  ultimately show ?thesis by (simp add: sessions_left_def assms(2,4))
qed

lemma sessions_thread:
  assumes "j < thread_count D" "ps_threads p' = (ps_threads (p_pool z))(j := c)"
    and "j < http_count D \<Longrightarrow> post_sessions (t_posts (p_sys z) j) c < post_sessions (t_posts (p_sys z) j) (ps_threads (p_pool z) j)"
    and "\<And>i. i < length (workers_of D) \<Longrightarrow> j = http_count D + i \<Longrightarrow>
      worker_sessions (t_workers (p_sys z) i) c < worker_sessions (t_workers (p_sys z) i) (ps_threads (p_pool z) j)"
  shows "pooled_work D (z\<lparr>p_pool := p'\<rparr>) < pooled_work D z"
proof (cases rule: thread_cases [OF assms(1)])
  case 1
  then show ?thesis
    using sessions_post [of j D "p_sys z" z "t_posts (p_sys z) j" p' c] assms(2,3) by (simp add: pooled_work_def psys_eq)
next
  case (2 i)
  then show ?thesis
    using sessions_worker [of i D "p_sys z" z "t_workers (p_sys z) i" p' c] assms(2,4)
    by (simp add: pooled_work_def psys_eq)
qed

lemma worker_sessions_le: "worker_sessions w Idle \<le> 2"
  by (simp split: worker_slot.split)

lemma acts_sessions:
  assumes "linked D z" "worker_acts P D i pc (p_sys z) s'"
    and "ps_threads p' = (ps_threads (p_pool z))(http_count D + i := Idle)"
  shows "sessions_left D \<lparr>p_sys = s', p_pool = p'\<rparr> \<le> sessions_left D z + 2"
  using assms(2)
proof cases
  case (acts ch body tag V pc' w')
  then have i: "i < length (workers_of D)" using linkedD(4) [OF assms(1)] by simp
  have "t_workers s' = (t_workers (p_sys z))(i := t_workers s' i)" "t_posts s' = t_posts (p_sys z)"
    by (simp_all add: acts(1))
  from sessions_worker [OF i this assms(3)] worker_sessions_le [of "t_workers s' i"] show ?thesis by linarith
qed

lemma idle_worker:
  assumes "linked D z" "t_workers (p_sys z) i = w" "i < length (workers_of D)"
    and "\<And>ch body tag pc. w = Busy ch body tag pc \<Longrightarrow> \<not> needs_session pc"
  shows "ps_threads (p_pool z) (http_count D + i) = Idle"
proof -
  have "worker_link w (ps_threads (p_pool z) (http_count D + i))" using linkedD(2) [OF assms(1,3)] assms(2) by simp
  then show ?thesis using assms(4) by (cases "ps_threads (p_pool z) (http_count D + i)") auto
qed

lemma pooled_decreases:
  assumes dep: "deployable D" and r: "pooled_reach D z" and step: "pooled_step P D z z'"
  shows "pooled_work D z' < pooled_work D z"
proof -
  note sys = pooled_reach_sys [OF r] and link = pooled_reach_linked [OF r]
  have core: "core_inv D (p_sys z)" using tsys_inv_reach [OF sys dep] by (simp add: tsys_inv_def)
  have serve: "pooled_work D z' < pooled_work D z"
    if "serve_step P D (p_sys z) (p_sys z')" "sessions_left D z' \<le> sessions_left D z + 2"
    using serve_decreases [OF dep core few_threads_reach [OF sys] that(1)] that(2) by (simp add: pooled_work_def)
  show ?thesis
    using step
  proof cases
    case (take_message s ch xs body ys i tag)
    have "ps_threads (p_pool z) (http_count D + i) = Idle"
      by (rule idle_worker [OF link _ take_message(5)]) (use take_message(2,4) in auto)
    then have "sessions_left D z' \<le> sessions_left D z"
      using sessions_worker [OF take_message(5), of "p_sys z'" z "Busy ch body tag Begin" "p_pool z" Idle] take_message(1,2,4)
      by (auto simp: psys_eq fun_upd_idem)
    then show ?thesis
      using serve_step.take_message [OF take_message(3,4)] by (intro serve) (simp_all add: take_message(1,2))
  next
    case (work i pc s')
    obtain ch body tag where w: "t_workers (p_sys z) i = Busy ch body tag pc" using work(2) by (auto elim: worker_acts.cases)
    then have "i < length (workers_of D)" using linkedD(4) [OF link] by simp
    from idle_worker [OF link w this] work(3) have "ps_threads (p_pool z) (http_count D + i) = Idle" by auto
    then have "ps_threads (p_pool z) = (ps_threads (p_pool z))(http_count D + i := Idle)" by (simp add: fun_upd_idem)
    from acts_sessions [OF link work(2) this] show ?thesis
      by (intro serve) (use worker_acts_serve [OF work(2)] in \<open>simp_all add: work(1) psys_eq\<close>)
  next
    case (worker_wants i ch body tag pc p)
    then have "i < length (workers_of D)" using linkedD(4) [OF link] by simp
    then show ?thesis
      unfolding worker_wants(1)
      by (intro sessions_thread [where j = "http_count D + i" and c = "Wants SingleAcquire"])
        (use worker_wants in \<open>auto simp: thread_count_def\<close>)
  next
    case (work_db i pc s' p x)
    then have "sessions_left D z' \<le> sessions_left D z + 2"
      using acts_sessions [OF link work_db(2), of "p_pool z'"] by simp
    then show ?thesis by (intro serve) (use worker_acts_serve [OF work_db(2)] in \<open>simp_all add: work_db(1)\<close>)
  next
    case (gets_session p j c x q)
    then have j: "j < thread_count D" using linkedD(5) [OF link, of j] by simp
    show ?thesis unfolding gets_session(1)
      by (rule sessions_thread [OF j, where c = "Holds c x"]) (use gets_session in auto)
  next
    case (gets_second p j x y q)
    then have j: "j < thread_count D" using linkedD(5) [OF link, of j] by simp
    have "\<not> worker_link w (ps_threads p j)" for w using gets_second(3) by simp
    then have "j = http_count D + i \<Longrightarrow> i < length (workers_of D) \<Longrightarrow> False" for i
      using linkedD(2) [OF link] gets_second(2) by metis
    then show ?thesis unfolding gets_second(1)
      by (intro sessions_thread [OF j, where c = "Nested x y"]) (use gets_second in auto)
  next
    case (post_wants i n p)
    then have i: "i < http_count D" using linkedD(3) [OF link] by simp
    then show ?thesis unfolding post_wants(1)
      by (intro sessions_thread [where j = i and c = "Wants InsertWithOutbox"]) (use post_wants in \<open>auto simp: thread_count_def\<close>)
  next
    case (check s i n p x y r d')
    then have i: "i < http_count D" using linkedD(3) [OF link] by simp
    have "sessions_left D z' \<le> sessions_left D z"
      using sessions_post [OF i, of "p_sys z'" z _ "p_pool z'" "AfterNested x"] check by simp
    then show ?thesis
      using serve_step.check [OF check(3,6)] by (intro serve) (simp_all add: check(1,2))
  next
    case (insert s i n p x u r d')
    then have i: "i < http_count D" using linkedD(3) [OF link] by simp
    have "sessions_left D z' \<le> sessions_left D z"
      using sessions_post [OF i, of "p_sys z'" z "case r of Inl ex \<Rightarrow> NoPost | Inr m \<Rightarrow> Stored m" "p_pool z'" Idle] insert
      by (cases r) simp_all
    then show ?thesis
      using serve_step.insert [OF insert(3,6,7)] by (intro serve) (simp_all add: insert(1,2))
  next
    case (post_returns i m p x)
    have "i < thread_count D" using post_returns linkedD(5) [OF link, of i] by simp
    moreover have "\<not> worker_link w (ps_threads p i)" for w using post_returns(4) by simp
    then have "i = http_count D + k \<Longrightarrow> k < length (workers_of D) \<Longrightarrow> False" for k
      using linkedD(2) [OF link] post_returns(3) by metis
    ultimately show ?thesis unfolding post_returns(1)
      by (intro sessions_thread [where j = i and c = Idle]) (use post_returns in auto)
  next
    case (publish s i m msg)
    then have i: "i < http_count D" using linkedD(3) [OF link] by simp
    have "sessions_left D z' \<le> sessions_left D z"
      using sessions_post [OF i, of "p_sys z'" z NoPost "p_pool z'" Idle] publish by (simp add: fun_upd_idem psys_eq)
    then show ?thesis
      using serve_step.publish [OF publish(3,5)] by (intro serve) (simp_all add: publish(1,2) del: broker_op.simps)
  next
    case (expire s q xs body ys ttl x k)
    then show ?thesis
      using serve_step.expire [OF expire(3-5)] by (intro serve) (simp_all add: sessions_left_def del: broker_op.simps)
  next
    case (read_ends p i x)
    then show ?thesis unfolding read_ends(1)
      by (intro sessions_thread [where j = i and c = Idle]) (use read_ends linkedD(1) [OF link, of i] in \<open>auto simp: thread_count_def\<close>)
  qed
qed

section \<open>Runs\<close>

text \<open>A run of \<open>n\<close> steps without arrivals and restarts, the environment interfering in between.\<close>

inductive pserves :: "answers set \<Rightarrow> string option list set \<Rightarrow> 'j deployment \<Rightarrow> nat \<Rightarrow> psys \<Rightarrow> psys \<Rightarrow> bool"
  for P F D where
  start: "pserves P F D 0 z z"
| serve: "pserves P F D n z z' \<Longrightarrow> pooled_step P D z' z'' \<Longrightarrow> pserves P F D (Suc n) z z''"
| environment: "pserves P F D n z z' \<Longrightarrow> fs \<in> F \<Longrightarrow> pserves P F D n z (environs fs now z')"

lemma pserves_reach: "pserves P F D n z z' \<Longrightarrow> pooled_reach D z \<Longrightarrow> pooled_reach D z'"
  by (induction rule: pserves.induct) (auto intro: pooled_reach.serve pooled_reach.environ)

lemma pserves_trans: "pserves P F D m z' z'' \<Longrightarrow> pserves P F D n z z' \<Longrightarrow> pserves P F D (n + m) z z''"
  by (induction rule: pserves.induct) (auto intro: pserves.intros)

text \<open>Seen without the pool it is a run of \<open>Quiescence\<close>.\<close>

lemma pserves_sys: "pserves P F D n z z' \<Longrightarrow> \<exists>k. serves P F D k (p_sys z) (p_sys z')"
proof (induction rule: pserves.induct)
  case (serve n z z' z'')
  then show ?case using pooled_step_sys [OF serve.hyps(2)] serves.serve by metis
qed (auto simp: environs_def intro: serves.start serves.environment)

lemma environs_work [simp]: "pooled_work D (environs fs now z) = pooled_work D z"
  by (simp add: pooled_work_def environs_def sessions_left_def work_left_def)

lemma pserves_bounded:
  "pserves P F D n z z' \<Longrightarrow> deployable D \<Longrightarrow> pooled_reach D z \<Longrightarrow> n + pooled_work D z' \<le> pooled_work D z"
proof (induction rule: pserves.induct)
  case (serve n z z' z'')
  have "pooled_work D z'' < pooled_work D z'"
    by (rule pooled_decreases [OF serve.prems(1) pserves_reach [OF serve.hyps(1) serve.prems(2)] serve.hyps(2)])
  then show ?case using serve.IH [OF serve.prems] by simp
qed simp_all

section \<open>No thread is blocked for ever\<close>

text \<open>A handler that has acknowledged is done: what is left of one at work ends with the acknowledgement.\<close>

fun ends_with_ack :: "worker_slot \<Rightarrow> bool" where
  "ends_with_ack (Busy ch body tag (Todo ops)) = (ops \<noteq> [] \<and> last ops = AckMessage)"
| "ends_with_ack _ = True"

lemma handler_ends_with_ack:
  assumes "handler_step V ch config body tag pc w = (pc', w')" "w_ops w = []" "ends_with_ack (Busy ch body tag pc)"
  shows "Ack tag \<in> set (w_ops w') \<or> ends_with_ack (Busy ch body tag pc')"
proof (cases pc)
  case (Todo ops)
  then obtain op rest where ops: "ops = op # rest" using assms(3) by (cases ops) auto
  obtain r w1 where o: "op_act V ch tag op w = (r, w1)" by (cases "op_act V ch tag op w")
  have "op = AckMessage \<Longrightarrow> Ack tag \<in> set (w_ops w1)" using o by (auto simp: op_act_def emit_eq)
  moreover have "w' = w1" using assms(1) Todo ops o by (auto split: sum.splits)
  ultimately show ?thesis using assms(1,3) Todo ops o by (cases rest) (auto split: sum.splits)
qed (use assms(1) in \<open>auto simp: success_ops_def failure_ops_def Let_def split: prod.splits sum.splits option.splits if_splits\<close>)

lemma ack_step:
  assumes "tsys_step D s s'" "\<And>i. ends_with_ack (t_workers s i)"
  shows "ends_with_ack (t_workers s' i)"
  using assms(1)
proof cases
  case (work j ch body tag pc V pc' w')
  have "ends_with_ack (Busy ch body tag pc)" using assms(2) [of j] work(2) by simp
  from handler_ends_with_ack [OF work(5) _ this] show ?thesis using assms(2) by (auto simp: work(1))
qed (use assms(2) in auto)

lemma ack_reach: "tsys_reach D s \<Longrightarrow> ends_with_ack (t_workers s i)"
proof (induction arbitrary: i rule: tsys_reach.induct)
  case init
  show ?case by (simp add: tsys_init_def)
next
  case (step s s')
  show ?case by (rule ack_step [OF step.hyps(2) step.IH])
qed

lemma worker_can_act:
  assumes "A \<in> P" "t_workers s i = Busy ch body tag pc" "0 < fuel_left pc"
  shows "\<exists>s'. worker_acts P D i pc s s'"
proof -
  let ?V = "\<lparr>we_db = dp_db D, we_json = dp_json D, we_provider = A, we_t1 = 0, we_t2 = 0\<rparr>"
  obtain pc' w' where "handler_step ?V ch (dp_config D) body tag pc \<lparr>w_db = t_db s, w_router = t_router s, w_ops = []\<rparr> = (pc', w')"
    by fastforce
  from acts [OF assms(2,3) _ _ _ this, of P] assms(1) show ?thesis by auto
qed

text \<open>Whatever the pool's own system can do, the service can do.\<close>

lemma pool_work_step:
  assumes link: "linked D z" and A: "A \<in> P" and w: "pool_work (p_pool z) p'"
  shows "\<exists>z'. pooled_step P D z z'"
  using w
proof cases
  case (work_acquire i c x q)
  then show ?thesis using pooled_step.gets_session [OF refl] by blast
next
  case (work_nested_acquire i x y q)
  then show ?thesis using pooled_step.gets_second [OF refl] by blast
next
  case (work_release j x)
  then have "j < thread_count D" using linkedD(5) [OF link] by (metis thread_pc.distinct(3))
  then show ?thesis
  proof (cases rule: thread_cases)
    case 1
    then show ?thesis using pooled_step.read_ends [OF refl 1 work_release(2)] by blast
  next
    case (2 i)
    then have "worker_link (t_workers (p_sys z) i) (Holds SingleAcquire x)" using linkedD(2) [OF link] work_release(2) by metis
    then obtain ch body tag pc where w: "t_workers (p_sys z) i = Busy ch body tag pc" "needs_session pc" by auto
    then have "0 < fuel_left pc" by (cases pc rule: needs_session.cases) auto
    from worker_can_act [OF A w(1) this] obtain s' where "worker_acts P D i pc (p_sys z) s'" by blast
    from pooled_step.work_db [OF this w(2) refl work_release(2) [unfolded 2(2)]] show ?thesis by blast
  qed
next
  case (work_nested_release j x y)
  then have j: "j < thread_count D" using linkedD(5) [OF link] by (metis thread_pc.distinct(5))
  have "j < http_count D" using linkedD(2) [OF link] work_nested_release(2)
    by (cases rule: thread_cases [OF j]) (auto, metis worker_link.simps(4))
  then have "post_link (t_posts (p_sys z) j) (Nested x y)" using linkedD(1) [OF link] work_nested_release(2) by metis
  then obtain n where n: "t_posts (p_sys z) j = Parsed n" by auto
  obtain r d' where "findByIdempotencyKey (dp_db D) (n_idempotencyKey n) (t_db (p_sys z)) = (r, d')" by fastforce
  from pooled_step.check [OF refl n refl work_nested_release(2) this] show ?thesis by blast
next
  case (work_outer_release j x)
  then have j: "j < thread_count D" using linkedD(5) [OF link] by (metis thread_pc.distinct(7))
  have "j < http_count D" using linkedD(2) [OF link] work_outer_release(2)
    by (cases rule: thread_cases [OF j]) (auto, metis worker_link.simps(5))
  then have p: "post_link (t_posts (p_sys z) j) (AfterNested x)" using linkedD(1) [OF link] work_outer_release(2) by metis
  show ?thesis
  proof (cases "t_posts (p_sys z) j")
    case (Absent n)
    have u: "valid_draws \<lparr>hexDraw = (\<lambda>_. 0), variantDraw = 8\<rparr>" by (simp add: valid_draws_def)
    obtain r d' where "insertTransaction (dp_db D) \<lparr>hexDraw = (\<lambda>_. 0), variantDraw = 8\<rparr> n (t_db (p_sys z)) = (r, d')" by fastforce
    from pooled_step.insert [OF refl Absent refl work_outer_release(2) u this] show ?thesis by blast
  next
    case (Stored m)
    then show ?thesis using pooled_step.post_returns [OF _ refl work_outer_release(2)] by blast
  next
    case NoPost
    then show ?thesis using pooled_step.post_returns [OF _ refl work_outer_release(2)] by blast
  qed (use p in simp)
qed

text \<open>With a worker for every channel, and none left by an exception, nothing is left lying either.\<close>

definition left_by_exception :: "tsys \<Rightarrow> bool" where
  "left_by_exception s \<longleftrightarrow> (\<exists>i ch body tag ex. t_workers s i = Busy ch body tag (Threw ex))"

definition pooled_at_rest :: "'j deployment \<Rightarrow> psys \<Rightarrow> bool" where
  "pooled_at_rest D z \<longleftrightarrow> at_rest D (p_sys z) \<and> all_idle (p_pool z)"

lemma channel_has_worker:
  assumes "0 < workersPerChannel (dp_config D)"
  obtains i where "i < length (workers_of D)" "wt_channel (workers_of D ! i) = ch"
proof -
  have "ch \<in> set all_channels" by (cases ch) (simp_all add: all_channels_def)
  then have "newWorkerThread (dp_config D) ch \<in> set (workers_of D)"
    using assms by (auto simp: workers_of_def newWorkerPool_def image_iff intro!: exI [of _ 0])
  then show ?thesis using that by (auto simp: in_set_conv_nth newWorkerThread_def)
qed

lemma idle_queue_step:
  assumes ch: "0 < workersPerChannel (dp_config D)" and q: "live D ch q" "t_queues (p_sys z) q \<noteq> []"
    and free: "\<And>i. t_workers (p_sys z) i = Free"
  shows "\<exists>z'. pooled_step P D z z'"
proof -
  obtain body ys where b: "t_queues (p_sys z) q = [] @ body # ys" using q(2) by (cases "t_queues (p_sys z) q") auto
  show ?thesis
  proof (cases "q = mainQueue ch")
    case True
    obtain i where "i < length (workers_of D)" "wt_channel (workers_of D ! i) = ch" by (rule channel_has_worker [OF ch])
    from pooled_step.take_message [OF refl b [unfolded True] free this] show ?thesis by blast
  next
    case False
    then obtain a where a: "1 \<le> a" "a \<le> int (length (retryDelaysMs (dp_config D)))" "q = retryQueue ch a"
      using q(1) unfolding live_def by blast
    from pooled_step.expire [OF refl b] rung_args [OF a(1,2), of ch] a(3) show ?thesis by metis
  qed
qed

lemma idle_worker_step:
  assumes A: "A \<in> P" and idle: "all_idle (p_pool z)" and w: "t_workers (p_sys z) i = Busy ch body tag pc" "0 < fuel_left pc"
  shows "\<exists>z'. pooled_step P D z z'"
proof (cases "needs_session pc")
  case True
  from pooled_step.worker_wants [OF w(1) True refl] idle show ?thesis unfolding all_idle_def by blast
next
  case False
  obtain s' where "worker_acts P D i pc (p_sys z) s'" using worker_can_act [OF A w] by blast
  from pooled_step.work [OF this False] show ?thesis by blast
qed

lemma idle_post_step:
  assumes dep: "deployable D" and r: "pooled_reach D z" and idle: "all_idle (p_pool z)" and i: "t_posts (p_sys z) i \<noteq> NoPost"
  shows "\<exists>z'. pooled_step P D z z'"
proof -
  have pc: "ps_threads (p_pool z) i = Idle" using idle by (simp add: all_idle_def)
  note link = pooled_reach_linked [OF r]
  show ?thesis
  proof (cases "t_posts (p_sys z) i")
    case (Parsed n)
    from pooled_step.post_wants [OF this refl pc] show ?thesis by blast
  next
    case (Absent n)
    then show ?thesis using linkedD(1) [OF link linkedD(3) [OF link i]] pc by simp
  next
    case (Stored m)
    have "json_laws (dp_json D)" using dep by (simp add: deployable_def)
    moreover have "ascii (n_id m)" by (rule printableD(2) [OF printable_reach [OF pooled_reach_sys [OF r] dep] Stored])
    ultimately obtain msg where "j_dump (dp_json D) (deliveryMessage (dp_json D) m) = Inr msg"
      using deliveryMessage_prints by blast
    from pooled_step.publish [OF refl Stored pc this] show ?thesis by blast
  qed (use i in simp)
qed

lemma pooled_can_step:
  assumes dep: "deployable D" and r: "pooled_reach D z" and A: "A \<in> P"
    and size: "http_count D < session_count D" "0 < workersPerChannel (dp_config D)"
    and go: "\<not> left_by_exception (p_sys z)" "\<not> pooled_at_rest D z"
  shows "\<exists>z'. pooled_step P D z z'"
proof (cases "all_idle (p_pool z)")
  case False
  have "\<not> stuck (p_pool z)"
    by (rule enough_sessions_not_stuck [OF pooled_inv [OF r] _ http_threads]) (simp_all add: size(1))
  with False obtain p' where "pool_work (p_pool z) p'" by (auto simp: stuck_def)
  from pool_work_step [OF pooled_reach_linked [OF r] A this] show ?thesis .
next
  case idle: True
  show ?thesis
  proof (rule ccontr)
    assume stop: "\<nexists>z'. pooled_step P D z z'"
    have fuel: "fuel_left pc = 0" if "t_workers (p_sys z) i = Busy ch body tag pc" for i ch body tag pc
      using idle_worker_step [OF A idle that] stop by blast
    have free: "t_workers (p_sys z) i = Free" for i
    proof (cases "t_workers (p_sys z) i")
      case (Busy ch body tag pc)
      have "ends_with_ack (Busy ch body tag pc)" using ack_reach [OF pooled_reach_sys [OF r], of i] Busy by simp
      moreover have "fuel_left pc = 0" by (rule fuel [OF Busy])
      ultimately obtain ex where "pc = Threw ex" by (cases pc) auto
      then show ?thesis using go(1) Busy by (auto simp: left_by_exception_def)
    qed
    have "t_posts (p_sys z) i = NoPost" for i using idle_post_step [OF dep r idle] stop by blast
    moreover have "t_queues (p_sys z) q = []" if "live D ch q" for ch q
      using idle_queue_step [OF size(2) that _ free] stop by blast
    ultimately have "at_rest D (p_sys z)" using free by (auto simp: at_rest_def live_queues_iff)
    then show False using go(2) idle by (simp add: pooled_at_rest_def)
  qed
qed

text \<open>Every run comes to its end.\<close>

lemma pooled_run_ends:
  assumes "deployable D" "pooled_reach D z"
  shows "\<exists>n z'. pserves P F D n z z' \<and> (\<nexists>z''. pooled_step P D z' z'')"
  using assms(2)
proof (induction "pooled_work D z" arbitrary: z rule: less_induct)
  case less
  show ?case
  proof (cases "\<exists>z1. pooled_step P D z z1")
    case True
    then obtain z1 where z1: "pooled_step P D z z1" by blast
    from less.hyps [OF pooled_decreases [OF assms(1) less.prems z1] pooled_reach.serve [OF less.prems z1]]
    show ?thesis using pserves_trans pserves.serve [OF pserves.start z1] by blast
  qed (use pserves.start in blast)
qed

lemma pooled_rest_reached:
  assumes "deployable D" "A \<in> P" "pooled_reach D z" "http_count D < session_count D" "0 < workersPerChannel (dp_config D)"
  shows "\<exists>n z'. pserves P F D n z z' \<and> (pooled_at_rest D z' \<or> left_by_exception (p_sys z'))"
  using pooled_run_ends [OF assms(1,3)] pooled_can_step [OF assms(1) pserves_reach [OF _ assms(3)] assms(2,4,5)] by blast

section \<open>With the repository's own providers\<close>

lemma pooled_healthy:
  assumes "pserves mock_answers no_faults D n z z'" "deployable D" "pooled_reach D z" "healthy D (p_sys z)"
  shows "\<not> left_by_exception (p_sys z')"
proof -
  obtain k where "serves mock_answers no_faults D k (p_sys z) (p_sys z')" using pserves_sys [OF assms(1)] by blast
  from healthyD(4) [OF healthy_run [OF this assms(2) pooled_reach_sys [OF assms(3)] assms(4)]] show ?thesis
    by (fastforce simp: left_by_exception_def)
qed

section \<open>Properties\<close>

text \<open>C21: threads never block each other for good while the pool has more sessions than there
  are HTTP threads. With the session pool, the configured number of workers of each channel and
  at least one of them: from any reachable state, without new requests and restarts, the threads can
  take at most \<open>pooled_work\<close> further steps, waiting for sessions included, whatever the
  scheduler, the providers (\<open>P\<close>) and the database (\<open>F\<close>) do; a state from which no step is
  possible has every session back in the pool and nothing left to do, unless an exception has
  left a handler (which ends the process); and such a state is reached from every run.\<close>

theorem pooled_service_comes_to_rest:
  assumes "deployable D" "pooled_reach D z" "pserves P F D n z z'" "A \<in> P"
    and "http_count D < session_count D" "0 < workersPerChannel (dp_config D)"
  shows "n \<le> pooled_work D z \<and>
    ((\<nexists>z''. pooled_step P D z' z'') \<longrightarrow> pooled_at_rest D z' \<or> left_by_exception (p_sys z')) \<and>
    (\<exists>m z''. pserves P F D m z' z'' \<and> (pooled_at_rest D z'' \<or> left_by_exception (p_sys z'')))"
proof -
  note r = pserves_reach [OF assms(3,2)]
  show ?thesis
    using pserves_bounded [OF assms(3,1,2)] pooled_can_step [OF assms(1) r assms(4-6)]
      pooled_rest_reached [OF assms(1,4) r assms(5,6)] by fastforce
qed

theorem pooled_service_comes_to_rest_witness:
  "\<exists>n z z'. pserves UNIV UNIV sample_deployment n z z' \<and> n \<le> pooled_work sample_deployment z \<and>
     t_posts (p_sys z) 0 = Stored sample_saved \<and>
     (pooled_at_rest sample_deployment z' \<or> left_by_exception (p_sys z'))"
proof -
  obtain p where p: "pooled_reach sample_deployment \<lparr>p_sys = sample_committed, p_pool = p\<rparr>" using pooled_sample by blast
  note rest = pooled_service_comes_to_rest [OF deployable_sample p _ UNIV_I]
  obtain n z' where n: "pserves UNIV UNIV sample_deployment n \<lparr>p_sys = sample_committed, p_pool = p\<rparr> z'"
    "pooled_at_rest sample_deployment z' \<or> left_by_exception (p_sys z')"
    using rest [where F = UNIV, OF pserves.start] by (auto simp: sample_counts)
  with rest [OF n(1)] show ?thesis
    by (intro exI [of _ n] exI [of _ "\<lparr>p_sys = sample_committed, p_pool = p\<rparr>"] exI [of _ z'])
      (simp add: sample_counts sample_committed_def)
qed

text \<open>C6: the service as it is shipped settles everything. Let the session pool be larger than the
  number of HTTP threads, every channel have a worker, no handler be at work yet, the database answer
  every statement, the providers be the repository's own, and the attempt counts not be about
  to overflow. Then every run without new requests and restarts is bounded, no exception ever
  leaves a handler, every run can be continued until no step is possible, and there every session is
  back in the pool and every stored notification is SENT, or DEAD_LETTERED with its message in the
  dead-letter queue, except those whose announcement had been lost before the run.\<close>

theorem pooled_service_settles:
  assumes "deployable D" "pooled_reach D z" "http_count D < session_count D" "0 < workersPerChannel (dp_config D)"
    and "t_workers (p_sys z) = (\<lambda>_. Free)" "fault_free (t_db (p_sys z))" "work_left D (p_sys z) \<le> uint32_max"
    and "\<forall>row\<in>set (notifications (t_db (p_sys z))). r_attempt_count row + work_left D (p_sys z) \<le> uint32_max"
    and "pserves mock_answers no_faults D n z z'"
  shows "n \<le> pooled_work D z \<and> \<not> left_by_exception (p_sys z') \<and>
    (\<exists>m z''. pserves mock_answers no_faults D m z' z'' \<and> pooled_at_rest D z'') \<and>
    ((\<nexists>z''. pooled_step mock_answers D z' z'') \<longrightarrow> pooled_at_rest D z' \<and>
      (\<forall>row\<in>set (notifications (t_db (p_sys z'))).
         r_status row = ''SENT'' \<or> r_status row = ''DEAD_LETTERED'' \<and> parked D (t_queues (p_sys z')) row \<or>
         r_status row = ''PENDING'' \<and> r_id row \<in> set (t_lost (p_sys z))))"
proof (intro conjI impI ballI)
  have "healthy D (p_sys z)" using assms(5-8) by (simp add: healthy_def)
  note no_throw = pooled_healthy [OF _ assms(1,2) this] and r = pserves_reach [OF assms(9,2)]
  show "n \<le> pooled_work D z" using pserves_bounded [OF assms(9,1,2)] by simp
  show go: "\<not> left_by_exception (p_sys z')" by (rule no_throw [OF assms(9)])
  obtain m z'' where m: "pserves mock_answers no_faults D m z' z''" "pooled_at_rest D z'' \<or> left_by_exception (p_sys z'')"
    using pooled_rest_reached [OF assms(1) some_mock_answer r assms(3,4)] by blast
  then show "\<exists>m z''. pserves mock_answers no_faults D m z' z'' \<and> pooled_at_rest D z''"
    using no_throw [OF pserves_trans [OF m(1) assms(9)]] by blast
  assume stop: "\<nexists>z''. pooled_step mock_answers D z' z''"
  show rest: "pooled_at_rest D z'" using pooled_can_step [OF assms(1) r some_mock_answer assms(3,4) go] stop by blast
  fix row assume row: "row \<in> set (notifications (t_db (p_sys z')))"
  obtain k where k: "serves mock_answers no_faults D k (p_sys z) (p_sys z')" using pserves_sys [OF assms(9)] by blast
  have "at_rest D (p_sys z')" using rest by (simp add: pooled_at_rest_def)
  moreover have "\<not> crashed D (p_sys z') row" using go by (auto simp: crashed_def left_by_exception_def)
  ultimately show "r_status row = ''SENT'' \<or> r_status row = ''DEAD_LETTERED'' \<and> parked D (t_queues (p_sys z')) row \<or>
      r_status row = ''PENDING'' \<and> r_id row \<in> set (t_lost (p_sys z))"
    using rest_outcomes [OF assms(1) pooled_reach_sys [OF assms(2)] k] row by blast
qed

theorem pooled_service_settles_witness:
  "\<exists>n z z'. pserves mock_answers no_faults sample_deployment n z z' \<and> t_posts (p_sys z) 0 = Stored sample_saved \<and>
     (\<nexists>z''. pooled_step mock_answers sample_deployment z' z'') \<and> all_idle (p_pool z') \<and>
     (\<forall>row\<in>set (notifications (t_db (p_sys z'))). r_status row = ''SENT'' \<or> r_status row = ''DEAD_LETTERED'')"
proof -
  obtain p where p: "pooled_reach sample_deployment \<lparr>p_sys = sample_committed, p_pool = p\<rparr>" using pooled_sample by blast
  note settles = pooled_service_settles [OF deployable_sample p]
  obtain n z' where run: "pserves mock_answers no_faults sample_deployment n \<lparr>p_sys = sample_committed, p_pool = p\<rparr> z'"
    "\<nexists>z''. pooled_step mock_answers sample_deployment z' z''"
    using pooled_run_ends [OF deployable_sample p] by blast
  from settles [OF _ _ _ _ _ _ run(1)] run(2) have "pooled_at_rest sample_deployment z' \<and>
      (\<forall>row\<in>set (notifications (t_db (p_sys z'))). r_status row = ''SENT'' \<or> r_status row = ''DEAD_LETTERED'')"
    using sample_healthy by (auto simp: sample_counts)
  then show ?thesis
    using run by (intro exI [of _ n] exI [of _ "\<lparr>p_sys = sample_committed, p_pool = p\<rparr>"] exI [of _ z'])
      (simp add: pooled_at_rest_def sample_committed_def)
qed

end
