(* ===== verification/ExactlyOnce.thy ===== *)
theory ExactlyOnce
  imports PoolProgress
begin

text \<open>
  When a notification is delivered exactly once. Repeated submissions, redeliveries after the
  death of a worker and lost connections lead to duplicates (C11, C12, C30). This theory shows
  that nothing else does: as long as none of these happens, at most one message, handler or HTTP
  thread is responsible for a notification at any time, whatever statements fail and
  however threads interleave, and each notification is accepted by its provider at most once.
\<close>

section \<open>Orderly runs\<close>

text \<open>No worker leaves its message except by its own steps, and no submission finds its key in the table.\<close>

definition undisturbed :: "tsys \<Rightarrow> tsys \<Rightarrow> bool" where
  "undisturbed s s' \<longleftrightarrow> (\<forall>i. t_workers s i \<noteq> Free \<longrightarrow> t_workers s' i = t_workers s i) \<and>
     (\<forall>i n m. t_posts s i = Parsed n \<longrightarrow> t_posts s' i \<noteq> Stored m)"

text \<open>The notification that a provider has accepted in a step of worker \<open>i\<close>.\<close>

definition accepted_by :: "nat \<Rightarrow> handler_pc \<Rightarrow> tsys \<Rightarrow> string list" where
  "accepted_by i pc s' = (case (pc, t_workers s' i) of
     (Sending nid a p n, Busy ch body tag (Reporting nid' a' p' n' (Inr result))) \<Rightarrow> [nid]
   | _ \<Rightarrow> [])"

text \<open>The runs without such incidents, with the log of what the providers have accepted.\<close>

inductive orderly_step :: "'j deployment \<Rightarrow> string list \<times> tsys \<Rightarrow> string list \<times> tsys \<Rightarrow> bool" for D where
  acts: "worker_acts UNIV D i pc s s' \<Longrightarrow> orderly_step D (L, s) (accepted_by i pc s' @ L, s')"
| other: "tsys_step D s s' \<Longrightarrow> undisturbed s s' \<Longrightarrow> orderly_step D (L, s) (L, s')"

section \<open>Who is responsible for a notification\<close>

text \<open>A handler is until it has settled it (\<open>active\<close>), or an exception has left it.\<close>

fun bears :: "handler_pc \<Rightarrow> bool" where
  "bears (Threw ex) = False"
| "bears pc = active pc"

definition queue_tokens :: "'j deployment \<Rightarrow> string \<Rightarrow> string list \<Rightarrow> nat" where
  "queue_tokens D x bodies = length (filter (\<lambda>body. mentions D body x) bodies)"

fun worker_token :: "'j deployment \<Rightarrow> string \<Rightarrow> worker_slot \<Rightarrow> nat" where
  "worker_token D x Free = 0"
| "worker_token D x (Busy ch body tag pc) = (if bears pc \<and> mentions D body x then 1 else 0)"

fun post_token :: "string \<Rightarrow> post_slot \<Rightarrow> nat" where
  "post_token x (Stored m) = (if n_id m = x then 1 else 0)"
| "post_token x _ = 0"

definition queues_tokens :: "'j deployment \<Rightarrow> string \<Rightarrow> (string \<Rightarrow> string list) \<Rightarrow> nat" where
  "queues_tokens D x Q = (\<Sum>q\<in>set (live_queues D). queue_tokens D x (Q q))"

definition workers_tokens :: "'j deployment \<Rightarrow> string \<Rightarrow> (nat \<Rightarrow> worker_slot) \<Rightarrow> nat" where
  "workers_tokens D x W = (\<Sum>i | W i \<noteq> Free. worker_token D x (W i))"

definition posts_tokens :: "string \<Rightarrow> (nat \<Rightarrow> post_slot) \<Rightarrow> nat" where
  "posts_tokens x P = (\<Sum>i | P i \<noteq> NoPost. post_token x (P i))"

definition tokens :: "'j deployment \<Rightarrow> string \<Rightarrow> tsys \<Rightarrow> nat" where
  "tokens D x s = queues_tokens D x (t_queues s) + workers_tokens D x (t_workers s) + posts_tokens x (t_posts s)"

lemma mentions_unique: "mentions D body x \<Longrightarrow> mentions D body y \<Longrightarrow> x = y"
  by (auto simp: mentions_def)

lemma queues_tokens_upd:
  assumes "live D ch q"
  shows "queues_tokens D x (Q(q := bodies)) + queue_tokens D x (Q q) = queues_tokens D x Q + queue_tokens D x bodies"
  unfolding queues_tokens_def by (rule sum_upd) (use assms live_queues_iff in \<open>simp, blast\<close>)

lemma queues_tokens_put:
  "live D ch q \<Longrightarrow> queues_tokens D x (put body q Q) = queues_tokens D x Q + (if mentions D body x then 1 else 0)"
  using queues_tokens_upd [of D ch q x Q "Q q @ [body]"] by (simp add: put_def queue_tokens_def)

lemma queues_tokens_take:
  "live D ch q \<Longrightarrow> Q q = xs @ body # ys \<Longrightarrow>
   queues_tokens D x (Q(q := xs @ ys)) + (if mentions D body x then 1 else 0) = queues_tokens D x Q"
  using queues_tokens_upd [of D ch q x Q "xs @ ys"] by (auto simp: queue_tokens_def split: if_splits)

lemma queues_tokens_dlq: "queues_tokens D x (put body (dlq ch) Q) = queues_tokens D x Q"
  unfolding queues_tokens_def put_def by (rule sum.cong) (auto simp: live_queues_iff)

lemma workers_tokens_upd:
  "few_threads s \<Longrightarrow> workers_tokens D x ((t_workers s)(i := w)) + worker_token D x (t_workers s i) =
     workers_tokens D x (t_workers s) + worker_token D x w"
  unfolding workers_tokens_def by (rule sum_support_upd) (simp_all add: few_threads_def)

lemma posts_tokens_upd:
  "few_threads s \<Longrightarrow> posts_tokens x ((t_posts s)(i := p)) + post_token x (t_posts s i) =
     posts_tokens x (t_posts s) + post_token x p"
  unfolding posts_tokens_def by (rule sum_support_upd) (simp_all add: few_threads_def)

text \<open>The responsible ones are what the sums count.\<close>

lemma worker_token_le:
  assumes "few_threads s" "t_workers s i \<noteq> Free"
  shows "worker_token D x (t_workers s i) \<le> workers_tokens D x (t_workers s)"
  unfolding workers_tokens_def
  by (rule member_le_sum [of i "{i. t_workers s i \<noteq> Free}"]) (use assms in \<open>simp_all add: few_threads_def\<close>)

lemma post_token_le:
  assumes "few_threads s" "t_posts s i = Stored m"
  shows "post_token x (Stored m) \<le> posts_tokens x (t_posts s)"
  unfolding posts_tokens_def
  using member_le_sum [of i "{i. t_posts s i \<noteq> NoPost}" "\<lambda>i. post_token x (t_posts s i)"] assms
  by (simp add: few_threads_def)

lemma queue_token_le:
  assumes "live D ch q" "body \<in> set (Q q)" "mentions D body x"
  shows "1 \<le> queues_tokens D x Q"
proof -
  have "queue_tokens D x (Q q) \<noteq> 0" using assms(2,3) by (auto simp: queue_tokens_def filter_empty_conv)
  moreover have "queue_tokens D x (Q q) \<le> queues_tokens D x Q"
    unfolding queues_tokens_def
    by (rule member_le_sum [where f = "\<lambda>q. queue_tokens D x (Q q)"]) (use assms(1) live_queues_iff in auto)
  ultimately show ?thesis by simp
qed

text \<open>Only for stored notifications is anybody responsible.\<close>

lemma no_row_no_tokens:
  assumes core: "core_inv D s" and new: "\<And>row. row \<in> set (notifications (t_db s)) \<Longrightarrow> r_id row \<noteq> x"
  shows "tokens D x s = 0"
proof -
  note I = core_invD [OF core]
  have good: "\<not> good_msg D (t_db s) ch body" if "mentions D body x" for ch body
    using that new by (auto simp: good_msg_def mentions_def)
  have "queue_tokens D x (t_queues s q) = 0" if "q \<in> set (live_queues D)" for q
    using that queues_goodD [OF I(3)] good unfolding queue_tokens_def live_queues_iff
    by (metis (mono_tags, lifting) filter_False list.size(3))
  moreover have "worker_token D x (t_workers s i) = 0" for i
    using workers_okD [OF I(4), of i] good by (cases "t_workers s i") auto
  moreover have "post_token x (t_posts s i) = 0" for i
    using I(5) new by (cases "t_posts s i") (auto simp: posts_ok_def)
  ultimately show ?thesis by (simp add: tokens_def queues_tokens_def workers_tokens_def posts_tokens_def)
qed

section \<open>What one step of a handler does to its responsibility\<close>

text \<open>A handler settles its notification by one operation.\<close>

fun single :: "handler_pc \<Rightarrow> bool" where
  "single (Todo ops) = (length (filter settling ops) \<le> 1)"
| "single _ = True"

text \<open>The provider has accepted the notification, and the handler has not yet marked it.\<close>

fun accepted :: "handler_pc \<Rightarrow> bool" where
  "accepted (Reporting nid a p n outcome) = (\<exists>result. outcome = Inr result)"
| "accepted (Todo ops) = (\<exists>nid. MarkSent nid \<in> set ops)"
| "accepted _ = False"

lemma ops_settle [simp]:
  "length (filter settling (success_ops ch nid a result)) = 1" "length (filter settling (failure_ops ch config nid a p body ex)) = 1"
  by (simp_all add: success_ops_def failure_ops_def Let_def)

lemma ops_accepted [simp]:
  "accepted (Todo (success_ops ch nid a result))" "\<not> accepted (Todo (failure_ops ch config nid a p body ex))"
  by (auto simp: success_ops_def failure_ops_def Let_def)

lemma settled_rest:
  assumes "single (Todo (op # rest))" "settling op"
  shows "\<not> bears (Todo rest)" "\<not> accepted (Todo rest)" "accepted (Todo (op # rest)) \<longleftrightarrow> (\<exists>nid. op = MarkSent nid)"
proof -
  have "filter settling rest = []" using assms by simp
  then have none: "settling q \<Longrightarrow> q \<notin> set rest" for q by (auto simp: filter_empty_conv)
  then show "\<not> bears (Todo rest)" by (auto simp: list_ex_iff)
  show "\<not> accepted (Todo rest)" using none [of "MarkSent _"] by auto
  then show "accepted (Todo (op # rest)) \<longleftrightarrow> (\<exists>nid. op = MarkSent nid)" by auto
qed

lemma unsettled_rest:
  "\<not> settling op \<Longrightarrow> bears (Todo (op # rest)) = bears (Todo rest) \<and> accepted (Todo (op # rest)) = accepted (Todo rest)"
  by (cases op) auto

lemma bears_step:
  assumes h: "handler_step V ch config body tag pc w = (pc', w')" and one: "single pc"
  shows "single pc'" "bears pc' \<Longrightarrow> bears pc"
    and "bears pc' \<Longrightarrow> accepted pc' \<longleftrightarrow> accepted pc \<or> (\<exists>nid a p n result. pc = Sending nid a p n \<and> pc' = Reporting nid a p n (Inr result))"
proof -
  have "single pc' \<and> (bears pc' \<longrightarrow> bears pc \<and>
      (accepted pc' \<longleftrightarrow> accepted pc \<or> (\<exists>nid a p n result. pc = Sending nid a p n \<and> pc' = Reporting nid a p n (Inr result))))"
  proof (cases pc)
    case (Reporting nid a p n outcome)
    obtain r' where r: "router_report (we_t2 V) n outcome (w_router w) = (outcome, r')"
      using router_report_outcome by (metis eq_fst_iff)
    show ?thesis
      using h r Reporting by (cases outcome) (auto simp: on_router_def zoomA_def split: prod.splits if_splits simp del: accepted.simps(2))
  next
    case (Todo ops)
    show ?thesis
    proof (cases ops)
      case (Cons op rest)
      obtain r w1 where o: "op_act V ch tag op w = (r, w1)" by (cases "op_act V ch tag op w")
      then have pc': "pc' = Todo rest \<or> (\<exists>ex. pc' = Threw ex)" using h Todo Cons by (auto split: sum.splits)
      have "single (Todo rest)" using one Todo Cons by (auto split: if_splits)
      then show ?thesis
        using pc' one settled_rest [of op rest] unsettled_rest [of op rest] unfolding Todo Cons
        by (cases "settling op") (auto simp del: accepted.simps(2))
    qed (use h Todo one in auto)
  qed (use h in \<open>auto simp del: accepted.simps(2) split: prod.splits sum.splits option.splits if_splits\<close>)
  then show "single pc'" "bears pc' \<Longrightarrow> bears pc"
    "bears pc' \<Longrightarrow> accepted pc' \<longleftrightarrow> accepted pc \<or> (\<exists>nid a p n result. pc = Sending nid a p n \<and> pc' = Reporting nid a p n (Inr result))"
    by blast+
qed

text \<open>When it publishes a retry, the retry takes over.\<close>

lemma retry_takes_over:
  assumes "handler_step V ch config body tag pc w = (pc', w')" "w_ops w = []" "single pc"
    and "w_ops w' = [Publish '''' (retryQueue ch a) e]"
  shows "bears pc \<and> \<not> bears pc' \<and> \<not> accepted pc \<and> (\<exists>i b p rest. pc = Todo (PublishRetry i b p # rest))"
proof (cases pc)
  case (Todo ops)
  show ?thesis
  proof (cases ops)
    case (Cons op rest)
    obtain r w1 where o: "op_act V ch tag op w = (r, w1)" by (cases "op_act V ch tag op w")
    then have w': "w' = w1" "pc' = Todo rest \<or> (\<exists>ex. pc' = Threw ex)" using assms(1) Todo Cons by (auto split: sum.splits)
    obtain i b p where op: "op = PublishRetry i b p"
      using o assms(2,4) w'(1) by (cases op) (auto simp: op_act_def emit_eq dest!: on_dbE)
    then show ?thesis
      using w'(2) settled_rest [of op rest] assms(3) unfolding Todo Cons by (auto simp del: accepted.simps(2))
  qed (use assms Todo in simp)
qed (use assms in \<open>auto simp: on_router_def zoomA_def dest!: on_dbE split: prod.splits sum.splits option.splits if_splits\<close>)

text \<open>A row changes its status only by the machine's own operations.\<close>

definition moved ::
  "db_env \<Rightarrow> handler_pc \<Rightarrow> handler_pc \<Rightarrow> notification_row \<Rightarrow> notification_row \<Rightarrow> bool" where
  "moved E pc pc' row row' \<longleftrightarrow> r_id row' = r_id row \<and>
     (r_status row' = r_status row \<or>
      r_status row' = ''PROCESSING'' \<and> (\<exists>i a p n. pc = Claim i a p n \<and> same_key E (r_id row) i) \<or>
      r_status row' = ''SENT'' \<and> (\<exists>i rest. pc = Todo (MarkSent i # rest) \<and> pc' = Todo rest \<and> same_key E (r_id row) i) \<or>
      r_status row' = ''DEAD_LETTERED'' \<and>
        (\<exists>i rest. pc = Todo (MarkDeadLettered i # rest) \<and> pc' = Todo rest \<and> same_key E (r_id row) i))"

lemma moved_same: "list_all2 (moved E pc pc') rs rs"
  by (simp add: list_all2_refl moved_def)

lemma moved_rewrite:
  assumes "\<And>r. moved E pc pc' r (f r) \<or> \<not> same_key E (r_id r) i"
  shows "list_all2 (moved E pc pc') (notifications d) (notifications (rewrite_rows E f i (pop_fault d)))"
  using assms by (auto simp: rewrite_rows_def list_all2_map2 moved_def intro!: list.rel_refl_strong)

lemma moved_update:
  assumes "row_update E upd f" "upd i d = (r, d')" "\<And>q. r = Inr () \<Longrightarrow> same_key E (r_id q) i \<Longrightarrow> moved E pc pc' q (f q)"
  shows "list_all2 (moved E pc pc') (notifications d) (notifications d')"
proof -
  consider "d' = pop_fault d" | "r = Inr ()" "d' = rewrite_rows E f i (pop_fault d)"
    using row_update.upd_outcome [OF assms(1), of i d] assms(2) by auto
  then show ?thesis
  proof cases
    case 1
    then show ?thesis by (simp add: moved_same)
  next
    case 2
    then show ?thesis using moved_rewrite [of E pc pc' f i d] assms(3) by blast
  qed
qed

lemma moved_step:
  assumes "handler_step V ch config body tag pc w = (pc', w')"
  shows "list_all2 (moved (we_db V) pc pc') (notifications (w_db w)) (notifications (w_db w'))"
proof (cases "needs_session pc")
  case False
  then show ?thesis using handler_quiet [OF assms] by (simp add: moved_same)
next
  case True
  then consider i a p where "pc = Lookup i a p" | i a p n where "pc = Claim i a p n"
    | op rest where "pc = Todo (op # rest)" "op_needs_session op"
    by (cases pc rule: needs_session.cases) auto
  then show ?thesis
  proof cases
    case (1 i a p)
    obtain r w1 where f: "on_db (findById (we_db V) i) w = (r, w1)" by (cases "on_db (findById (we_db V) i) w")
    then have "w_db w1 = pop_fault (w_db w)" using on_dbE [OF f] findById_state [of "we_db V" i "w_db w"] by simp
    moreover have "w' = w1" using assms f 1 by (auto split: sum.splits option.splits if_splits)
    ultimately show ?thesis by (simp add: moved_same)
  next
    case (2 i a p n)
    obtain r w1 where f: "on_db (markProcessing (we_db V) i) w = (r, w1)" by (cases "on_db (markProcessing (we_db V) i) w")
    then have "w' = w1" using assms 2 by (auto split: sum.splits)
    then show ?thesis
      using on_dbE [OF f] by (intro moved_update [OF mp.row_update_axioms]) (auto simp: 2 moved_def set_status_def)
  next
    case (3 op rest)
    obtain r w1 where o: "op_act V ch tag op w = (r, w1)" by (cases "op_act V ch tag op w")
    have w': "w' = w1" and pc': "r = Inr () \<Longrightarrow> pc' = Todo rest" using assms 3(1) o by (auto split: sum.splits)
    show ?thesis
    proof (cases op)
      case (Record att)
      then show ?thesis using o by (auto simp: op_act_def w' moved_same dest!: on_dbE record_frame)
    next
      case (MarkSent i)
      then have "markSent (we_db V) i (w_db w) = (r, w_db w')" using o by (auto simp: op_act_def w' dest: on_dbE)
      then show ?thesis
        by (rule moved_update [OF ms.row_update_axioms]) (use pc' in \<open>auto simp: 3(1) MarkSent moved_def set_status_def\<close>)
    next
      case (Increment i)
      then have "incrementAttemptCount (we_db V) i (w_db w) = (r, w_db w')" using o by (auto simp: op_act_def w' dest: on_dbE)
      then show ?thesis by (rule moved_update [OF ic.row_update_axioms]) (auto simp: moved_def bump_count_def)
    next
      case (MarkDeadLettered i)
      then have "markDeadLettered (we_db V) i (w_db w) = (r, w_db w')" using o by (auto simp: op_act_def w' dest: on_dbE)
      then show ?thesis
        by (rule moved_update [OF md.row_update_axioms]) (use pc' in \<open>auto simp: 3(1) MarkDeadLettered moved_def set_status_def\<close>)
    qed (use 3(2) in simp_all)
  qed
qed

section \<open>The invariant\<close>

definition handler_ok :: "'j deployment \<Rightarrow> string list \<Rightarrow> worker_slot \<Rightarrow> bool" where
  "handler_ok D L w \<longleftrightarrow> (\<forall>ch body tag pc. w = Busy ch body tag pc \<longrightarrow> single pc \<and>
     (\<forall>x. mentions D body x \<longrightarrow> bears pc \<longrightarrow> (accepted pc \<longleftrightarrow> x \<in> set L)))"

definition row_once :: "'j deployment \<Rightarrow> string list \<Rightarrow> tsys \<Rightarrow> notification_row \<Rightarrow> bool" where
  "row_once D L s row \<longleftrightarrow>
     (r_status row = ''SENT'' \<longrightarrow> r_id row \<in> set L \<and> tokens D (r_id row) s = 0) \<and>
     (r_status row = ''DEAD_LETTERED'' \<longrightarrow> r_id row \<notin> set L \<and> tokens D (r_id row) s = 0)"

definition once_inv :: "'j deployment \<Rightarrow> string list \<Rightarrow> tsys \<Rightarrow> bool" where
  "once_inv D L s \<longleftrightarrow> distinct L \<and> (\<forall>x. tokens D x s \<le> 1) \<and>
     (\<forall>x\<in>set L. x \<in> r_id ` set (notifications (t_db s)) \<and>
        queues_tokens D x (t_queues s) = 0 \<and> posts_tokens x (t_posts s) = 0) \<and>
     (\<forall>i. handler_ok D L (t_workers s i)) \<and> (\<forall>row\<in>set (notifications (t_db s)). row_once D L s row)"

lemma once_invD:
  assumes "once_inv D L s"
  shows "distinct L" "tokens D x s \<le> 1"
    and "x \<in> set L \<Longrightarrow> x \<in> r_id ` set (notifications (t_db s)) \<and>
      queues_tokens D x (t_queues s) = 0 \<and> posts_tokens x (t_posts s) = 0"
    and "t_workers s i = Busy ch body tag pc \<Longrightarrow> single pc"
    and "t_workers s i = Busy ch body tag pc \<Longrightarrow> mentions D body x \<Longrightarrow> bears pc \<Longrightarrow> accepted pc \<longleftrightarrow> x \<in> set L"
    and "row \<in> set (notifications (t_db s)) \<Longrightarrow> row_once D L s row"
  using assms by (simp_all add: once_inv_def handler_ok_def)

lemma once_invI:
  assumes "distinct L" "\<And>x. tokens D x s \<le> 1"
    and "\<And>x. x \<in> set L \<Longrightarrow> x \<in> r_id ` set (notifications (t_db s)) \<and>
      queues_tokens D x (t_queues s) = 0 \<and> posts_tokens x (t_posts s) = 0"
    and "\<And>i. handler_ok D L (t_workers s i)"
    and "\<And>row. row \<in> set (notifications (t_db s)) \<Longrightarrow> row_once D L s row"
  shows "once_inv D L s"
  using assms by (simp add: once_inv_def)

lemma once_init: "once_inv D [] (tsys_init D)"
  by (simp add: once_inv_def tokens_def queues_tokens_def workers_tokens_def posts_tokens_def queue_tokens_def
      handler_ok_def tsys_init_def db_empty_def)

lemma row_once_less: "row_once D L s row \<Longrightarrow> tokens D (r_id row) s' \<le> tokens D (r_id row) s \<Longrightarrow> row_once D L s' row"
  by (auto simp: row_once_def)

text \<open>A step that only passes responsibility on, and leaves the rows alone.\<close>

lemma once_passes:
  assumes inv: "once_inv D L s"
    and q: "\<And>x. queues_tokens D x (t_queues s') + posts_tokens x (t_posts s') \<le>
      queues_tokens D x (t_queues s) + posts_tokens x (t_posts s)"
    and w: "t_workers s' = t_workers s" and rows: "notifications (t_db s') = notifications (t_db s)"
  shows "once_inv D L s'"
proof -
  have t: "tokens D x s' \<le> tokens D x s" for x using q [of x] by (simp add: tokens_def w)
  have "row_once D L s' row" if "row \<in> set (notifications (t_db s))" for row
    by (rule row_once_less [OF once_invD(6) [OF inv that] t])
  moreover have "tokens D x s' \<le> 1" for x using t [of x] once_invD(2) [OF inv, of x] by linarith
  moreover have "queues_tokens D x (t_queues s') = 0 \<and> posts_tokens x (t_posts s') = 0" if "x \<in> set L" for x
    using q [of x] once_invD(3) [OF inv that] by simp
  ultimately show ?thesis
    using inv by (intro once_invI) (simp_all add: rows w once_inv_def)
qed

text \<open>A step of a handler.\<close>

lemma work_queues:
  assumes dep: "deployable D" and good: "good_msg D (t_db s) ch body" and V: "we_db V = dp_db D" "we_json V = dp_json D"
    and ok: "pc_ok (we_json V) (dp_config D) K body pc" and one: "single pc"
    and h: "handler_step V ch (dp_config D) body tag pc \<lparr>w_db = t_db s, w_router = t_router s, w_ops = []\<rparr> = (pc', w')"
    and Q': "Q' = broker_ops (routes D) (w_ops w') (t_queues s)"
  shows "queues_tokens D x Q' = queues_tokens D x (t_queues s) \<or>
    bears pc \<and> \<not> bears pc' \<and> \<not> accepted pc \<and> (\<exists>i b p rest. pc = Todo (PublishRetry i b p # rest)) \<and>
    queues_tokens D x Q' = queues_tokens D x (t_queues s) + (if mentions D body x then 1 else 0)"
proof -
  have b: "broker_laws (dp_route D)" using dep by (simp add: deployable_def)
  consider "w_ops w' = [Ack tag]" | "w_ops w' = []" | "w_ops w' = [Publish [] (dlq ch) (dlq_message body)]"
    | nid a p op where "decode (dp_json D) body = Inr (nid, a, p)" "w_ops w' = [op]"
        "is_retry (dp_json D) ch (dp_config D) nid a p op"
    using handler_step_emits [OF h ok] V by (auto simp: outgoing_def)
  then show ?thesis
  proof cases
    case 3
    then show ?thesis using route_queue(1) [OF b] by (simp add: Q' dlq_message_def queues_tokens_dlq)
  next
    case (4 nid a p op)
    then have "1 \<le> a" using good by (auto simp: good_msg_def)
    then obtain payload where pay: "op = Publish [] (retryQueue ch a) (message payload p)"
      "decode (dp_json D) payload = Inr (nid, a + 1, p)" "live D ch (retryQueue ch a)"
      "broker_op (routes D) op (t_queues s) = put payload (retryQueue ch a) (t_queues s)"
      using retry_decodes [OF dep 4(3)] by blast
    have "mentions D payload x = mentions D body x" using pay(2) 4(1) by (auto simp: mentions_def)
    then have "queues_tokens D x Q' = queues_tokens D x (t_queues s) + (if mentions D body x then 1 else 0)"
      using queues_tokens_put [OF pay(3)] pay(4) by (simp add: Q' 4(2))
    moreover note retry_takes_over [OF h _ one, of a "message payload p"]
    ultimately show ?thesis using 4(2) pay(1) by simp
  qed (simp_all add: Q')
qed

lemma accepted_by_cases:
  assumes "t_workers s' i = Free \<or> t_workers s' i = Busy ch body tag pc'"
  obtains "accepted_by i pc s' = []" "\<And>nid a p n result. pc = Sending nid a p n \<Longrightarrow> t_workers s' i = Busy ch body tag pc' \<Longrightarrow>
      pc' \<noteq> Reporting nid a p n (Inr result)"
  | nid a p n nid' a' p' n' result where "accepted_by i pc s' = [nid]" "pc = Sending nid a p n"
      "pc' = Reporting nid' a' p' n' (Inr result)" "t_workers s' i = Busy ch body tag pc'"
proof (cases "\<exists>nid a p n nid' a' p' n' result. pc = Sending nid a p n \<and> pc' = Reporting nid' a' p' n' (Inr result) \<and>
    t_workers s' i = Busy ch body tag pc'")
  case True
  then show ?thesis using that(2) by (auto simp: accepted_by_def)
next
  case False
  then have "accepted_by i pc s' = []"
    using assms by (auto simp: accepted_by_def split: handler_pc.splits sum.splits worker_slot.splits)
  then show ?thesis using that(1) False by blast
qed

lemma once_acts:
  assumes dep: "deployable D" and core: "core_inv D s" and few: "few_threads s" and inv: "once_inv D L s"
    and step: "worker_acts UNIV D i pc s s'"
  shows "once_inv D (accepted_by i pc s' @ L) s'"
  using step
proof cases
  case (acts ch body tag V pc' w')
  let ?L = "accepted_by i pc s' @ L"
  note I = core_invD [OF core]
  have good: "good_msg D (t_db s) ch body"
    and ok: "pc_ok (we_json V) (dp_config D) (body \<in> set (t_queues s (dlq ch))) body pc"
    using workers_okD [OF I(4) acts(2)] acts(5) by simp_all
  obtain y a0 p0 row0 where dec: "decode (dp_json D) body = Inr (y, a0, p0)"
    and row0: "row0 \<in> set (notifications (t_db s))" "r_id row0 = y"
    using good by (auto simp: good_msg_def)
  have m: "mentions D body x \<longleftrightarrow> x = y" for x using dec by (auto simp: mentions_def)
  have one: "single pc" by (rule once_invD(4) [OF inv acts(2)])
  note h = acts(7) and bears = bears_step [OF acts(7) one]
  have holds: "bears pc \<Longrightarrow> accepted pc \<longleftrightarrow> y \<in> set L" using once_invD(5) [OF inv acts(2)] m by simp
  let ?w = "t_workers s' i"
  have W: "t_workers s' = (t_workers s)(i := ?w)" "t_posts s' = t_posts s" "t_db s' = w_db w'"
    and Q: "t_queues s' = broker_ops (routes D) (w_ops w') (t_queues s)"
    and w: "?w = Free \<or> ?w = Busy ch body tag pc'"
    by (simp_all add: acts(1))
  have queues: "queues_tokens D x (t_queues s') = queues_tokens D x (t_queues s) \<or>
      bears pc \<and> \<not> bears pc' \<and> \<not> accepted pc \<and> (\<exists>i b p rest. pc = Todo (PublishRetry i b p # rest)) \<and>
      queues_tokens D x (t_queues s') = queues_tokens D x (t_queues s) + (if x = y then 1 else 0)" for x
    using work_queues [OF dep good acts(4,5) ok one h Q] m by simp
  have old: "worker_token D x (t_workers s i) = (if bears pc \<and> x = y then 1 else 0)" for x by (simp add: acts(2) m)
  have new: "worker_token D x ?w \<le> (if bears pc' \<and> x = y then 1 else 0)" for x
    by (rule disjE [OF w]) (simp_all add: m)
  have workers: "workers_tokens D x (t_workers s') + worker_token D x (t_workers s i) =
      workers_tokens D x (t_workers s) + worker_token D x ?w" for x
    using workers_tokens_upd [OF few, of D x i ?w] by (simp only: W(1) [symmetric])
  have less: "tokens D x s' \<le> tokens D x s" for x
    using queues [of x] workers [of x] old [of x] new [of x] bears(2) by (auto simp: tokens_def W(2) split: if_splits)
  have gone: "tokens D y s' = 0" if "bears pc" "\<not> bears pc'" "\<not> (\<exists>i b p rest. pc = Todo (PublishRetry i b p # rest))"
    using queues [of y] workers [of y] old [of y] new [of y] that once_invD(2) [OF inv, of y] by (auto simp: tokens_def W(2))
  have bearing: "bears pc \<Longrightarrow> tokens D y s = 1"
    using worker_token_le [OF few, of i D y] once_invD(2) [OF inv, of y] old [of y] acts(2) by (simp add: tokens_def)
  have others: "\<not> (bears q \<and> mentions D b y)" if "bears pc" "j \<noteq> i" "t_workers s j = Busy c b t q" for j c b t q
  proof
    assume q: "bears q \<and> mentions D b y"
    have "workers_tokens D y ((t_workers s)(i := Free)) + 1 = workers_tokens D y (t_workers s)"
      using workers_tokens_upd [OF few, of D y i Free] old [of y] that(1) by simp
    moreover have "few_threads (s\<lparr>t_workers := (t_workers s)(i := Free)\<rparr>)"
      using few finite_support_upd [of "t_workers s" Free i Free] by (simp add: few_threads_def del: fun_upd_apply)
    from worker_token_le [OF this, of j D y] have "1 \<le> workers_tokens D y ((t_workers s)(i := Free))"
      using that(2,3) q by simp
    ultimately show False using once_invD(2) [OF inv, of y] by (simp add: tokens_def)
  qed
  have log: "?L = L \<and> (bears pc' \<longrightarrow> ?w = Busy ch body tag pc' \<longrightarrow> (accepted pc' \<longleftrightarrow> accepted pc)) \<or>
      ?L = y # L \<and> bears pc \<and> \<not> accepted pc \<and> accepted pc' \<and> ?w = Busy ch body tag pc' \<and> (\<exists>nid a p n. pc = Sending nid a p n)"
    using w
  proof (cases rule: accepted_by_cases [where pc = pc])
    case 1
    have "bears pc' \<Longrightarrow> ?w = Busy ch body tag pc' \<Longrightarrow> accepted pc' \<longleftrightarrow> accepted pc" using bears(3) 1(2) by blast
    then show ?thesis using 1(1) by simp
  next
    case (2 nid a p n nid' a' p' n' result)
    moreover have "nid = y" using ok dec acts(5) 2(2) by (simp add: pc_ok_def)
    ultimately show ?thesis by simp
  qed
  have stored: "r_id row \<in> r_id ` set (notifications (t_db s'))" if row: "row \<in> set (notifications (t_db s))" for row
  proof -
    obtain row' where "row' \<in> set (notifications (w_db w'))" "moved (we_db V) pc pc' row row'"
      using list_all2_left [OF moved_step [OF h], of row] row by auto
    then show ?thesis unfolding W(3) moved_def by (intro image_eqI [of _ _ row']) simp_all
  qed
  show ?thesis
  proof (rule once_invI)
    show "distinct ?L" using log once_invD(1) [OF inv] holds by auto
    show "tokens D x s' \<le> 1" for x using less [of x] once_invD(2) [OF inv, of x] by linarith
    show "x \<in> r_id ` set (notifications (t_db s')) \<and> queues_tokens D x (t_queues s') = 0 \<and> posts_tokens x (t_posts s') = 0"
      if "x \<in> set ?L" for x
    proof (cases "x \<in> set L")
      case True
      then obtain row where "row \<in> set (notifications (t_db s))" "x = r_id row" using once_invD(3) [OF inv True] by blast
      with stored [OF this(1)] have "x \<in> r_id ` set (notifications (t_db s'))" by simp
      moreover have "queues_tokens D x (t_queues s') = queues_tokens D x (t_queues s)"
        using queues [of x] True holds by (auto split: if_splits)
      ultimately show ?thesis using once_invD(3) [OF inv True] W(2) by simp
    next
      case False
      then have x: "x = y" "bears pc" "\<exists>nid a p n. pc = Sending nid a p n" using that log by auto
      then have "queues_tokens D y (t_queues s') = queues_tokens D y (t_queues s)" using queues [of y] by auto
      moreover have "1 \<le> workers_tokens D y (t_workers s)"
        using worker_token_le [OF few, of i D y] old [of y] x(2) acts(2) by simp
      then have "queues_tokens D y (t_queues s) = 0 \<and> posts_tokens y (t_posts s) = 0"
        using bearing [OF x(2)] by (simp add: tokens_def)
      moreover have "y \<in> r_id ` set (notifications (t_db s'))" using stored [OF row0(1)] row0(2) by simp
      ultimately show ?thesis by (simp add: x(1) W(2))
    qed
    show "handler_ok D ?L (t_workers s' j)" for j
    proof (cases "j = i")
      case True
      have y: "accepted pc' \<longleftrightarrow> y \<in> set ?L" if b: "bears pc'" and busy: "?w = Busy ch body tag pc'"
        using log
      proof
        assume "?L = L \<and> (bears pc' \<longrightarrow> ?w = Busy ch body tag pc' \<longrightarrow> (accepted pc' \<longleftrightarrow> accepted pc))"
        then show ?thesis using holds [OF bears(2) [OF b]] b busy by metis
      qed simp
      show ?thesis
        unfolding True handler_ok_def
      proof (intro allI impI conjI)
        fix c b t q assume q: "?w = Busy c b t q"
        then have b: "b = body" "q = pc'" "?w = Busy ch body tag pc'" using w by simp_all
        show "single q" unfolding b(2) by (rule bears(1))
        fix x assume "mentions D b x" "bears q"
        then show "accepted q \<longleftrightarrow> x \<in> set ?L" using y [OF _ b(3)] m [of x] unfolding b(1,2) by simp
      qed
    next
      case False
      have j: "t_workers s' j = t_workers s j" using fun_cong [OF W(1), of j] False by simp
      show ?thesis
        unfolding handler_ok_def j
      proof (intro allI impI conjI)
        fix c b t q assume q: "t_workers s j = Busy c b t q"
        show "single q" by (rule once_invD(4) [OF inv q])
        fix x assume x: "mentions D b x" "bears q"
        have "x \<in> set ?L \<longleftrightarrow> x \<in> set L" using log others [OF _ False q] x by auto
        then show "accepted q \<longleftrightarrow> x \<in> set ?L" using once_invD(5) [OF inv q x] by simp
      qed
    qed
    fix row' assume row': "row' \<in> set (notifications (t_db s'))"
    then obtain row where row: "row \<in> set (notifications (t_db s))" "moved (dp_db D) pc pc' row row'"
      using list_all2_right [OF moved_step [OF h], of row'] by (auto simp: W(3) acts(4))
    then have id: "r_id row' = r_id row" by (simp add: moved_def)
    have mine: "r_id row = y" if "same_key (dp_db D) (r_id row) y"
      using key_inv_unique [OF I(2) row(1) row0(1)] that row0(2) by simp
    have settled: "row_once D ?L s' row'" if t: "pc = Todo (op # rest)" "pc' = Todo rest" "settling op"
      "\<forall>nid a p. op \<noteq> PublishRetry nid a p" "r_id row = y"
      "r_status row' = ''SENT'' \<and> (\<exists>nid. op = MarkSent nid) \<or> r_status row' = ''DEAD_LETTERED'' \<and> (\<forall>nid. op \<noteq> MarkSent nid)" for op rest
    proof -
      have p: "bears pc" "\<not> bears pc'" "accepted pc \<longleftrightarrow> (\<exists>nid. op = MarkSent nid)"
        using settled_rest [of op rest] one t(1-3) by auto
      have "tokens D y s' = 0" by (rule gone [OF p(1,2)]) (use t(1,4) in auto)
      moreover have "y \<in> set L \<longleftrightarrow> (\<exists>nid. op = MarkSent nid)" using holds [OF p(1)] p(3) by simp
      moreover have "set ?L = set L" using log t(1) by auto
      ultimately show ?thesis using t(5,6) id by (auto simp: row_once_def)
    qed
    have same: "row_once D ?L s' row'" if "r_status row' = r_status row"
    proof -
      have "row_once D L s row" by (rule once_invD(6) [OF inv row(1)])
      moreover have "r_id row \<in> set ?L \<longleftrightarrow> r_id row \<in> set L" if "tokens D (r_id row) s = 0"
        using log bearing that by (cases "r_id row = y") auto
      ultimately show ?thesis using less [of "r_id row"] that unfolding row_once_def id by (metis le_zero_eq)
    qed
    show "row_once D ?L s' row'"
      using row(2) unfolding moved_def
    proof (elim conjE disjE exE)
      fix j rest assume "r_status row' = ''SENT''" and t: "pc = Todo (MarkSent j # rest)" "pc' = Todo rest"
        and k: "same_key (dp_db D) (r_id row) j"
      have "j = y" using ok dec acts(5) t(1) by (auto simp: pc_ok_def)
      then show ?thesis using settled [OF t] mine k \<open>r_status row' = ''SENT''\<close> by auto
    next
      fix j rest assume "r_status row' = ''DEAD_LETTERED''" and t: "pc = Todo (MarkDeadLettered j # rest)" "pc' = Todo rest"
        and k: "same_key (dp_db D) (r_id row) j"
      have "j = y" using ok dec acts(5) t(1) by (auto simp: pc_ok_def)
      then show ?thesis using settled [OF t] mine k \<open>r_status row' = ''DEAD_LETTERED''\<close> by auto
    qed (use same in \<open>auto simp: row_once_def\<close>)
  qed
qed

text \<open>The other steps.\<close>

lemma idle_step_same:
  assumes "handler_step V ch config body tag pc w = (pc, w')"
  shows "w' = w"
proof -
  have "fuel_left pc = 0" using step_uses_fuel [of V ch config body tag pc w] assms by (cases "fuel_left pc") auto
  then have "pc = Todo [] \<or> (\<exists>ex. pc = Threw ex)" by (cases pc) auto
  then show ?thesis using assms by auto
qed

lemma once_take:
  assumes inv: "once_inv D L s" and few: "few_threads s"
    and q: "t_queues s (mainQueue ch) = xs @ body # ys" and i: "t_workers s i = Free"
  shows "once_inv D L (s\<lparr>t_queues := (t_queues s)(mainQueue ch := xs @ ys),
    t_workers := (t_workers s)(i := Busy ch body tag Begin)\<rparr>)" (is "once_inv D L ?s'")
proof -
  have qs: "queues_tokens D x (t_queues ?s') + (if mentions D body x then 1 else 0) = queues_tokens D x (t_queues s)" for x
    using queues_tokens_take [of D ch "mainQueue ch" "t_queues s", OF _ q] by simp
  moreover have ws: "workers_tokens D x (t_workers ?s') = workers_tokens D x (t_workers s) + (if mentions D body x then 1 else 0)" for x
    using workers_tokens_upd [OF few, of D x i "Busy ch body tag Begin"] i by simp
  ultimately have t: "tokens D x ?s' = tokens D x s" for x unfolding tokens_def by (simp del: fun_upd_apply)
  have new: "x \<notin> set L" if "mentions D body x" for x
  proof
    assume "x \<in> set L"
    then have "queues_tokens D x (t_queues s) = 0" using once_invD(3) [OF inv] by blast
    moreover have "1 \<le> queues_tokens D x (t_queues s)"
      by (rule queue_token_le [of D ch "mainQueue ch" body, OF _ _ that]) (simp_all add: q)
    ultimately show False by simp
  qed
  show ?thesis
  proof (rule once_invI)
    show "distinct L" by (rule once_invD(1) [OF inv])
    show "tokens D x ?s' \<le> 1" for x using once_invD(2) [OF inv] by (simp only: t)
    show "x \<in> r_id ` set (notifications (t_db ?s')) \<and> queues_tokens D x (t_queues ?s') = 0 \<and> posts_tokens x (t_posts ?s') = 0"
      if "x \<in> set L" for x
      using once_invD(3) [OF inv that] qs [of x] by simp
    show "handler_ok D L (t_workers ?s' j)" for j
      using inv new by (auto simp: once_inv_def handler_ok_def)
    show "row_once D L ?s' row" if "row \<in> set (notifications (t_db ?s'))" for row
      using once_invD(6) [OF inv, of row] that t by (simp add: row_once_def)
  qed
qed

lemma once_insert:
  assumes core: "core_inv D s" and inv: "once_inv D L s" and few: "few_threads s" and p: "t_posts s i = Absent n"
    and f: "insertTransaction (dp_db D) u n (t_db s) = (r, d')"
  shows "once_inv D L (s\<lparr>t_db := d', t_posts := (t_posts s)(i :=
      (case r of Inl ex \<Rightarrow> NoPost | Inr m \<Rightarrow> Stored m))\<rparr>)" (is "once_inv D L ?s'")
proof (cases r)
  case (Inl ex)
  then have "notifications d' = notifications (t_db s)"
    using insertTransaction_outcome [OF f] by (auto simp: Let_def same_tables_def)
  moreover have "posts_tokens x ((t_posts s)(i := NoPost)) = posts_tokens x (t_posts s)" for x
    using posts_tokens_upd [OF few, of x i NoPost] p by simp
  ultimately show ?thesis
    by (intro once_passes [OF inv]) (simp_all add: Inl del: fun_upd_apply)
next
  case (Inr m)
  then have rows: "notifications d' = notifications (t_db s) @ [inserted_row m (db_now (t_db s))]"
    and fresh: "row \<in> set (notifications (t_db s)) \<Longrightarrow> \<not> same_key (dp_db D) (r_id row) (n_id m)" for row
    using insertTransaction_outcome [OF f] by (auto simp: Let_def with_inserted_def duplicates_def newRow_def)
  have new: "row \<in> set (notifications (t_db s)) \<Longrightarrow> r_id row \<noteq> n_id m" for row
    using fresh [of row] by (auto simp: same_key_def)
  have pt: "posts_tokens x (t_posts ?s') = posts_tokens x (t_posts s) + (if x = n_id m then 1 else 0)" for x
    using posts_tokens_upd [OF few, of x i "Stored m"] p by (simp add: Inr del: fun_upd_apply)
  then have t: "tokens D x ?s' = tokens D x s + (if x = n_id m then 1 else 0)" for x by (simp add: tokens_def)
  have zero: "tokens D (n_id m) s = 0" by (rule no_row_no_tokens [OF core new])
  have notin: "n_id m \<notin> set L"
  proof
    assume "n_id m \<in> set L"
    then obtain row where "row \<in> set (notifications (t_db s))" "n_id m = r_id row" using once_invD(3) [OF inv] by blast
    then show False using new [of row] by simp
  qed
  show ?thesis
  proof (rule once_invI)
    show "distinct L" by (rule once_invD(1) [OF inv])
    show "tokens D x ?s' \<le> 1" for x using once_invD(2) [OF inv, of x] zero unfolding t by auto
    show "x \<in> r_id ` set (notifications (t_db ?s')) \<and> queues_tokens D x (t_queues ?s') = 0 \<and> posts_tokens x (t_posts ?s') = 0"
      if "x \<in> set L" for x
    proof -
      have "x \<noteq> n_id m" using that notin by auto
      then show ?thesis using once_invD(3) [OF inv that] unfolding pt by (auto simp: rows)
    qed
    show "handler_ok D L (t_workers ?s' j)" for j using inv by (simp add: once_inv_def)
    fix row assume row: "row \<in> set (notifications (t_db ?s'))"
    show "row_once D L ?s' row"
    proof (cases "row \<in> set (notifications (t_db s))")
      case True
      then show ?thesis using once_invD(6) [OF inv True] new [OF True] t [of "r_id row"] by (simp add: row_once_def)
    next
      case False
      then have "r_status row = ''PENDING''" using row by (simp add: rows inserted_row_def newRow_def)
      then show ?thesis by (simp add: row_once_def)
    qed
  qed
qed

lemma once_other:
  assumes dep: "deployable D" and core: "core_inv D s" and few: "few_threads s" and inv: "once_inv D L s"
    and step: "tsys_step D s s'" and calm: "undisturbed s s'"
  shows "once_inv D L s'"
  using step
proof cases
  case (take_message ch xs body ys i tag)
  then show ?thesis using once_take [OF inv few] by simp
next
  case (work i ch body tag pc V pc' w')
  have "t_workers s' i = t_workers s i" using calm work(2) by (simp add: undisturbed_def)
  then have same: "pc' = pc" "Ack tag \<notin> set (w_ops w')" using work(2) by (auto simp: work(1) split: if_splits)
  have "w' = \<lparr>w_db = t_db s, w_router = t_router s, w_ops = []\<rparr>" by (rule idle_step_same) (use work(5) same in simp)
  then have "s' = s" using same work(2) by (simp add: work(1) fun_upd_idem)
  then show ?thesis using inv by simp
next
  case (worker_dies i ch body tag pc)
  have "t_workers s' i = t_workers s i" using calm worker_dies(2) unfolding undisturbed_def by (metis worker_slot.distinct(1))
  then show ?thesis by (simp add: worker_dies(1,2))
next
  case (parse i V content n)
  have "posts_tokens x ((t_posts s)(i := Parsed n)) = posts_tokens x (t_posts s)" for x
    using posts_tokens_upd [OF few, of x i "Parsed n"] parse(2) by simp
  then show ?thesis by (intro once_passes [OF inv]) (simp_all add: parse(1) del: fun_upd_apply)
next
  case (check i n r d')
  let ?x = "case r of Inl ex \<Rightarrow> NoPost | Inr (Some m) \<Rightarrow> Stored m | Inr None \<Rightarrow> Absent n"
  have none: "t_posts s' i \<noteq> Stored m" for m using calm check(2) by (simp add: undisturbed_def)
  have "r \<noteq> Inr (Some m)" for m using none [of m] by (auto simp: check(1))
  then have "post_token x ?x = 0" for x by (auto split: sum.splits option.splits)
  then have "posts_tokens x ((t_posts s)(i := ?x)) = posts_tokens x (t_posts s)" for x
    using posts_tokens_upd [OF few, of x i ?x] check(2) by simp
  moreover have "notifications d' = notifications (t_db s)"
    using findByIdempotencyKey_state [of "dp_db D" "n_idempotencyKey n" "t_db s"] check(3) by simp
  ultimately show ?thesis by (intro once_passes [OF inv]) (simp_all add: check(1) del: fun_upd_apply)
next
  case (insert i n u r d')
  then show ?thesis using once_insert [OF core inv few] by simp
next
  case (publish i m msg)
  have b: "broker_laws (dp_route D)" and laws: "json_laws (dp_json D)" using dep by (simp_all add: deployable_def)
  have "mentions D msg x \<longleftrightarrow> x = n_id m" for x
    using decode_deliveryMessage [OF laws publish(3)] by (auto simp: mentions_def)
  moreover have "t_queues s' = put msg (mainQueue (n_channel m)) (t_queues s)"
    using route_queue(3) [OF b, of "n_channel m"] by (simp add: publish(1) message_def)
  ultimately have "queues_tokens D x (t_queues s') = queues_tokens D x (t_queues s) + (if x = n_id m then 1 else 0)" for x
    using queues_tokens_put [of D "n_channel m" "mainQueue (n_channel m)" x msg "t_queues s"] by simp
  moreover have "posts_tokens x (t_posts s') + (if x = n_id m then 1 else 0) = posts_tokens x (t_posts s)" for x
    using posts_tokens_upd [OF few, of x i NoPost] publish(2) by (auto simp: publish(1) simp del: fun_upd_apply)
  ultimately show ?thesis
    by (intro once_passes [OF inv]) (metis add.assoc add.commute order_refl, simp_all add: publish(1))
next
  case (post_dies i p)
  have "posts_tokens x ((t_posts s)(i := NoPost)) \<le> posts_tokens x (t_posts s)" for x
    using posts_tokens_upd [OF few, of x i NoPost] by simp
  then show ?thesis by (intro once_passes [OF inv]) (simp_all add: post_dies(1) del: fun_upd_apply)
next
  case (expire q xs body ys ttl x k)
  obtain ch a where a: "1 \<le> a" "a \<le> int (length (retryDelaysMs (dp_config D)))" "q = retryQueue ch a"
    and x: "x = exchangeName" "k = routingKey ch"
    using rung_of_target [OF expire(4)] by blast
  have b: "broker_laws (dp_route D)" using dep by (simp add: deployable_def)
  have "t_queues s' = put body (mainQueue ch) ((t_queues s)(q := xs @ ys))"
    using route_queue(3) [OF b, of ch] by (simp add: expire(1) x newEnvelope_def)
  moreover have "live D ch q" using a by simp
  note queues_tokens_take [where Q = "t_queues s", OF this expire(2)]
  ultimately have "queues_tokens D x (t_queues s') = queues_tokens D x (t_queues s)" for x
    using queues_tokens_put [of D ch "mainQueue ch" x body "(t_queues s)(q := xs @ ys)"] by (simp add: expire(1))
  then show ?thesis by (intro once_passes [OF inv]) (simp_all add: expire(1) del: broker_op.simps)
qed (simp_all add: once_passes [OF inv])

section \<open>Every orderly run\<close>

lemma orderly_reach_step: "orderly_step D z z' \<Longrightarrow> tsys_reach D (snd z) \<Longrightarrow> tsys_reach D (snd z')"
  by (erule orderly_step.cases) (auto intro: tsys_reach.step dest!: worker_acts_serve serve_is_step)

lemma once_step:
  assumes "deployable D" "orderly_step D z z'" "tsys_reach D (snd z)" "once_inv D (fst z) (snd z)"
  shows "once_inv D (fst z') (snd z')"
proof -
  have core: "core_inv D (snd z)" using tsys_inv_reach [OF assms(3,1)] by (simp add: tsys_inv_def)
  note few = few_threads_reach [OF assms(3)]
  show ?thesis
    using assms(2)
  proof cases
    case (acts i pc s s' L)
    then show ?thesis using once_acts [OF assms(1), of s L i pc s'] core few assms(4) by simp
  next
    case (other s s' L)
    then show ?thesis using once_other [OF assms(1), of s L s'] core few assms(4) by simp
  qed
qed

lemma once_run:
  assumes "(orderly_step D)\<^sup>*\<^sup>* z z'" "deployable D" "tsys_reach D (snd z)" "once_inv D (fst z) (snd z)"
  shows "tsys_reach D (snd z') \<and> once_inv D (fst z') (snd z')"
  using assms(1,3,4)
proof (induction rule: rtranclp_induct)
  case (step y z')
  then show ?case using once_step [OF assms(2) step.hyps(2)] orderly_reach_step [OF step.hyps(2)] by blast
qed simp

lemma once_reach:
  assumes "(orderly_step D)\<^sup>*\<^sup>* ([], tsys_init D) (L, s)" "deployable D"
  shows "tsys_reach D s" "once_inv D L s"
  using once_run [OF assms(1,2)] tsys_reach.init [of D] once_init [of D] by simp_all

text \<open>What is settled stays settled.\<close>

definition settled_in :: "tsys \<Rightarrow> notification_row \<Rightarrow> bool" where
  "settled_in s row \<longleftrightarrow> (\<exists>row'\<in>set (notifications (t_db s)). r_id row' = r_id row \<and> r_status row' = r_status row)"

lemma settled_acts:
  assumes core: "core_inv D s" and few: "few_threads s" and step: "worker_acts P D i pc s s'"
    and row: "row \<in> set (notifications (t_db s))" "tokens D (r_id row) s = 0"
  shows "settled_in s' row"
  using step
proof cases
  case (acts ch body tag V pc' w')
  note I = core_invD [OF core]
  have good: "good_msg D (t_db s) ch body"
    and ok: "pc_ok (we_json V) (dp_config D) (body \<in> set (t_queues s (dlq ch))) body pc"
    using workers_okD [OF I(4) acts(2)] acts(5) by simp_all
  obtain y a p row0 where dec: "decode (dp_json D) body = Inr (y, a, p)"
    and row0: "row0 \<in> set (notifications (t_db s))" "r_id row0 = y"
    using good by (auto simp: good_msg_def)
  obtain row' where row': "row' \<in> set (notifications (w_db w'))" "moved (dp_db D) pc pc' row row'"
    using list_all2_left [OF moved_step [OF acts(7)], of row] row(1) by (auto simp: acts(4))
  have quiet: "\<not> bears pc" if "r_id row = y"
    using worker_token_le [OF few, of i D y] row(2) that dec acts(2) by (auto simp: tokens_def mentions_def split: if_splits)
  have mine: "r_id row = y" if "same_key (dp_db D) (r_id row) j" "j = y" for j
    using key_inv_unique [OF I(2) row(1) row0(1)] that row0(2) by simp
  have "r_status row' = r_status row"
    using row'(2) unfolding moved_def
  proof (elim conjE disjE exE)
    fix j b q n assume t: "pc = Claim j b q n" "same_key (dp_db D) (r_id row) j"
    then have "j = y" using ok dec acts(5) by (auto simp: pc_ok_def)
    then show ?thesis using quiet mine t by auto
  next
    fix j rest assume t: "pc = Todo (MarkSent j # rest)" "same_key (dp_db D) (r_id row) j"
    then have "j = y" using ok dec acts(5) by (auto simp: pc_ok_def)
    then show ?thesis using quiet mine t by auto
  next
    fix j rest assume t: "pc = Todo (MarkDeadLettered j # rest)" "same_key (dp_db D) (r_id row) j"
    then have "j = y" using ok dec acts(5) by (auto simp: pc_ok_def)
    then show ?thesis using quiet mine t by auto
  qed
  then show ?thesis using row' by (auto simp: settled_in_def moved_def acts(1))
qed

lemma settled_other:
  assumes step: "tsys_step D s s'" "undisturbed s s'" and row: "row \<in> set (notifications (t_db s))"
  shows "settled_in s' row"
  using step(1)
proof cases
  case (work i ch body tag pc V pc' w')
  have "t_workers s' i = t_workers s i" using step(2) work(2) by (simp add: undisturbed_def)
  then have same: "pc' = pc" using work(2) by (auto simp: work(1) split: if_splits)
  have "w' = \<lparr>w_db = t_db s, w_router = t_router s, w_ops = []\<rparr>" by (rule idle_step_same) (use work(5) same in simp)
  then show ?thesis using row by (auto simp: settled_in_def work(1))
next
  case (check i n r d')
  then have "notifications (t_db s') = notifications (t_db s)"
    using findByIdempotencyKey_state [of "dp_db D" "n_idempotencyKey n" "t_db s"] by simp
  then show ?thesis using row by (auto simp: settled_in_def)
next
  case (insert i n u r d')
  then show ?thesis using insertTransaction_outcome [OF insert(4)] row
    by (auto simp: Let_def same_tables_def with_inserted_def settled_in_def)
qed (use row in \<open>auto simp: settled_in_def\<close>)

lemma settled_run:
  assumes "(orderly_step D)\<^sup>*\<^sup>* z z'" "deployable D" "tsys_reach D (snd z)" "once_inv D (fst z) (snd z)"
    and row: "row \<in> set (notifications (t_db (snd z)))" "r_status row \<in> {''SENT'', ''DEAD_LETTERED''}"
  shows "settled_in (snd z') row"
  using assms(1)
proof (induction rule: rtranclp_induct)
  case base
  show ?case using row(1) by (auto simp: settled_in_def)
next
  case (step y z')
  have r: "tsys_reach D (snd y)" and inv: "once_inv D (fst y) (snd y)" using once_run [OF step.hyps(1) assms(2-4)] by simp_all
  have core: "core_inv D (snd y)" using tsys_inv_reach [OF r assms(2)] by (simp add: tsys_inv_def)
  obtain row' where row': "row' \<in> set (notifications (t_db (snd y)))" "r_id row' = r_id row" "r_status row' = r_status row"
    using step.IH by (auto simp: settled_in_def)
  have zero: "tokens D (r_id row') (snd y) = 0"
    using once_invD(6) [OF inv row'(1)] row(2) row'(3) by (auto simp: row_once_def)
  from step.hyps(2) have "settled_in (snd z') row'"
  proof cases
    case (acts i pc s s' L)
    then show ?thesis using settled_acts [of D s UNIV i pc s' row'] core few_threads_reach [OF r] row'(1) zero by simp
  next
    case (other s s' L)
    then show ?thesis using settled_other [of D s s' row'] row'(1) by simp
  qed
  then show ?case using row'(2,3) by (simp add: settled_in_def)
qed

text \<open>Rows stay; and every run that works off what is there is orderly, once all submissions are stored.\<close>

lemma orderly_rows:
  "(orderly_step D)\<^sup>*\<^sup>* z z' \<Longrightarrow> row \<in> set (notifications (t_db (snd z))) \<Longrightarrow>
   \<exists>row'\<in>set (notifications (t_db (snd z'))). r_id row' = r_id row"
proof (induction rule: rtranclp_induct)
  case (step y z')
  then obtain row' where row': "row' \<in> set (notifications (t_db (snd y)))" "r_id row' = r_id row" by blast
  from step.hyps(2) show ?case
  proof cases
    case (acts i pc s s' L)
    from acts(3) show ?thesis
    proof cases
      case (acts ch body tag V pc' w')
      then show ?thesis using list_all2_left [OF moved_step [OF acts(7)], of row'] row' \<open>y = (L, s)\<close> \<open>z' = _\<close>
        by (auto simp: moved_def)
    qed
  next
    case (other s s' L)
    then show ?thesis using settled_other [of D s s' row'] row' by (auto simp: settled_in_def)
  qed
qed blast

definition all_looked_up :: "tsys \<Rightarrow> bool" where
  "all_looked_up s \<longleftrightarrow> (\<forall>i n. t_posts s i \<noteq> Parsed n)"

lemma serve_step_orderly:
  assumes "serve_step P D s s'" "all_looked_up s"
  shows "all_looked_up s' \<and> (\<exists>L'. orderly_step D (L, s) (L', s'))"
  using assms(1)
proof cases
  case (work i ch body tag pc V pc' w')
  then have "worker_acts UNIV D i pc s s'" unfolding work(1) by (intro worker_acts.acts) simp_all
  then show ?thesis using orderly_step.acts assms(2) by (fastforce simp: work(1) all_looked_up_def)
next
  case (check i n r d')
  then show ?thesis using assms(2) by (simp add: all_looked_up_def)
next
  case (insert i n u r d')
  then have "all_looked_up s'" using assms(2) by (auto simp: all_looked_up_def split: sum.splits)
  moreover have "undisturbed s s'" using assms(2) by (simp add: insert(1) undisturbed_def all_looked_up_def)
  ultimately show ?thesis using orderly_step.other [OF serve_is_step [OF assms(1)]] by blast
next
  case (take_message ch xs body ys i tag)
  have "undisturbed s s'" using assms(2) take_message(3) by (simp add: take_message(1) undisturbed_def all_looked_up_def)
  moreover have "all_looked_up s'" using assms(2) by (simp add: take_message(1) all_looked_up_def)
  ultimately show ?thesis using orderly_step.other [OF serve_is_step [OF assms(1)]] by blast
qed (use assms(2) orderly_step.other [OF serve_is_step [OF assms(1)]] in
  \<open>auto simp: undisturbed_def all_looked_up_def\<close>)

lemma serves_orderly:
  "serves P F D n s s' \<Longrightarrow> all_looked_up s \<Longrightarrow>
   all_looked_up s' \<and> (\<exists>L'. (orderly_step D)\<^sup>*\<^sup>* (L, s) (L', s'))"
proof (induction rule: serves.induct)
  case (serve n s s' s'')
  then show ?case using serve_step_orderly [OF serve.hyps(2)] by (meson rtranclp.rtrancl_into_rtrancl)
next
  case (environment n s s' fs now)
  let ?s = "s'\<lparr>t_db := (t_db s')\<lparr>db_faults := fs, db_now := now\<rparr>\<rparr>"
  have "orderly_step D (L, s') (L, ?s)" for L
    by (rule orderly_step.other) (simp_all add: tsys_step.intros undisturbed_def)
  moreover have "all_looked_up ?s" using environment by (simp add: all_looked_up_def)
  ultimately show ?case using environment by (meson rtranclp.rtrancl_into_rtrancl)
next
  case (new_router n s s')
  let ?s = "s'\<lparr>t_router := newRouter (cbFailureThreshold (dp_config D)) (cbOpenDurationMs (dp_config D))\<rparr>"
  have "orderly_step D (L, s') (L, ?s)" for L
    by (rule orderly_step.other) (simp_all add: tsys_step.intros undisturbed_def)
  moreover have "all_looked_up ?s" using new_router by (simp add: all_looked_up_def)
  ultimately show ?case using new_router by (meson rtranclp.rtrancl_into_rtrancl)
qed blast

lemma sample_orderly: "(orderly_step sample_deployment)\<^sup>*\<^sup>* ([], tsys_init sample_deployment) ([], sample_committed)"
proof -
  let ?D = sample_deployment
  obtain s1 s2 where s: "tsys_step ?D (tsys_init ?D) s1" "tsys_step ?D s1 s2" "tsys_step ?D s2 sample_committed"
    and p: "t_posts s1 = (\<lambda>_. NoPost)(0 := Parsed sample_notification)"
      "t_posts s2 = (\<lambda>_. NoPost)(0 := Absent sample_notification)" "t_workers s1 = (\<lambda>_. Free)" "t_workers s2 = (\<lambda>_. Free)"
    using sample_submission by blast
  have i: "t_posts (tsys_init ?D) = (\<lambda>_. NoPost)" "t_workers (tsys_init ?D) = (\<lambda>_. Free)" by (simp_all add: tsys_init_def)
  have "orderly_step ?D ([], tsys_init ?D) ([], s1)" by (rule orderly_step.other [OF s(1)]) (simp add: undisturbed_def i)
  moreover have "orderly_step ?D ([], s1) ([], s2)" by (rule orderly_step.other [OF s(2)]) (simp add: undisturbed_def p)
  moreover have "orderly_step ?D ([], s2) ([], sample_committed)"
    by (rule orderly_step.other [OF s(3)]) (simp add: undisturbed_def p)
  ultimately show ?thesis by (meson converse_rtranclp_into_rtranclp rtranclp.rtrancl_refl)
qed

section \<open>Property\<close>

text \<open>C5: exactly once. As long as no worker dies, no connection is lost and no submission finds
  its idempotency key in the table (HTTP threads may die, statements fail, breakers be reset),
  a provider accepts each notification at most once, under every
  interleaving: the log of what providers have accepted has no repetition, what is SENT is in it,
  what is DEAD_LETTERED is not. SENT and DEAD_LETTERED are final. And when nothing is left to do,
  no exception has left a handler and no announcement was lost, every stored notification
  has been accepted exactly once and is SENT, or never and is DEAD_LETTERED with its message
  parked. (A provider accepts by returning a result; a call that throws counts as refused, as
  it does for the worker.) The duplicates of C11, C12 and C30 need one of the excluded incidents.\<close>

theorem orderly_delivers_exactly_once:
  assumes "deployable D" "(orderly_step D)\<^sup>*\<^sup>* ([], tsys_init D) (L, s)" "row \<in> set (notifications (t_db s))"
  shows "distinct L \<and> (r_status row = ''SENT'' \<longrightarrow> r_id row \<in> set L) \<and>
    (r_status row = ''DEAD_LETTERED'' \<longrightarrow> r_id row \<notin> set L) \<and>
    (r_status row \<in> {''SENT'', ''DEAD_LETTERED''} \<longrightarrow>
       (\<forall>L' s'. (orderly_step D)\<^sup>*\<^sup>* (L, s) (L', s') \<longrightarrow>
          (\<exists>row'\<in>set (notifications (t_db s')). r_id row' = r_id row \<and> r_status row' = r_status row))) \<and>
    (at_rest D s \<and> \<not> left_by_exception s \<and> t_lost s = [] \<longrightarrow>
       r_status row = ''SENT'' \<and> count_list L (r_id row) = 1 \<or>
       r_status row = ''DEAD_LETTERED'' \<and> parked D (t_queues s) row \<and> count_list L (r_id row) = 0)"
proof -
  note r = once_reach(1) [OF assms(2,1)] and inv = once_reach(2) [OF assms(2,1)]
  have once: "row_once D L s row" by (rule once_invD(6) [OF inv assms(3)])
  have d: "distinct L" by (rule once_invD(1) [OF inv])
  have final: "settled_in s' row" if "r_status row \<in> {''SENT'', ''DEAD_LETTERED''}" "(orderly_step D)\<^sup>*\<^sup>* (L, s) (L', s')" for L' s'
    using settled_run [OF that(2) assms(1) _ _ _ that(1)] r inv assms(3) by simp
  have count: "count_list L x = (if x \<in> set L then 1 else 0)" for x
    using d by (induction L) auto
  have rest: "r_status row = ''SENT'' \<or> r_status row = ''DEAD_LETTERED'' \<and> parked D (t_queues s) row"
    if "at_rest D s \<and> \<not> left_by_exception s \<and> t_lost s = []"
    using rest_outcomes [OF assms(1) r serves.start [where P = UNIV and F = UNIV]] that assms(3)
    by (auto simp: crashed_def left_by_exception_def)
  show ?thesis
    using d once final rest by (auto simp: row_once_def settled_in_def count)
qed

theorem orderly_delivers_exactly_once_witness:
  "\<exists>L s row. (orderly_step sample_deployment)\<^sup>*\<^sup>* ([], tsys_init sample_deployment) (L, s) \<and>
     row \<in> set (notifications (t_db s)) \<and> r_id row = n_id sample_saved \<and> distinct L \<and>
     (r_status row = ''SENT'' \<and> count_list L (n_id sample_saved) = 1 \<or>
      r_status row = ''DEAD_LETTERED'' \<and> parked sample_deployment (t_queues s) row \<and> count_list L (n_id sample_saved) = 0)"
proof -
  let ?D = sample_deployment
  note h = sample_healthy
  obtain n s where run: "serves mock_answers no_faults ?D n sample_committed s" "at_rest ?D s"
    using rest_is_reached [OF deployable_sample some_mock_answer sample_committed_reachable] by blast
  have "all_looked_up sample_committed" by (simp add: all_looked_up_def sample_committed_def)
  then obtain L where L: "(orderly_step ?D)\<^sup>*\<^sup>* ([], sample_committed) (L, s)" using serves_orderly [OF run(1)] by blast
  then have all: "(orderly_step ?D)\<^sup>*\<^sup>* ([], tsys_init ?D) (L, s)" using sample_orderly by (rule rtranclp_trans [rotated])
  obtain row where row: "row \<in> set (notifications (t_db s))" "r_id row = n_id sample_saved"
    using orderly_rows [OF L, of "inserted_row sample_saved 0"]
    by (auto simp: sample_committed_def sample_start_def sample_db_def inserted_row_def newRow_def)
  have "\<not> left_by_exception s"
    using healthyD(4) [OF healthy_run [OF run(1) deployable_sample sample_committed_reachable]] h(1-4)
    by (fastforce simp: left_by_exception_def healthy_def fits_def)
  moreover have "t_lost s = []" using serves_lost [OF run(1)] h(5) by simp
  ultimately show ?thesis
    using orderly_delivers_exactly_once [OF deployable_sample all row(1)] run(2) all row by (auto intro!: exI)
qed

end
