(* ===== verification/Service.thy ===== *)
theory Service
  imports WorkerProperties HttpServer Database
begin

text \<open>
  src/main.cpp: starting the service in its order (configuration, session pool, publisher and
  topology, workers, HTTP server), waiting for a signal and stopping, statement by statement, so
  that the states in between can be spoken about; and Logger.hpp.
  Connecting to MySQL and RabbitMQ is taken to succeed (a failure throws out of \<open>main\<close>), and
  so is the joining of a thread that has been told to stop.
\<close>

datatype Level = Debug | Info | Warn | Error

fun levelStr :: "Level \<Rightarrow> string" where
  "levelStr Debug = ''DEBUG''"
| "levelStr Info = ''INFO''"
| "levelStr Warn = ''WARN''"
| "levelStr Error = ''ERROR''"

text \<open>
  One log line. The time as printed by \<open>put_time\<close> and the thread's id as printed by the
  standard library are arguments; standard output is the list of lines.
\<close>

definition log_line :: "Level \<Rightarrow> string \<Rightarrow> string \<Rightarrow> string \<Rightarrow> string \<Rightarrow> string" where
  "log_line level ts thread component msg =
     ''['' @ ts @ ''] ['' @ levelStr level @ ''] '' @
     ''[thread='' @ thread @ ''] '' @
     ''['' @ component @ ''] '' @ msg"

definition log_write ::
  "Level \<Rightarrow> string \<Rightarrow> string \<Rightarrow> string \<Rightarrow> string \<Rightarrow> string list \<Rightarrow> string list" where
  "log_write level ts thread component msg out = out @ [log_line level ts thread component msg]"

section \<open>Start, wait and stop\<close>

text \<open>The local objects of \<open>main\<close>, \<open>None\<close> before they are constructed.\<close>

record service =
  sv_config :: Config
  sv_pool :: "ConnectionPool option"
  sv_publisher :: "RabbitMQPublisher option"
  sv_router :: "MockProvider ProviderRouter option"
  sv_workers :: "WorkerThread list"
  sv_http :: "HttpServer option"

definition configPath :: "string list \<Rightarrow> string" where
  "configPath argv = (if length argv > 1 then argv ! 1 else ''config/config.json'')"

text \<open>
  The statements of \<open>main\<close> that start and stop the service, one by one, the destructors at its
  closing brace included. \<open>None\<close> would be a worker thread started twice. Declaring the topology
  puts the operations on the publisher's channel; the broker executes them while \<open>main\<close>
  sleeps, it is not asked whether it has.
\<close>

datatype main_stmt =
    MakePool | MakePublisher | DeclareTopology | MakeWorkers | StartWorkers | MakeHttp | StartHttp
  | StopHttp | StopWorkers | DestroyHttp | DestroyWorkers | DestroyPublisher

fun exec_stmt :: "main_stmt \<Rightarrow> service \<Rightarrow> service option" where
  "exec_stmt MakePool s = Some (s\<lparr>sv_pool := Some (newPool (pool_size (sv_config s)))\<rparr>)"
| "exec_stmt MakePublisher s = Some (s\<lparr>sv_publisher := Some (newPublisher (sv_config s))\<rparr>)"
| "exec_stmt DeclareTopology s =
     Some (s\<lparr>sv_publisher := map_option (declareTopologyBlocking (sv_config s)) (sv_publisher s)\<rparr>)"
| "exec_stmt MakeWorkers s =
     (case newWorkerPool (sv_config s) of (router, ws) \<Rightarrow> Some (s\<lparr>sv_router := Some router, sv_workers := ws\<rparr>))"
| "exec_stmt StartWorkers s = map_option (\<lambda>ws. s\<lparr>sv_workers := ws\<rparr>) (start_all (sv_workers s))"
| "exec_stmt MakeHttp s = Some (s\<lparr>sv_http := Some newHttpServer\<rparr>)"
| "exec_stmt StartHttp s = Some (s\<lparr>sv_http := map_option (hs_start (sv_config s)) (sv_http s)\<rparr>)"
| "exec_stmt StopHttp s = Some (s\<lparr>sv_http := map_option hs_stop (sv_http s)\<rparr>)"
| "exec_stmt StopWorkers s = Some (s\<lparr>sv_workers := stop_all (sv_workers s)\<rparr>)"
| "exec_stmt DestroyHttp s = Some (s\<lparr>sv_http := map_option destroyHttpServer (sv_http s)\<rparr>)"
| "exec_stmt DestroyWorkers s = Some (s\<lparr>sv_workers := destroyWorkerPool (sv_workers s)\<rparr>)"
| "exec_stmt DestroyPublisher s = Some (s\<lparr>sv_publisher := map_option destroyPublisher (sv_publisher s)\<rparr>)"

definition start_stmts :: "main_stmt list" where
  "start_stmts = [MakePool, MakePublisher, DeclareTopology, MakeWorkers, StartWorkers, MakeHttp, StartHttp]"

text \<open>After the loop: stop, then the destructors in reverse order of construction.\<close>

definition stop_stmts :: "main_stmt list" where
  "stop_stmts = [StopHttp, StopWorkers, DestroyHttp, DestroyWorkers, DestroyPublisher]"

text \<open>Executing statements, and the states passed through on the way.\<close>

fun exec_stmts :: "main_stmt list \<Rightarrow> service \<Rightarrow> service option" where
  "exec_stmts [] s = Some s"
| "exec_stmts (st # sts) s = (case exec_stmt st s of None \<Rightarrow> None | Some s' \<Rightarrow> exec_stmts sts s')"

fun main_states :: "main_stmt list \<Rightarrow> service \<Rightarrow> service list" where
  "main_states [] s = [s]"
| "main_states (st # sts) s = s # (case exec_stmt st s of None \<Rightarrow> [] | Some s' \<Rightarrow> main_states sts s')"

definition main_begin :: "Config \<Rightarrow> service" where
  "main_begin config = \<lparr>sv_config = config, sv_pool = None, sv_publisher = None, sv_router = None,
     sv_workers = [], sv_http = None\<rparr>"

text \<open>\<open>Inl code\<close>: the process exits with this code before serving.\<close>

definition main_start ::
  "'j json_lib \<Rightarrow> (string \<Rightarrow> string option) \<Rightarrow> string list \<Rightarrow> nat + service option" where
  "main_start J open_file argv =
     (case loadFromFile J open_file (configPath argv) of
        Inl ex \<Rightarrow> Inl 1
      | Inr config \<Rightarrow> Inr (exec_stmts start_stmts (main_begin config)))"

definition main_stop :: "service \<Rightarrow> (nat \<times> service) option" where
  "main_stop sv = map_option (Pair 0) (exec_stmts stop_stmts sv)"

text \<open>
  The wait loop: \<open>naps\<close> holds, for each sleep of 500 ms, the numbers of the signals that
  arrive during it (SIGINT and SIGTERM, the two with a handler). The result counts the sleeps,
  or is \<open>None\<close> when the loop is still waiting after all of them.
\<close>

definition handleSignal :: "int \<Rightarrow> bool \<Rightarrow> bool" where
  "handleSignal sig g_shutdown = True"

fun wait_shutdown :: "bool \<Rightarrow> int list list \<Rightarrow> nat option" where
  "wait_shutdown True naps = Some 0"
| "wait_shutdown False [] = None"
| "wait_shutdown False (sigs # naps) = map_option Suc (wait_shutdown (fold handleSignal sigs False) naps)"

text \<open>The whole of \<open>main\<close>: its exit code, once it has returned.\<close>

definition main_run ::
  "'j json_lib \<Rightarrow> (string \<Rightarrow> string option) \<Rightarrow> string list \<Rightarrow> int list list \<Rightarrow> nat option" where
  "main_run J open_file argv naps =
     (case main_start J open_file argv of
        Inl code \<Rightarrow> Some code
      | Inr None \<Rightarrow> None
      | Inr (Some sv) \<Rightarrow>
          (case wait_shutdown False naps of None \<Rightarrow> None | Some k \<Rightarrow> map_option fst (main_stop sv)))"

lemma handleSignal_fold: "fold handleSignal sigs b = (b \<or> sigs \<noteq> [])"
  by (induction sigs arbitrary: b) (simp_all add: handleSignal_def)

lemma wait_shutdown_Cons [simp]:
  "wait_shutdown False (sigs # naps) =
     (if sigs = [] then map_option Suc (wait_shutdown False naps) else Some 1)"
  by (cases "sigs = []") (simp_all add: handleSignal_fold del: fold_simps)

declare wait_shutdown.simps(3) [simp del]

text \<open>The loop ends with the first sleep in which a signal arrives.\<close>

lemma wait_shutdown_first:
  "list_all (\<lambda>sigs. sigs = []) silent \<Longrightarrow> sigs \<noteq> [] \<Longrightarrow>
   wait_shutdown False (silent @ sigs # rest) = Some (Suc (length silent))"
  by (induction silent) simp_all

lemma wait_shutdown_conv: "wait_shutdown False naps = None \<longleftrightarrow> list_all (\<lambda>sigs. sigs = []) naps"
  by (induction naps) simp_all

section \<open>The order of starting and stopping\<close>

text \<open>
  A state in which nothing is used before it is there: a consuming worker finds its queue among
  those that have been declared on the publisher's channel, after confirm mode has been selected
  on it; an accepting HTTP thread finds the session pool, the publisher with its thread running
  and the topology declared, and all workers of every channel consuming.
\<close>

definition declared_by :: "Config \<Rightarrow> RabbitMQPublisher option \<Rightarrow> bool" where
  "declared_by config p \<longleftrightarrow> map_option pub_ops p = Some (ConfirmSelect # declareAll config)"

definition in_order :: "Config \<Rightarrow> service \<Rightarrow> bool" where
  "in_order config s \<longleftrightarrow>
     (\<forall>w\<in>set (sv_workers s). \<forall>q. consuming w q \<longrightarrow>
        declared_by config (sv_publisher s) \<and> q \<in> set (declared_queues (declareAll config))) \<and>
     (\<forall>h. sv_http s = Some h \<and> 0 < hs_threads h \<longrightarrow>
        sv_pool s \<noteq> None \<and> declared_by config (sv_publisher s) \<and>
        map_option pub_thread_joinable (sv_publisher s) = Some True \<and>
        (\<forall>c. length (filter (\<lambda>w. consuming w (mainQueue c)) (sv_workers s)) = nat (workersPerChannel config)))"

lemma consuming_new [simp]: "\<not> consuming (newWorkerThread config c) q"
  by (simp add: consuming_def newWorkerThread_def)

lemma consuming_stopped [simp]: "\<not> consuming (stop (started config c)) q" "\<not> consuming (stop (stop (started config c))) q"
  by (simp_all add: consuming_def started_def stop_def Let_def)

lemma started_count:
  "length (filter (\<lambda>w. consuming w (mainQueue c)) (map (started config) (pool_channels config))) =
     nat (workersPerChannel config)"
  using pool_count [of c config] by (simp add: filter_map comp_def eq_commute)

lemma declared_now: "declared_by config (Some (declareTopologyBlocking config (newPublisher config)))"
  by (simp add: declared_by_def declareTopologyBlocking_def newPublisher_def)

definition service_up :: "Config \<Rightarrow> service" where
  "service_up config = \<lparr>sv_config = config, sv_pool = Some (newPool (pool_size config)),
     sv_publisher = Some (declareTopologyBlocking config (newPublisher config)),
     sv_router = Some (fst (newWorkerPool config)), sv_workers = map (started config) (pool_channels config),
     sv_http = Some (hs_start config newHttpServer)\<rparr>"

lemma new_pool: "newWorkerPool config = (fst (newWorkerPool config), map (newWorkerThread config) (pool_channels config))"
  using pool_workers [of config] by (metis prod.collapse)

lemma exec_make_workers:
  "exec_stmt MakeWorkers s = Some (s\<lparr>sv_router := Some (fst (newWorkerPool (sv_config s))),
     sv_workers := map (newWorkerThread (sv_config s)) (pool_channels (sv_config s))\<rparr>)"
  by (subst exec_stmt.simps, subst new_pool) simp

declare exec_stmt.simps(4) [simp del] exec_make_workers [simp]

lemma start_runs: "exec_stmts start_stmts (main_begin config) = Some (service_up config)"
  by (simp add: start_stmts_def main_begin_def service_up_def start_all_new)

lemma start_in_order: "list_all (in_order config) (main_states start_stmts (main_begin config))"
  using started_count [of _ config]
  by (simp add: start_stmts_def main_begin_def start_all_new in_order_def declared_now declared_queue_iff
      newHttpServer_def) (simp add: hs_start_def declareTopologyBlocking_def newPublisher_def)

lemma stop_in_order: "list_all (in_order config) (main_states stop_stmts (service_up config))"
  using started_count [of _ config]
  by (simp add: stop_stmts_def service_up_def in_order_def declared_now declared_queue_iff stop_all_def
      destroyWorkerPool_def destroyWorkerThread_def hs_stop_def destroyHttpServer_def Let_def)
    (simp add: hs_start_def declareTopologyBlocking_def newPublisher_def)

text \<open>C38: start and stop. A configuration that does not load ends the process with code 1
  before anything has started. Otherwise the service comes up, whatever the configuration, and
  in the right order: in every state that \<open>main\<close> passes through, on the way up and on the way
  down, a worker consumes only from queues whose declaration has been issued before, and an HTTP
  thread accepts only while the session pool, the publisher with the whole topology and all
  \<open>workersPerChannel\<close> workers of every channel are there. Up there are \<open>httpThreads\<close>
  acceptors; it serves until the first signal; after the stop nothing consumes, no thread is left
  (joins taken to return) and the exit code is 0.\<close>

theorem service_starts_and_stops:
  "(\<exists>ex. loadFromFile J open_file (configPath argv) = Inl ex \<and> main_start J open_file argv = Inl 1 \<and>
      main_run J open_file argv naps = Some 1) \<or>
   (\<exists>config sv sv'. loadFromFile J open_file (configPath argv) = Inr config \<and>
      main_start J open_file argv = Inr (Some sv) \<and> main_stop sv = Some (0, sv') \<and>
      list_all (in_order config) (main_states start_stmts (main_begin config) @ main_states stop_stmts sv) \<and>
      declared_by config (sv_publisher sv) \<and>
      (\<forall>c. length (filter (\<lambda>w. consuming w (mainQueue c)) (sv_workers sv)) = nat (workersPerChannel config)) \<and>
      map_option hs_threads (sv_http sv) = Some (nat (httpThreads config)) \<and>
      map_option hs_threads (sv_http sv') = Some 0 \<and>
      filter (\<lambda>w. \<exists>q. consuming w q) (sv_workers sv') = [] \<and>
      map_option pub_thread_joinable (sv_publisher sv') = Some False \<and>
      main_run J open_file argv naps = (if list_all (\<lambda>sigs. sigs = []) naps then None else Some 0))"
proof (cases "loadFromFile J open_file (configPath argv)")
  case (Inl ex)
  then show ?thesis by (simp add: main_run_def main_start_def)
next
  case (Inr config)
  let ?sv = "service_up config"
  have s: "main_start J open_file argv = Inr (Some ?sv)" by (simp add: main_start_def Inr start_runs)
  obtain sv' where sv': "main_stop ?sv = Some (0, sv')"
    and down: "map_option hs_threads (sv_http sv') = Some 0" "filter (\<lambda>w. \<exists>q. consuming w q) (sv_workers sv') = []"
      "map_option pub_thread_joinable (sv_publisher sv') = Some False"
    by (simp add: main_stop_def stop_stmts_def service_up_def stop_all_def destroyWorkerPool_def
        destroyWorkerThread_def hs_stop_def destroyHttpServer_def destroyPublisher_def Let_def filter_map comp_def)
  have "main_run J open_file argv naps = (if list_all (\<lambda>sigs. sigs = []) naps then None else Some 0)"
    using wait_shutdown_conv [of naps] by (auto simp: main_run_def s sv' split: option.splits)
  moreover have "declared_by config (sv_publisher ?sv)" by (simp add: service_up_def declared_now)
  moreover have "map_option hs_threads (sv_http ?sv) = Some (nat (httpThreads config))"
    by (simp add: service_up_def hs_start_def newHttpServer_def)
  moreover have "length (filter (\<lambda>w. consuming w (mainQueue c)) (sv_workers ?sv)) = nat (workersPerChannel config)" for c
    using started_count [of c config] by (simp add: service_up_def)
  ultimately show ?thesis
    using s sv' down Inr start_in_order stop_in_order
    by (intro disjI2 exI [of _ config] exI [of _ ?sv] exI [of _ sv']) simp
qed

end
