(* ===== verification/Spec2Isabelle.thy ===== *)
theory Spec2Isabelle
  imports ExactlyOnce Service
begin

text \<open>
  \<^bold>\<open>Verification library of the notification delivery service.\<close>

  The service (src/src and src/include/notification, C++17) accepts notifications over HTTP,
  stores them in MySQL together with an outbox event, publishes a delivery message per
  submission to RabbitMQ, and delivers them by worker threads through per-channel providers
  guarded by circuit breakers. A transient failure parks the message on a rung of a retry
  ladder (a queue with a TTL that dead-letters back to the main queue); a permanent failure,
  or one after the last retry, parks it in the channel's dead-letter queue.

  \<^bold>\<open>Theories and the code they model.\<close>

  \<^item> \<open>Prelude\<close>: exceptions (\<open>exn\<close>), the actions \<open>('s, 'a) act\<close> into which every function
    that changes state or may throw is translated (state in, outcome and state out, also when
    it throws), their rules (collection \<open>preserves_intros\<close>), decimal text.
  \<^item> \<open>Enums\<close>, \<open>Models\<close>: Enums.hpp, Models.hpp.
  \<^item> \<open>IdGenerator\<close>, \<open>CircuitBreaker\<close>, \<open>Providers\<close>, \<open>ProviderRouter\<close>: IdGenerator.hpp,
    CircuitBreaker.hpp, Provider.hpp with MockProviders.cpp, ProviderRouter.cpp. The router's
    send is written over the locale \<open>breaker\<close>'s operations and used with the real breaker
    (interpretation \<open>cb\<close>).
  \<^item> \<open>Json\<close>, \<open>Amqp\<close>, \<open>Tables\<close>: the boundaries to nlohmann::json, to AMQP-CPP and the
    broker, and to the MySQL server (below).
  \<^item> \<open>Config\<close>: Config.hpp.
  \<^item> \<open>Database\<close>: Database.cpp, the session pool, its RAII handle and the interleaving of the
    threads that use it (locale \<open>session_pool\<close>, interpretation \<open>pool\<close>).
  \<^item> \<open>NotificationRepository\<close>, \<open>DeliveryAttemptRepository\<close>: the two repositories on the
    tables of \<open>Tables\<close>; the five single-row updates share the locale \<open>row_update\<close>.
  \<^item> \<open>RabbitMQTopology\<close>, \<open>RabbitMQPublisher\<close>: names and declarations of the queues, and the
    publisher's operations, as lists of AMQP operations.
  \<^item> \<open>Worker\<close>: Worker.cpp, the message handler and the life of threads and pool;
    \<open>WorkerProperties\<close> proves what the handler does on each branch.
  \<^item> \<open>HttpServer\<close>: HttpServer.cpp, routing, handlers, error answers, accept loop.
  \<^item> \<open>System\<close>: the composition: tables, queues, breakers; the steps are an HTTP request, a
    delivery, the expiry of a parked message, a restart of the process, and the environment
    choosing which of the next statements fail; a request or a delivery may be cut off after
    any of its operations on the broker (lost connection, killed process).
  \<^item> \<open>RetryLadder\<close>: the deliveries of one notification, one after the other, every retry going
    through the declared topology and coming back when its rung expires.
  \<^item> \<open>Handler\<close>: the message handler as a machine with one step per statement, admission by the
    breaker, provider call or channel operation, proved to be \<open>Worker.onMessage\<close> when it runs
    alone (C9). \<open>ProviderRouter.router_admit\<close>, \<open>router_call\<close> and \<open>router_report\<close> are the three
    parts of the router's \<open>send\<close>, between which other threads run.
  \<^item> \<open>Threads\<close>: workers, HTTP submissions, expiries and deaths of threads interleaved step by
    step. Its invariant has a core (tables, queues, what workers and HTTP threads hold) and an
    account of every row; \<open>accounts_step\<close> says once what any step can do to an account.
  \<^item> \<open>Progress\<close>, \<open>Samples\<close>: lemmas that extend a run by the steps of one worker, and concrete
    runs for the witnesses. \<open>Races\<close>: two workers on one notification, late reports to a
    breaker. \<open>Recovery\<close>: no dead ends. \<open>Quiescence\<close>: the service comes to rest, by a measure of
    the work that is left; \<open>Healthy\<close>: no exception leaves a handler when nothing fails from
    outside. \<open>Orphans\<close>: notifications no message is about.
    \<open>Connections\<close>: the interleaved system extended by handlers that have lost their
    connection to the broker and go on against the database; \<open>AuditTrail\<close>: the rows of
    \<open>delivery_attempts\<close> in that system.
  \<^item> \<open>Pooled\<close>: the product of \<open>Threads\<close> and the session pool of \<open>Database\<close>: as many HTTP threads,
    workers of each channel and sessions as the configuration says, every repository call
    waiting for its session, \<open>insertWithOutbox\<close> for its second one, and restarts of the
    process. \<open>PoolProgress\<close>: that system works off what it has been given.
  \<^item> \<open>ExactlyOnce\<close>: runs of \<open>Threads\<close> without deaths of workers and repeated submissions; a
    count of the messages, handlers and HTTP threads responsible for a notification
    (\<open>tokens\<close>), which never exceeds one in them.
  \<^item> \<open>Service\<close>: main.cpp, construction, start, wait loop, stop and destruction in its order;
    the lines of Logger.hpp.

  \<^bold>\<open>What the theorems show.\<close> For the whole service: no stored notification is lost, other
  than one whose own publish never reached the broker, with threads interleaved statement by
  statement (C1), with lost connections and handlers that go on without theirs (C2), and with
  handlers atomic but their output cut off anywhere (C7); from every reachable state a
  notification on its way can still be delivered (C3); without new requests and deaths of
  threads every run is finite, with a computed bound, and ends with an outcome for every
  notification (C4), SENT or parked when the database answers and the providers are the
  repository's own, now with the session pool and the configured numbers of threads (C6);
  without deaths of workers, lost connections and repeated submissions each notification is
  accepted exactly once, or never and parked (C5); the retries of one notification end (C8);
  nothing foreign is in flight (C10). Yet SENT is not final when two workers race (C11) or
  a connection is lost (C12), and a notification whose announcement is lost is not brought back
  by its outbox event (C13). For the worker: the machine is the handler (C9) and ends within
  eleven of its own steps under any interference (C16), its audit trail within the configured
  attempts in the same system (C17), acknowledgement last, once and exactly on
  return (C14), the status machine of one handler (C15), every branch of a delivery (C26-C28), the
  invariants under every failure (\<open>onMessage_preserves_invariant\<close>, a plain theorem).
  For the API: accepted, repeated and rejected submissions, with the error that ends the
  process, safety under every input, reading (C29-C32, C37). For the repositories:
  atomicity and idempotence of the insert, concurrent duplicates, the audit trail (C18, C19,
  C35, C36). For the pool, in the service that uses it: submissions that stop every delivery for
  good when there are as many HTTP threads as sessions (C20), progress of all threads
  otherwise (C21), refinement of the interleaved system, every call under its own thread's
  exclusive session (C22). For breaker and
  router: a specification over the history and its refinement, the two ways in which half-open
  departs from one probe (C23-C25). For the topology: the exact condition under which no retry
  is dropped, rungs that lead back (C33, C34). The order of starting and stopping (C38), configuration (C39),
  identifiers (C40). Further results are plain theorems: the pool by itself (deadlock, absence of
  deadlock), the healthy service without the pool, the topology's well-formedness,
  the life of the worker pool, the pages of \<open>list\<close>, the list route, the order of the audit
  trail, the router's recovery, fail-fast and reachable states of the breaker.

  \<^bold>\<open>Parameters: code that is not in the repository.\<close>

  \<^item> nlohmann::json is the record \<open>json_lib\<close> of the operations the code calls, with the laws
    \<open>json_laws\<close> (a dumped flat object parses back, lookups by key, conversions in range);
    \<open>Json.chunk_json\<close> is a concrete implementation that satisfies them, used in witnesses.
  \<^item> The broker is a routing function with \<open>broker_laws\<close> (the default exchange routes by
    queue name, a topic exchange by its bindings for keys without wildcards, to declared
    queues only); \<open>Amqp.simple_broker\<close> satisfies them. The laws take declarations to be
    accepted, so the configured retry delays are taken not to be negative.
  \<^item> The MySQL server is \<open>Tables\<close>: the statements clause by clause, with the collation, the
    order of rows with equal sort keys and the schedule of failing statements as parameters.
    A statement that fails changes nothing; a transaction that is rolled back restores the
    tables (also when the rollback itself fails: the server discards it with the session).
  \<^item> Random draws, clock readings and provider answers are arguments.

  \<^bold>\<open>Bounds.\<close> 32-bit columns and \<open>int\<close> fields are integers with their range written out where
  it matters (\<open>int32_range\<close>, \<open>to_int32\<close>, \<open>uint32_max\<close>); priorities are 8-bit words. All
  functions are total; the only fuel is the list of environments of \<open>RetryLadder.chase\<close>, one
  per delivery, and C8 shows that \<open>maxRetries + 2 - a\<close> of them are enough.

  \<^bold>\<open>Not modelled.\<close> Sockets, HTTP parsing and TCP (Boost.Beast and Asio): a request is given,
  or could not be read; whether a closed acceptor wakes a blocked \<open>accept\<close> and thread joins
  return. The latency and start-up sleeps (when the broker executes the declarations that
  \<open>Service\<close> issues is not said), where and when the code logs, publisher confirms
  and channel errors, which reach only the log. \<open>System\<close> takes handlers one after the other
  and lets the broker receive a prefix of what they issue; \<open>Threads\<close> interleaves them and lets
  what is issued arrive at once; \<open>Connections\<close> adds handlers of which nothing arrives any more.
  The breaker is modelled under its own mutex, as sequences of operations in any order.
  \<open>Threads\<close> takes a session to be there when a statement needs one, \<open>Pooled\<close> does not; in
  \<open>Pooled\<close> threads end with the process only, and a handler that has lost its connection
  (\<open>Connections\<close>) is not part of it. A statement and the return of its session are one step, and an
  insert transaction is one step of \<open>Threads\<close>; a prefetched message no handler has begun with
  counts as still queued.
  The scheduler is not assumed fair:
  C4 needs no fairness, as it bounds every run; C3 says that delivery stays possible, not that
  it happens.
  An exception that leaves the worker's handler terminates the process; in \<open>System\<close> that is
  the unacknowledged message staying in its queue, with the restart a step of its own, in
  \<open>Threads\<close> a handler that takes no further step until its thread dies. The
  dashboard (TypeScript), build files and scripts are not part of the library.
\<close>

end
